(* ===== verification/XRT_Prelude.thy ===== *)
theory XRT_Prelude
  imports Main "HOL-Library.Word" "HOL-Library.Monad_Syntax"
begin

unbundle bit_operations_syntax

text \<open>
  Shared material of the development: names for the machine types, bit fields of a word,
  loops in the option monad with their invariant rules, and the interface of a transition
  system with an inductive invariant, which the components interpret.
\<close>

section \<open>Types and lemma collections\<close>

type_synonym u16 = "16 word"
type_synonym u32 = "32 word"
type_synonym u64 = "64 word"

named_theorems frame_simps \<open>what an operation leaves unchanged\<close>
named_theorems inv_intros \<open>operations that keep a component's invariant\<close>

lemma unat_of_nat_small: "k < 2 ^ LENGTH('a) \<Longrightarrow> unat (word_of_nat k :: 'a::len word) = k"
  by (simp add: unat_of_nat)

lemma unat_add_small:
  fixes a b :: "'a :: len word"
  assumes "unat a + unat b < 2 ^ LENGTH('a)"
  shows "unat (a + b) = unat a + unat b"
  unfolding unat_word_ariths using assms by (rule mod_less)

lemma unat_mult_small:
  fixes a b :: "'a :: len word"
  assumes "unat a * unat b < 2 ^ LENGTH('a)"
  shows "unat (a * b) = unat a * unat b"
  unfolding unat_word_ariths using assms by (rule mod_less)

lemma unat_ucast_up: "unat (ucast a :: u64) = unat a" for a :: u32
  using unsigned_less [of a, where ?'a = nat] by (simp add: unsigned_ucast_eq take_bit_nat_eq_self_iff)

lemma unat_Suc_less: "i < n \<Longrightarrow> unat (i + 1) = unat i + 1" for i n :: "'a::len word"
proof -
  assume "i < n"
  then have "unat i + 1 < 2 ^ LENGTH('a)"
    using unsigned_less [of n, where ?'a = nat] unfolding word_less_nat_alt by linarith
  then show ?thesis by (simp add: unat_word_ariths)
qed

lemma unat_uminus: "w \<noteq> 0 \<Longrightarrow> unat (- w) = 2 ^ LENGTH('a) - unat (w :: 'a::len word)"
  using unat_sub_if' [of 0 w] by (simp add: word_le_nat_alt unat_eq_zero split: if_splits)

lemma and_not_mask: "a AND NOT (mask n) = a - take_bit n (a :: 'a::len word)"
proof -
  have "a AND NOT (mask n) = a AND NOT (take_bit n a)"
    by (rule bit_word_eqI) (auto simp: bit_simps)
  moreover have "NOT a AND take_bit n a = 0"
    by (rule bit_word_eqI) (auto simp: bit_simps)
  ultimately show ?thesis by (simp only: disjunctive_diff_eq_and_not)
qed

section \<open>Bit fields\<close>

text \<open>
  \<open>bits lo w x\<close> reads the bit field of width \<open>w\<close> that starts at bit \<open>lo\<close>;
  \<open>put_bits lo w v x\<close> stores the low \<open>w\<close> bits of \<open>v\<close> there and keeps the
  other bits of \<open>x\<close>.
\<close>

definition bits :: "nat \<Rightarrow> nat \<Rightarrow> 'a::len word \<Rightarrow> 'a word" where
  "bits lo w x = take_bit w (drop_bit lo x)"

definition put_bits :: "nat \<Rightarrow> nat \<Rightarrow> 'a::len word \<Rightarrow> 'a word \<Rightarrow> 'a word" where
  "put_bits lo w v x = (x AND NOT (push_bit lo (mask w))) OR push_bit lo (take_bit w v)"

lemma bit_bits: "bit (bits lo w x) n \<longleftrightarrow> n < w \<and> bit x (lo + n)"
  by (auto simp: bits_def bit_simps)

lemma bit_put_bits:
  fixes v x :: "'a::len word"
  shows "bit (put_bits lo w v x) n \<longleftrightarrow>
    n < LENGTH('a) \<and> (if lo \<le> n \<and> n < lo + w then bit v (n - lo) else bit x n)"
  by (auto simp: put_bits_def bit_simps dest: bit_imp_le_length)

lemma bits_put_bits_same [simp]:
  fixes v x :: "'a::len word"
  assumes "lo + w \<le> LENGTH('a)"
  shows "bits lo w (put_bits lo w v x) = take_bit w v"
  using assms by (auto intro!: bit_word_eqI simp: bit_bits bit_put_bits bit_simps)

lemma bits_put_bits_other [simp]:
  fixes v x :: "'a::len word"
  assumes "lo + w \<le> lo' \<or> lo' + w' \<le> lo"
  shows "bits lo w (put_bits lo' w' v x) = bits lo w x"
  using assms by (auto intro!: bit_word_eqI simp: bit_bits bit_put_bits dest: bit_imp_le_length)

lemma unat_bits: "unat (bits lo w x) = unat x div 2 ^ lo mod 2 ^ w"
  unfolding bits_def unsigned_take_bit_eq unat_drop_bit_eq
  by (simp only: take_bit_eq_mod drop_bit_eq_div)

lemma unat_bits_less: "unat (bits lo w x) < 2 ^ w"
  by (simp add: unat_bits)

lemma bits_eq_and_mask: "bits lo w x = drop_bit lo x AND mask w"
  by (simp add: bits_def take_bit_eq_mask)

lemma bits_0_and: "bits 0 w x = x AND mask w"
  by (simp add: bits_eq_and_mask)

section \<open>Arrays and loops in the option monad\<close>

text \<open>
  Code whose result is not defined (an out-of-range index, a shift that is too wide, a loop
  that does not end) has the value \<open>None\<close>. An array of \<open>n\<close> elements is a function
  on its index type, read and written through guarded accesses.
\<close>

definition rd_arr :: "u32 \<Rightarrow> (u32 \<Rightarrow> 'a) \<Rightarrow> u32 \<Rightarrow> 'a option" where
  "rd_arr n f i = (if i < n then Some (f i) else None)"

definition wr_arr :: "u32 \<Rightarrow> u32 \<Rightarrow> 'a \<Rightarrow> (u32 \<Rightarrow> 'a) \<Rightarrow> (u32 \<Rightarrow> 'a) option" where
  "wr_arr n i v f = (if i < n then Some (f(i := v)) else None)"

lemma rd_arr_Some [simp]: "rd_arr n f i = Some v \<longleftrightarrow> i < n \<and> v = f i"
  by (auto simp: rd_arr_def)

lemma wr_arr_Some [simp]: "wr_arr n i v f = Some g \<longleftrightarrow> i < n \<and> g = f(i := v)"
  by (auto simp: wr_arr_def)

text \<open>The indices of a counting loop \<open>for (i = lo; i < hi; ++i)\<close>.\<close>

definition upto_u32 :: "u32 \<Rightarrow> u32 \<Rightarrow> u32 list" where
  "upto_u32 lo hi = map word_of_nat [unat lo..<unat hi]"

lemma set_upto_u32 [simp]: "i \<in> set (upto_u32 lo hi) \<longleftrightarrow> lo \<le> i \<and> i < hi"
proof
  assume "i \<in> set (upto_u32 lo hi)"
  then obtain k where k: "unat lo \<le> k" "k < unat hi" "i = word_of_nat k"
    by (auto simp: upto_u32_def)
  moreover from k(2) have "k < 2 ^ LENGTH(32)"
    using unsigned_less [of hi, where ?'a = nat] by simp
  ultimately show "lo \<le> i \<and> i < hi"
    by (simp add: word_le_nat_alt word_less_nat_alt unat_of_nat_small)
next
  assume "lo \<le> i \<and> i < hi"
  then have "unat i \<in> set [unat lo..<unat hi]"
    by (simp add: word_le_nat_alt word_less_nat_alt)
  then have "word_of_nat (unat i) \<in> set (upto_u32 lo hi)"
    unfolding upto_u32_def set_map by (rule imageI)
  then show "i \<in> set (upto_u32 lo hi)" by simp
qed

lemma distinct_upto_u32 [simp]: "distinct (upto_u32 lo hi)"
proof -
  have "inj_on (word_of_nat :: nat \<Rightarrow> u32) {unat lo..<unat hi}"
  proof (rule inj_onI)
    fix x y assume xy: "x \<in> {unat lo..<unat hi}" "y \<in> {unat lo..<unat hi}"
      and eq: "(word_of_nat x :: u32) = word_of_nat y"
    have "x < 2 ^ LENGTH(32)" "y < 2 ^ LENGTH(32)"
      using xy unsigned_less [of hi, where ?'a = nat] by auto
    then have "unat (word_of_nat x :: u32) = x" "unat (word_of_nat y :: u32) = y"
      by (auto intro: unat_of_nat_small)
    with eq show "x = y" by metis
  qed
  then show ?thesis by (simp add: upto_u32_def distinct_map)
qed

lemma length_upto_u32 [simp]: "length (upto_u32 lo hi) = unat hi - unat lo"
  by (simp add: upto_u32_def)

fun forM :: "('x \<Rightarrow> 's \<Rightarrow> 's option) \<Rightarrow> 'x list \<Rightarrow> 's \<Rightarrow> 's option" where
  "forM f [] s = Some s"
| "forM f (x # xs) s = Option.bind (f x s) (forM f xs)"

lemma forM_inv:
  assumes "forM f xs s = Some t" and "P s"
    and "\<And>x s t. x \<in> set xs \<Longrightarrow> P s \<Longrightarrow> f x s = Some t \<Longrightarrow> P t"
  shows "P t"
  using assms by (induction xs arbitrary: s) (auto simp: Option.bind_eq_Some_conv)

lemma forM_defined: "forM f xs s = Some t \<Longrightarrow> x \<in> set xs \<Longrightarrow> \<exists>u v. f x u = Some v"
  by (induction xs arbitrary: s) (auto simp: Option.bind_eq_Some_conv)

lemma forM_establishes:
  assumes "forM f xs s = Some t" and "x \<in> set xs"
    and "\<And>s t. f x s = Some t \<Longrightarrow> Q t"
    and "\<And>y s t. y \<in> set xs \<Longrightarrow> f y s = Some t \<Longrightarrow> Q s \<Longrightarrow> Q t"
  shows "Q t"
  using assms
proof (induction xs arbitrary: s)
  case (Cons z zs)
  then obtain u where u: "f z s = Some u" "forM f zs u = Some t"
    by (auto simp: Option.bind_eq_Some_conv)
  show ?case
  proof (cases "x = z")
    case True
    with u Cons.prems(3) have "Q u" by blast
    with u(2) show ?thesis by (rule forM_inv) (use Cons.prems(4) in auto)
  next
    case False
    have "x \<in> set zs" using False Cons.prems(2) by simp
    from Cons.IH [OF u(2) this Cons.prems(3)] Cons.prems(4) show ?thesis
      by (meson list.set_intros(2))
  qed
qed simp

lemma forM_total:
  assumes "P s" and "\<And>x s. x \<in> set xs \<Longrightarrow> P s \<Longrightarrow> \<exists>t. f x s = Some t \<and> P t"
  shows "\<exists>t. forM f xs s = Some t \<and> P t"
  using assms
proof (induction xs arbitrary: s)
  case (Cons x xs)
  then obtain t where "f x s = Some t" "P t" by fastforce
  with Cons show ?case by fastforce
qed simp

lemma fold_inv:
  assumes "P s" and "\<And>x s. x \<in> set xs \<Longrightarrow> P s \<Longrightarrow> P (f x s)"
  shows "P (fold f xs s)"
  using assms by (induction xs arbitrary: s) auto

section \<open>Transition systems\<close>

text \<open>
  The contract every stateful component discharges: its initial states satisfy an invariant
  and each of its steps keeps it. What follows for all reachable states is proved here once.
\<close>

locale transition_system =
  fixes init :: "'s \<Rightarrow> bool"
    and step :: "'s \<Rightarrow> 's \<Rightarrow> bool"
    and inv :: "'s \<Rightarrow> bool"
  assumes inv_init: "init s \<Longrightarrow> inv s"
    and inv_step: "inv s \<Longrightarrow> step s t \<Longrightarrow> inv t"
begin

lemma inv_steps: "step\<^sup>*\<^sup>* s t \<Longrightarrow> inv s \<Longrightarrow> inv t"
  by (induction rule: rtranclp_induct) (auto intro: inv_step)

lemma inv_reachable: "init s \<Longrightarrow> step\<^sup>*\<^sup>* s t \<Longrightarrow> inv t"
  using inv_init inv_steps by blast

end

end
