(* ===== verification/Ert_Packet.thy ===== *)
theory Ert_Packet
  imports XRT_Prelude
begin

text \<open>
  The command packets of \<^verbatim>\<open>src/runtime_src/core/include/xrt/detail/ert.h\<close>: the
  bit fields of the packet headers, the opcode, state and type enumerations, the validation of
  a packet (\<^verbatim>\<open>ert_valid_opcode\<close>), the location of the register map and of the
  instruction data inside a packet, the copy-buffer packet and the return-code word.

  A packet in memory is the sequence of 32-bit words at the packet pointer
  (\<open>pkt_words\<close>, word 0 is the header): the code casts the same pointer to the various
  packet structures. A pointer into the packet is the word offset from that pointer, and
  \<^verbatim>\<open>NULL\<close> is \<open>None\<close>. Bit fields are allocated from the least significant
  bit, as the offsets in the comments of the structures say.
\<close>

type_synonym pkt_words = "nat \<Rightarrow> u32"

section \<open>Enumerations\<close>

datatype ert_cmd_state =
    ERT_CMD_STATE_NEW | ERT_CMD_STATE_QUEUED | ERT_CMD_STATE_RUNNING
  | ERT_CMD_STATE_COMPLETED | ERT_CMD_STATE_ERROR | ERT_CMD_STATE_ABORT
  | ERT_CMD_STATE_SUBMITTED | ERT_CMD_STATE_TIMEOUT | ERT_CMD_STATE_NORESPONSE
  | ERT_CMD_STATE_SKERROR | ERT_CMD_STATE_SKCRASHED | ERT_CMD_STATE_MAX

fun state_val :: "ert_cmd_state \<Rightarrow> u32" where
  "state_val ERT_CMD_STATE_NEW = 1"
| "state_val ERT_CMD_STATE_QUEUED = 2"
| "state_val ERT_CMD_STATE_RUNNING = 3"
| "state_val ERT_CMD_STATE_COMPLETED = 4"
| "state_val ERT_CMD_STATE_ERROR = 5"
| "state_val ERT_CMD_STATE_ABORT = 6"
| "state_val ERT_CMD_STATE_SUBMITTED = 7"
| "state_val ERT_CMD_STATE_TIMEOUT = 8"
| "state_val ERT_CMD_STATE_NORESPONSE = 9"
| "state_val ERT_CMD_STATE_SKERROR = 10"
| "state_val ERT_CMD_STATE_SKCRASHED = 11"
| "state_val ERT_CMD_STATE_MAX = 12"

text \<open>\<^verbatim>\<open>ERT_START_KERNEL\<close> is an alias of \<^verbatim>\<open>ERT_START_CU\<close>.\<close>

datatype ert_cmd_opcode =
    ERT_START_CU | ERT_CONFIGURE | ERT_EXIT | ERT_ABORT | ERT_EXEC_WRITE | ERT_CU_STAT
  | ERT_START_COPYBO | ERT_SK_CONFIG | ERT_SK_START | ERT_SK_UNCONFIG | ERT_INIT_CU
  | ERT_START_FA | ERT_CLK_CALIB | ERT_MB_VALIDATE | ERT_START_KEY_VAL | ERT_ACCESS_TEST_C
  | ERT_ACCESS_TEST | ERT_START_DPU | ERT_CMD_CHAIN | ERT_START_NPU | ERT_START_NPU_PREEMPT
  | ERT_START_NPU_PREEMPT_ELF

fun opcode_val :: "ert_cmd_opcode \<Rightarrow> u32" where
  "opcode_val ERT_START_CU = 0"
| "opcode_val ERT_CONFIGURE = 2"
| "opcode_val ERT_EXIT = 3"
| "opcode_val ERT_ABORT = 4"
| "opcode_val ERT_EXEC_WRITE = 5"
| "opcode_val ERT_CU_STAT = 6"
| "opcode_val ERT_START_COPYBO = 7"
| "opcode_val ERT_SK_CONFIG = 8"
| "opcode_val ERT_SK_START = 9"
| "opcode_val ERT_SK_UNCONFIG = 10"
| "opcode_val ERT_INIT_CU = 11"
| "opcode_val ERT_START_FA = 12"
| "opcode_val ERT_CLK_CALIB = 13"
| "opcode_val ERT_MB_VALIDATE = 14"
| "opcode_val ERT_START_KEY_VAL = 15"
| "opcode_val ERT_ACCESS_TEST_C = 16"
| "opcode_val ERT_ACCESS_TEST = 17"
| "opcode_val ERT_START_DPU = 18"
| "opcode_val ERT_CMD_CHAIN = 19"
| "opcode_val ERT_START_NPU = 20"
| "opcode_val ERT_START_NPU_PREEMPT = 21"
| "opcode_val ERT_START_NPU_PREEMPT_ELF = 22"

datatype ert_cmd_type = ERT_DEFAULT | ERT_KDS_LOCAL | ERT_CTRL | ERT_CU | ERT_SCU

fun type_val :: "ert_cmd_type \<Rightarrow> u32" where
  "type_val ERT_DEFAULT = 0"
| "type_val ERT_KDS_LOCAL = 1"
| "type_val ERT_CTRL = 2"
| "type_val ERT_CU = 3"
| "type_val ERT_SCU = 4"

section \<open>Headers\<close>

text \<open>\<^verbatim>\<open>struct ert_packet\<close> and its bit fields in the header word.\<close>

record ert_packet =
  ep_state :: u32
  ep_custom :: u32
  ep_count :: u32
  ep_opcode :: u32
  ep_type :: u32

definition ert_packet_header :: "ert_packet \<Rightarrow> u32" where
  "ert_packet_header p =
     put_bits 0 4 (ep_state p) (put_bits 4 8 (ep_custom p) (put_bits 12 11 (ep_count p)
       (put_bits 23 5 (ep_opcode p) (put_bits 28 4 (ep_type p) 0))))"

definition pkt_state :: "u32 \<Rightarrow> u32" where "pkt_state h = bits 0 4 h"
definition pkt_custom :: "u32 \<Rightarrow> u32" where "pkt_custom h = bits 4 8 h"
definition pkt_count :: "u32 \<Rightarrow> u32" where "pkt_count h = bits 12 11 h"
definition pkt_opcode :: "u32 \<Rightarrow> u32" where "pkt_opcode h = bits 23 5 h"
definition pkt_type :: "u32 \<Rightarrow> u32" where "pkt_type h = bits 28 4 h"

text \<open>\<^verbatim>\<open>struct ert_start_kernel_cmd\<close>: the custom field is split further.\<close>

record ert_start_kernel_cmd =
  sk_state :: u32
  sk_stat_enabled :: u32
  sk_unused :: u32
  sk_extra_cu_masks :: u32
  sk_count :: u32
  sk_opcode :: u32
  sk_type :: u32

definition ert_start_kernel_header :: "ert_start_kernel_cmd \<Rightarrow> u32" where
  "ert_start_kernel_header p =
     put_bits 0 4 (sk_state p) (put_bits 4 1 (sk_stat_enabled p) (put_bits 5 5 (sk_unused p)
       (put_bits 10 2 (sk_extra_cu_masks p) (put_bits 12 11 (sk_count p)
         (put_bits 23 5 (sk_opcode p) (put_bits 28 4 (sk_type p) 0))))))"

definition pkt_stat_enabled :: "u32 \<Rightarrow> u32" where "pkt_stat_enabled h = bits 4 1 h"
definition pkt_extra_cu_masks :: "u32 \<Rightarrow> u32" where "pkt_extra_cu_masks h = bits 10 2 h"

lemmas pkt_field_defs = pkt_state_def pkt_custom_def pkt_count_def pkt_opcode_def pkt_type_def
  pkt_stat_enabled_def pkt_extra_cu_masks_def

text \<open>The integer values of the fields (bit fields promote to \<^verbatim>\<open>int\<close>).\<close>

abbreviation hdr_count :: "pkt_words \<Rightarrow> nat" where "hdr_count p \<equiv> unat (pkt_count (p 0))"
abbreviation hdr_extra :: "pkt_words \<Rightarrow> nat" where "hdr_extra p \<equiv> unat (pkt_extra_cu_masks (p 0))"
abbreviation hdr_opcode :: "pkt_words \<Rightarrow> u32" where "hdr_opcode p \<equiv> pkt_opcode (p 0)"

lemma hdr_count_less: "hdr_count p < 2048"
  using unat_bits_less [of 12 11 "p 0"] by (simp add: pkt_count_def)

lemma hdr_extra_less: "hdr_extra p < 4"
  using unat_bits_less [of 10 2 "p 0"] by (simp add: pkt_extra_cu_masks_def)

section \<open>Validation\<close>

text \<open>
  Sizes in words of the structures behind the payload:
  \<^verbatim>\<open>ert_dpu_data\<close> 24 bytes, \<^verbatim>\<open>ert_npu_data\<close> 16 bytes,
  \<^verbatim>\<open>ert_npu_preempt_data\<close> 40 bytes, \<^verbatim>\<open>ert_cmd_chain_data\<close> 24 bytes,
  \<^verbatim>\<open>config_sk_image\<close> 28 bytes.
\<close>

definition ert_dpu_data_words :: nat where "ert_dpu_data_words = 6"
definition ert_npu_data_words :: nat where "ert_npu_data_words = 4"
definition ert_npu_preempt_data_words :: nat where "ert_npu_preempt_data_words = 10"
definition ert_cmd_chain_data_bytes :: nat where "ert_cmd_chain_data_bytes = 24"
definition config_sk_image_bytes :: nat where "config_sk_image_bytes = 28"

lemmas pkt_size_defs = ert_dpu_data_words_def ert_npu_data_words_def
  ert_npu_preempt_data_words_def ert_cmd_chain_data_bytes_def config_sk_image_bytes_def

text \<open>
  The comparison of \<^verbatim>\<open>ERT_CONFIGURE\<close> adds a 32-bit field, so its sum wraps; the
  other sums are over bit fields or are computed in \<^verbatim>\<open>size_t\<close>.
\<close>

definition ert_valid_opcode :: "pkt_words \<Rightarrow> bool" where
  "ert_valid_opcode p =
    (let op = hdr_opcode p; count = hdr_count p; extra = hdr_extra p in
     if op = opcode_val ERT_START_CU then count \<ge> extra + 1 + 4
     else if op = opcode_val ERT_START_DPU then count \<ge> 1 + extra + ert_dpu_data_words
     else if op = opcode_val ERT_CMD_CHAIN then
       count = (unat (p 1) * 8 + ert_cmd_chain_data_bytes) div 4
     else if op = opcode_val ERT_START_NPU then count \<ge> 1 + extra + ert_npu_data_words
     else if op = opcode_val ERT_START_NPU_PREEMPT then
       count \<ge> 1 + extra + ert_npu_preempt_data_words
     else if op = opcode_val ERT_START_NPU_PREEMPT_ELF then
       count \<ge> 1 + extra + ert_npu_preempt_data_words
     else if op = opcode_val ERT_START_KEY_VAL then count \<ge> extra + 1
     else if op = opcode_val ERT_EXEC_WRITE then count \<ge> extra + 1 + 6
     else if op = opcode_val ERT_START_FA then count \<ge> extra + 1
     else if op = opcode_val ERT_SK_START then count \<ge> extra + 1 + 1
     else if op = opcode_val ERT_CONFIGURE then pkt_count (p 0) \<ge> 5 + p 2
     else if op = opcode_val ERT_START_COPYBO then count = 16
     else if op = opcode_val ERT_INIT_CU then count \<ge> extra + 9 + 4
     else if op = opcode_val ERT_SK_CONFIG then
       count = config_sk_image_bytes * unat (p 1) div 4 + 1
     else if op = opcode_val ERT_CLK_CALIB \<or> op = opcode_val ERT_MB_VALIDATE
       \<or> op = opcode_val ERT_ACCESS_TEST_C \<or> op = opcode_val ERT_CU_STAT
       \<or> op = opcode_val ERT_EXIT \<or> op = opcode_val ERT_ABORT then True
     else False)"

section \<open>Locations inside a packet\<close>

definition get_ert_packet_size_bytes :: "pkt_words \<Rightarrow> nat" where
  "get_ert_packet_size_bytes p = 4 + hdr_count p * 4"

definition get_ert_dpu_data :: "pkt_words \<Rightarrow> nat option" where
  "get_ert_dpu_data p =
     (if hdr_opcode p \<noteq> opcode_val ERT_START_DPU then None else Some (2 + hdr_extra p))"

text \<open>
  \<^verbatim>\<open>ert_dpu_data::chained\<close> is the high half of word 5 of the structure,
  \<^verbatim>\<open>instruction_prop_count\<close> its last word.
\<close>

definition dpu_chained :: "pkt_words \<Rightarrow> nat \<Rightarrow> nat" where
  "dpu_chained p d = unat (bits 16 16 (p (d + 5)))"

definition get_ert_dpu_data_next :: "pkt_words \<Rightarrow> nat \<Rightarrow> nat option" where
  "get_ert_dpu_data_next p d =
     (if dpu_chained p d = 0 then None else Some (d + ert_dpu_data_words))"

definition get_ert_cmd_chain_data :: "pkt_words \<Rightarrow> nat option" where
  "get_ert_cmd_chain_data p =
     (if hdr_opcode p \<noteq> opcode_val ERT_CMD_CHAIN then None else Some 1)"

definition get_ert_npu_data :: "pkt_words \<Rightarrow> nat option" where
  "get_ert_npu_data p =
     (if hdr_opcode p \<noteq> opcode_val ERT_START_NPU then None else Some (2 + hdr_extra p))"

definition get_ert_npu_preempt_data :: "pkt_words \<Rightarrow> nat option" where
  "get_ert_npu_preempt_data p =
     (if hdr_opcode p \<noteq> opcode_val ERT_START_NPU_PREEMPT then None else Some (2 + hdr_extra p))"

definition get_ert_npu_elf_data :: "pkt_words \<Rightarrow> nat option" where
  "get_ert_npu_elf_data p =
     (if hdr_opcode p \<noteq> opcode_val ERT_START_NPU_PREEMPT_ELF then None else Some (2 + hdr_extra p))"

definition npu_prop_count :: "pkt_words \<Rightarrow> nat \<Rightarrow> nat" where
  "npu_prop_count p d = unat (p (d + 3))"

definition npu_preempt_prop_count :: "pkt_words \<Rightarrow> nat \<Rightarrow> nat" where
  "npu_preempt_prop_count p d = unat (p (d + 9))"

text \<open>
  Each case dereferences the pointer of its own opcode, which is then not \<^verbatim>\<open>NULL\<close>.
\<close>

definition get_ert_regmap_begin :: "pkt_words \<Rightarrow> nat" where
  "get_ert_regmap_begin p =
    (let op = hdr_opcode p; data = 2 + hdr_extra p in
     if op = opcode_val ERT_START_DPU then
       (case get_ert_dpu_data p of
          Some d \<Rightarrow> data + (dpu_chained p d + 1) * ert_dpu_data_words | None \<Rightarrow> data)
     else if op = opcode_val ERT_START_NPU then
       (case get_ert_npu_data p of
          Some d \<Rightarrow> data + ert_npu_data_words + npu_prop_count p d | None \<Rightarrow> data)
     else if op = opcode_val ERT_START_NPU_PREEMPT then
       (case get_ert_npu_preempt_data p of
          Some d \<Rightarrow> data + ert_npu_preempt_data_words + npu_preempt_prop_count p d | None \<Rightarrow> data)
     else if op = opcode_val ERT_START_NPU_PREEMPT_ELF then
       (case get_ert_npu_elf_data p of
          Some d \<Rightarrow> data + ert_npu_preempt_data_words + npu_preempt_prop_count p d | None \<Rightarrow> data)
     else data)"

definition get_ert_regmap_end :: "pkt_words \<Rightarrow> nat" where
  "get_ert_regmap_end p = 1 + hdr_count p"

text \<open>The pointer difference is signed and is converted to \<^verbatim>\<open>uint64_t\<close>.\<close>

definition get_ert_regmap_size_bytes :: "pkt_words \<Rightarrow> u64" where
  "get_ert_regmap_size_bytes p =
     word_of_int (int (get_ert_regmap_end p) - int (get_ert_regmap_begin p)) * 4"

definition get_ert_ctx_health_data :: "pkt_words \<Rightarrow> nat option" where
  "get_ert_ctx_health_data p =
     (if hdr_opcode p \<in> opcode_val ` {ERT_START_CU, ERT_START_NPU, ERT_START_NPU_PREEMPT,
           ERT_START_NPU_PREEMPT_ELF}
         \<and> pkt_state (p 0) = state_val ERT_CMD_STATE_TIMEOUT
      then Some 1 else None)"

definition get_ert_ctx_health_data_v1 :: "pkt_words \<Rightarrow> nat option" where
  "get_ert_ctx_health_data_v1 p =
     (if hdr_opcode p \<in> opcode_val ` {ERT_START_CU, ERT_START_NPU, ERT_START_DPU,
           ERT_START_NPU_PREEMPT, ERT_START_NPU_PREEMPT_ELF}
         \<and> pkt_state (p 0) = state_val ERT_CMD_STATE_TIMEOUT
      then Some 1 else None)"

section \<open>Return code, timestamps\<close>

text \<open>
  \<^verbatim>\<open>ert_write_return_code\<close> and \<^verbatim>\<open>ert_read_return_code\<close> index the
  \<^verbatim>\<open>data\<close> array of the start-kernel view, which starts at word 2.
\<close>

definition return_code_idx :: "pkt_words \<Rightarrow> int" where
  "return_code_idx p = int (hdr_count p) - 1 - int (hdr_extra p)"

definition ert_write_return_code :: "pkt_words \<Rightarrow> u32 \<Rightarrow> pkt_words" where
  "ert_write_return_code p v =
     (if return_code_idx p \<ge> 0 then p(2 + nat (return_code_idx p) := v) else p)"

text \<open>The second argument is the value of the variable the macro may assign to.\<close>

definition ert_read_return_code :: "pkt_words \<Rightarrow> u32 \<Rightarrow> u32" where
  "ert_read_return_code p ret =
     (if return_code_idx p \<ge> 0 then p (2 + nat (return_code_idx p)) else ret)"

definition P2ROUNDUP :: "u64 \<Rightarrow> u64 \<Rightarrow> u64" where
  "P2ROUNDUP x align = - ((- x) AND (- align))"

text \<open>The byte offset of the timestamps behind the packet.\<close>

definition ert_start_kernel_timestamps :: "pkt_words \<Rightarrow> u64" where
  "ert_start_kernel_timestamps p = P2ROUNDUP (word_of_nat (hdr_count p * 4 + 4)) 8"

definition cu_cmd_state_timestamps_bytes :: nat where
  "cu_cmd_state_timestamps_bytes = 8 * unat (state_val ERT_CMD_STATE_MAX)"

definition get_size_with_timestamps_or_zero :: "pkt_words \<Rightarrow> nat" where
  "get_size_with_timestamps_or_zero p =
     (if hdr_opcode p \<in> opcode_val ` {ERT_START_CU, ERT_EXEC_WRITE, ERT_START_FA, ERT_SK_START}
         \<and> pkt_stat_enabled (p 0) \<noteq> 0
      then unat (ert_start_kernel_timestamps p) + cu_cmd_state_timestamps_bytes
      else 0)"

section \<open>The copy-buffer packet\<close>

record ert_start_copybo_cmd =
  cb_state :: u32
  cb_unused :: u32
  cb_extra_cu_masks :: u32
  cb_count :: u32
  cb_opcode :: u32
  cb_type :: u32
  cb_cu_mask :: "u32 list"
  cb_reserved :: "u32 list"
  cb_src_addr_lo :: u32
  cb_src_addr_hi :: u32
  cb_src_bo_hdl :: u32
  cb_dst_addr_lo :: u32
  cb_dst_addr_hi :: u32
  cb_dst_bo_hdl :: u32
  cb_size :: u32
  cb_size_hi :: u32
  cb_arg :: u64

definition ert_fill_copybo_cmd ::
  "ert_start_copybo_cmd \<Rightarrow> u32 \<Rightarrow> u32 \<Rightarrow> u64 \<Rightarrow> u64 \<Rightarrow> u32 \<Rightarrow> ert_start_copybo_cmd" where
  "ert_fill_copybo_cmd pkt src_bo dst_bo src_offset dst_offset sz =
     pkt\<lparr>cb_state := state_val ERT_CMD_STATE_NEW, cb_extra_cu_masks := 3, cb_count := 16,
       cb_opcode := opcode_val ERT_START_COPYBO, cb_type := type_val ERT_DEFAULT,
       cb_cu_mask := [0, 0, 0, 0],
       cb_src_addr_lo := ucast src_offset,
       cb_src_addr_hi := ucast (drop_bit 32 src_offset AND 0xFFFFFFFF),
       cb_src_bo_hdl := src_bo,
       cb_dst_addr_lo := ucast dst_offset,
       cb_dst_addr_hi := ucast (drop_bit 32 dst_offset AND 0xFFFFFFFF),
       cb_dst_bo_hdl := dst_bo,
       cb_size := sz, cb_size_hi := 0, cb_arg := 0\<rparr>"

definition ert_copybo_src_offset :: "ert_start_copybo_cmd \<Rightarrow> u64" where
  "ert_copybo_src_offset pkt = push_bit 32 (ucast (cb_src_addr_hi pkt)) OR ucast (cb_src_addr_lo pkt)"

definition ert_copybo_dst_offset :: "ert_start_copybo_cmd \<Rightarrow> u64" where
  "ert_copybo_dst_offset pkt = push_bit 32 (ucast (cb_dst_addr_hi pkt)) OR ucast (cb_dst_addr_lo pkt)"

definition ert_copybo_size :: "ert_start_copybo_cmd \<Rightarrow> u64" where
  "ert_copybo_size pkt = ucast (cb_size pkt)"

section \<open>Lemmas\<close>

lemma take_bit_bits [simp]: "w \<le> v \<Longrightarrow> take_bit v (bits lo w x) = bits lo w x"
  by (auto intro!: bit_word_eqI simp: bit_bits bit_simps)

definition ert_packet_of :: "u32 \<Rightarrow> ert_packet" where
  "ert_packet_of h = \<lparr>ep_state = pkt_state h, ep_custom = pkt_custom h, ep_count = pkt_count h,
     ep_opcode = pkt_opcode h, ep_type = pkt_type h\<rparr>"


lemma neg_mod_8: "(u::nat) \<le> 8 * m \<Longrightarrow> (8 * m - u) mod 8 = (8 - u mod 8) mod 8"
proof -
  assume "u \<le> 8 * m"
  define q r where "q = u div 8" and "r = u mod 8"
  have u: "u = 8 * q + r" "r < 8" by (simp_all add: q_def r_def)
  show ?thesis
  proof (cases "r = 0")
    case True
    then show ?thesis using u by (simp add: right_diff_distrib' [symmetric])
  next
    case False
    with u \<open>u \<le> 8 * m\<close> have "8 * m - u = 8 * (m - q - 1) + (8 - r)" by simp
    then have "(8 * m - u) mod 8 = (8 - r) mod 8" by (simp only: mod_mult_self4)
    with u show ?thesis by simp
  qed
qed

lemma P2ROUNDUP_8: "P2ROUNDUP x 8 = x + take_bit 3 (- x)"
proof -
  have "NOT (mask 3) = (- 8 :: u64)" by (simp add: not_eq_complement mask_eq_exp_minus_1)
  then have "(- x) AND (- 8) = - x - take_bit 3 (- x)"
    using and_not_mask [of "- x" 3] by simp
  then show ?thesis by (simp add: P2ROUNDUP_def)
qed

lemma unat_P2ROUNDUP_8:
  assumes "unat x < 2 ^ 63"
  shows "unat (P2ROUNDUP x 8) = unat x + (8 - unat x mod 8) mod 8"
proof -
  have "unat (take_bit 3 (- x)) = unat (- x) mod 8"
    unfolding unsigned_take_bit_eq by (simp add: take_bit_eq_mod)
  also have "\<dots> = (8 - unat x mod 8) mod 8"
    using neg_mod_8 [of "unat x" "2 ^ 61"] assms unat_uminus [of x]
    by (cases "x = 0") simp_all
  finally have t: "unat (take_bit 3 (- x)) = (8 - unat x mod 8) mod 8" .
  have "(8 - unat x mod 8) mod 8 < 8" by simp
  with assms have "unat x + (8 - unat x mod 8) mod 8 < 2 ^ LENGTH(64)" by simp
  then show ?thesis
    unfolding P2ROUNDUP_8 unat_word_ariths t by (rule mod_less)
qed

lemma regmap_end_bound: "get_ert_regmap_end p \<le> 2048"
  using hdr_count_less [of p] by (simp add: get_ert_regmap_end_def)

lemma regmap_begin_bound: "get_ert_regmap_begin p < 2 ^ 34"
proof -
  define d where "d = 2 + hdr_extra p"
  have 1: "dpu_chained p d < 65536"
    using unat_bits_less [of 16 16 "p (d + 5)"] by (simp add: dpu_chained_def)
  have 2: "npu_prop_count p d < 4294967296" "npu_preempt_prop_count p d < 4294967296"
    using unsigned_less [of "p (d + 3)", where ?'a = nat] unsigned_less [of "p (d + 9)", where ?'a = nat]
    by (simp_all add: npu_prop_count_def npu_preempt_prop_count_def)
  have "get_ert_regmap_begin p \<le> d + 10 +
      ((dpu_chained p d + 1) * 6 + npu_prop_count p d + npu_preempt_prop_count p d)"
    by (simp add: get_ert_regmap_begin_def Let_def d_def pkt_size_defs get_ert_dpu_data_def
        get_ert_npu_data_def get_ert_npu_preempt_data_def get_ert_npu_elf_data_def)
  with 1 2 hdr_extra_less [of p] d_def show ?thesis by simp
qed

lemma unat_neg_diff:
  assumes "b < 2 ^ 40" and "e < b"
  shows "unat (word_of_int (int e - int b) * 4 :: u64) = 2 ^ 64 - 4 * (b - e)"
proof -
  let ?w = "word_of_nat (4 * (b - e)) :: u64"
  have w: "unat ?w = 4 * (b - e)"
    by (rule unat_of_nat_small) (use assms in simp)
  with assms have "?w \<noteq> 0" by (auto simp flip: unat_eq_zero)
  moreover have "word_of_int (int e - int b) * (4 :: u64) = - ?w"
    using assms(2) by (simp add: of_nat_diff)
  ultimately show ?thesis using w unat_uminus [of ?w] by simp
qed

lemma unat_regmap_size_bytes:
  "unat (get_ert_regmap_size_bytes p) =
    (if get_ert_regmap_begin p \<le> get_ert_regmap_end p
     then 4 * (get_ert_regmap_end p - get_ert_regmap_begin p)
     else 2 ^ 64 - 4 * (get_ert_regmap_begin p - get_ert_regmap_end p))"
proof (cases "get_ert_regmap_begin p \<le> get_ert_regmap_end p")
  case True
  have "get_ert_regmap_size_bytes p =
      word_of_nat (4 * (get_ert_regmap_end p - get_ert_regmap_begin p))"
    using True by (simp add: get_ert_regmap_size_bytes_def of_nat_diff)
  moreover have "4 * (get_ert_regmap_end p - get_ert_regmap_begin p) < 2 ^ LENGTH(64)"
    using regmap_end_bound [of p] by simp
  ultimately show ?thesis using True by (simp only: unat_of_nat_small if_True)
next
  case False
  have "get_ert_regmap_begin p < 2 ^ 40"
    using regmap_begin_bound [of p] by simp
  moreover from False have "get_ert_regmap_end p < get_ert_regmap_begin p" by simp
  ultimately have "unat (get_ert_regmap_size_bytes p) =
      2 ^ 64 - 4 * (get_ert_regmap_begin p - get_ert_regmap_end p)"
    unfolding get_ert_regmap_size_bytes_def by (rule unat_neg_diff)
  with False show ?thesis by (simp only: if_False)
qed

lemma return_code_idx_nat:
  "0 \<le> return_code_idx p \<longleftrightarrow> hdr_extra p < hdr_count p"
  "2 + nat (return_code_idx p) = (if hdr_extra p < hdr_count p then 1 + hdr_count p - hdr_extra p else 2)"
proof -
  have "0 \<le> int a - 1 - int b \<longleftrightarrow> b < a" for a b by linarith
  then show "0 \<le> return_code_idx p \<longleftrightarrow> hdr_extra p < hdr_count p"
    unfolding return_code_idx_def .
  have "2 + nat (int a - 1 - int b) = (if b < a then 1 + a - b else 2)" for a b by auto
  then show "2 + nat (return_code_idx p) =
      (if hdr_extra p < hdr_count p then 1 + hdr_count p - hdr_extra p else 2)"
    unfolding return_code_idx_def .
qed

lemma return_code_word:
  "ert_write_return_code p v =
    (if hdr_extra p < hdr_count p then p(1 + hdr_count p - hdr_extra p := v) else p)"
  "ert_read_return_code p r =
    (if hdr_extra p < hdr_count p then p (1 + hdr_count p - hdr_extra p) else r)"
  unfolding ert_write_return_code_def ert_read_return_code_def return_code_idx_nat by simp_all

lemma round_up_8: "8 dvd n + (8 - n mod 8) mod (8::nat)"
proof (cases "n mod 8 = 0")
  case False
  define q r where "q = n div 8" and "r = n mod 8"
  have "r < 8" and "n = 8 * q + r" by (simp_all add: q_def r_def)
  then have "n + (8 - r) = 8 * (q + 1)" by simp
  then have "8 dvd n + (8 - n mod 8)" unfolding r_def by (metis dvd_triv_left)
  with False show ?thesis by simp
qed auto

section \<open>Properties\<close>

text \<open>
  Packing the bit fields of \<^verbatim>\<open>struct ert_packet\<close> into the header word and reading
  them back are inverse: every header word is the packing of the fields read from it, and the
  fields read from a packed header are the stored values truncated to the widths of the
  declaration.
\<close>

theorem ert_packet_header_roundtrip:
  "ert_packet_header (ert_packet_of h) = h \<and>
   ert_packet_of (ert_packet_header p) =
     \<lparr>ep_state = take_bit 4 (ep_state p), ep_custom = take_bit 8 (ep_custom p),
      ep_count = take_bit 11 (ep_count p), ep_opcode = take_bit 5 (ep_opcode p),
      ep_type = take_bit 4 (ep_type p)\<rparr>"
proof
  show "ert_packet_header (ert_packet_of h) = h"
    by (rule bit_word_eqI)
      (auto simp: ert_packet_header_def ert_packet_of_def pkt_field_defs bit_put_bits bit_bits not_less)
  show "ert_packet_of (ert_packet_header p) =
     \<lparr>ep_state = take_bit 4 (ep_state p), ep_custom = take_bit 8 (ep_custom p),
      ep_count = take_bit 11 (ep_count p), ep_opcode = take_bit 5 (ep_opcode p),
      ep_type = take_bit 4 (ep_type p)\<rparr>"
    by (simp add: ert_packet_of_def ert_packet_header_def pkt_field_defs)
qed



text \<open>
  C29: \<^verbatim>\<open>ert_valid_opcode\<close> does not bound the instruction data of the packet: whatever the
  data says, the size of the register map is the distance from its begin to the end of the
  payload when the begin lies in the payload, and wraps around to at least \<open>2^63\<close> otherwise.
  Both cases occur for packets that are accepted as valid.
\<close>

theorem regmap_size_wraps_exactly:
  "(get_ert_regmap_begin p \<le> get_ert_regmap_end p \<longleftrightarrow> unat (get_ert_regmap_size_bytes p) < 2 ^ 63) \<and>
   (\<exists>q. ert_valid_opcode q \<and> hdr_opcode q = opcode_val ERT_START_NPU \<and>
        2 ^ 63 \<le> unat (get_ert_regmap_size_bytes q))"
proof
  have b: "4 * get_ert_regmap_begin p < 2 ^ 36" for p
    using regmap_begin_bound [of p] by simp
  have e: "4 * get_ert_regmap_end p \<le> 8192" for p
    using regmap_end_bound [of p] by simp
  show "get_ert_regmap_begin p \<le> get_ert_regmap_end p \<longleftrightarrow> unat (get_ert_regmap_size_bytes p) < 2 ^ 63"
  proof (cases "get_ert_regmap_begin p \<le> get_ert_regmap_end p")
    case True
    with e [of p] show ?thesis unfolding unat_regmap_size_bytes by simp
  next
    case False
    with b [of p] have "4 * (get_ert_regmap_begin p - get_ert_regmap_end p) < 2 ^ 36" by simp
    with False show ?thesis unfolding unat_regmap_size_bytes by simp
  qed
  let ?q = "\<lambda>i. if i = 0 then 0xA005001 else if i = 5 then 100 else (0 :: u32)"
  have "ert_valid_opcode ?q" and "hdr_opcode ?q = opcode_val ERT_START_NPU"
    by code_simp+
  moreover have "get_ert_regmap_begin ?q = 106" and "get_ert_regmap_end ?q = 6"
    by code_simp+
  then have "2 ^ 63 \<le> unat (get_ert_regmap_size_bytes ?q)"
    unfolding unat_regmap_size_bytes by simp
  ultimately show "\<exists>q. ert_valid_opcode q \<and> hdr_opcode q = opcode_val ERT_START_NPU \<and>
        2 ^ 63 \<le> unat (get_ert_regmap_size_bytes q)" by blast
qed

text \<open>
  C30: A configure packet is accepted exactly when its payload holds five words and the address
  of every compute unit, or when the number of compute units is so large that the 32-bit sum
  \<^verbatim>\<open>5 + num_cus\<close> wraps around to at most the payload size.
\<close>

theorem valid_configure_exact:
  assumes "hdr_opcode p = opcode_val ERT_CONFIGURE"
  shows "ert_valid_opcode p \<longleftrightarrow>
    5 + unat (p 2) \<le> hdr_count p \<or>
    (2 ^ 32 \<le> 5 + unat (p 2) \<and> 5 + unat (p 2) - 2 ^ 32 \<le> hdr_count p)"
proof -
  have "ert_valid_opcode p \<longleftrightarrow> (5 + unat (p 2)) mod 2 ^ 32 \<le> hdr_count p"
    using assms by (simp add: ert_valid_opcode_def Let_def word_le_nat_alt unat_word_ariths)
  moreover have "unat (p 2) < 2 ^ 32"
    using unsigned_less [of "p 2", where ?'a = nat] by simp
  then have "(5 + unat (p 2)) mod 2 ^ 32 =
      (if 5 + unat (p 2) < 2 ^ 32 then 5 + unat (p 2) else 5 + unat (p 2) - 2 ^ 32)"
    by (simp add: mod_if)
  ultimately show ?thesis
    using hdr_count_less [of p] by auto
qed

theorem valid_configure_exact_witness:
  "ert_valid_opcode (\<lambda>i. if i = 0 then 0x1000001 else 0xFFFFFFFB)"
  using valid_configure_exact [of "\<lambda>i. if i = 0 then 0x1000001 else 0xFFFFFFFB"]
  by (simp add: pkt_field_defs bits_def)

text \<open>
  The return code of a soft kernel survives the packet: what the driver writes is what the
  host reads, no other word changes and the header is untouched; a malformed packet, whose
  count does not exceed its extra CU masks, is neither written nor read.
\<close>

theorem return_code_roundtrip:
  "ert_read_return_code (ert_write_return_code p v) r =
     (if hdr_extra p < hdr_count p then v else r) \<and>
   (\<forall>i. i \<noteq> 1 + hdr_count p - hdr_extra p \<or> hdr_count p \<le> hdr_extra p \<longrightarrow>
      ert_write_return_code p v i = p i) \<and>
   ert_write_return_code p v 0 = p 0"
  by (auto simp: return_code_word)

theorem return_code_roundtrip_witness:
  "ert_read_return_code (ert_write_return_code (\<lambda>_. 0x5001) 7) 0 = 7"
  using return_code_roundtrip [of "\<lambda>_. 0x5001" 7 0] by (simp add: pkt_field_defs bits_def)

text \<open>
  Where a packet records timestamps, they start at the first 8-byte boundary at or behind
  the end of the packet and the size returned covers all of them; a packet without statistics
  has size 0.
\<close>

theorem timestamps_behind_packet:
  "get_ert_packet_size_bytes p \<le> unat (ert_start_kernel_timestamps p) \<and>
   unat (ert_start_kernel_timestamps p) < get_ert_packet_size_bytes p + 8 \<and>
   8 dvd unat (ert_start_kernel_timestamps p) \<and>
   get_size_with_timestamps_or_zero p \<in> {0, unat (ert_start_kernel_timestamps p) + 96}"
proof -
  let ?n = "hdr_count p * 4 + 4"
  have n: "unat (word_of_nat ?n :: u64) = ?n"
    by (rule unat_of_nat_small) (use hdr_count_less [of p] in simp)
  have "unat (ert_start_kernel_timestamps p) = ?n + (8 - ?n mod 8) mod 8"
    unfolding ert_start_kernel_timestamps_def
    using unat_P2ROUNDUP_8 [of "word_of_nat ?n"] n hdr_count_less [of p] by simp
  moreover have "8 dvd ?n + (8 - ?n mod 8) mod 8" and "(8 - ?n mod 8) mod 8 < 8"
    using round_up_8 by simp_all
  ultimately have "?n \<le> unat (ert_start_kernel_timestamps p)"
    and "unat (ert_start_kernel_timestamps p) < ?n + 8"
    and "8 dvd unat (ert_start_kernel_timestamps p)"
    by simp_all
  then show ?thesis
    by (auto simp: get_ert_packet_size_bytes_def get_size_with_timestamps_or_zero_def
        cu_cmd_state_timestamps_bytes_def)
qed

text \<open>
  C25: The 64-bit offsets stored in the two halves of a copy-buffer packet are read back
  unchanged, together with the size, and the packet is a valid one-shot copy command.
\<close>

theorem copybo_roundtrip:
  "let q = ert_fill_copybo_cmd pkt src_bo dst_bo src dst sz in
   ert_copybo_src_offset q = src \<and> ert_copybo_dst_offset q = dst \<and> ert_copybo_size q = ucast sz \<and>
   cb_src_bo_hdl q = src_bo \<and> cb_dst_bo_hdl q = dst_bo \<and>
   (hdr_opcode p = cb_opcode q \<longrightarrow> hdr_count p = unat (cb_count q) \<longrightarrow> ert_valid_opcode p)"
proof -
  have halves: "push_bit 32 (ucast (ucast (drop_bit 32 x AND 0xFFFFFFFF) :: u32)) OR
      ucast (ucast x :: u32) = (x :: u64)" for x
  proof -
    have m: "(0xFFFFFFFF :: u64) = mask 32" by (simp add: mask_eq_exp_minus_1)
    show ?thesis unfolding m by (rule bit_word_eqI) (auto simp: bit_simps)
  qed
  show ?thesis
    by (simp add: Let_def ert_fill_copybo_cmd_def ert_copybo_src_offset_def
        ert_copybo_dst_offset_def ert_copybo_size_def halves ert_valid_opcode_def)
qed

theorem copybo_roundtrip_witness:
  "ert_valid_opcode (\<lambda>_. 0x3810001) \<and>
   ert_copybo_src_offset (ert_fill_copybo_cmd \<lparr>cb_state = 0, cb_unused = 0, cb_extra_cu_masks = 0,
     cb_count = 0, cb_opcode = 0, cb_type = 0, cb_cu_mask = [], cb_reserved = [], cb_src_addr_lo = 0,
     cb_src_addr_hi = 0, cb_src_bo_hdl = 0, cb_dst_addr_lo = 0, cb_dst_addr_hi = 0, cb_dst_bo_hdl = 0,
     cb_size = 0, cb_size_hi = 0, cb_arg = 0\<rparr> 1 2 0x123456789A 0 64) = 0x123456789A"
  using copybo_roundtrip [where pkt = "\<lparr>cb_state = 0, cb_unused = 0, cb_extra_cu_masks = 0,
     cb_count = 0, cb_opcode = 0, cb_type = 0, cb_cu_mask = [], cb_reserved = [], cb_src_addr_lo = 0,
     cb_src_addr_hi = 0, cb_src_bo_hdl = 0, cb_dst_addr_lo = 0, cb_dst_addr_hi = 0, cb_dst_bo_hdl = 0,
     cb_size = 0, cb_size_hi = 0, cb_arg = 0\<rparr>" and src_bo = 1 and dst_bo = 2 and src = "0x123456789A" and dst = 0 and sz = 64
     and p = "\<lambda>_. 0x3810001"]
  by (simp add: Let_def ert_fill_copybo_cmd_def pkt_field_defs bits_def)

end
