(* ===== verification/Ert_Scheduler.thy ===== *)
theory Ert_Scheduler
  imports Ert_Packet
begin

unbundle bit_operations_syntax

text \<open>
  The embedded scheduler firmware, \<^verbatim>\<open>src/runtime_src/ert/scheduler/scheduler.cpp\<close>, in
  its default build (no \<^verbatim>\<open>ERT_HW_EMU\<close>, no \<^verbatim>\<open>ERT_BUILD_*\<close>, no
  \<^verbatim>\<open>ERT_VERBOSE\<close>, so that assertions and debug prints are empty).

  The static variables are the fields of the record \<open>ert\<close>; a routine maps a state to a
  result and a new state. \<open>None\<close> is a run that has no defined result: an index outside
  one of the statically allocated arrays, a division by zero, a loop that never ends. The
  \<^verbatim>\<open>exit(0)\<close> of \<^verbatim>\<open>exit_mb\<close> sets \<open>exited\<close>, which ends the loop.

  The hardware is a parameter: \<open>'b\<close> is the state of everything on the bus, and the record
  \<open>hw\<close> holds what a register read and a register write do to it, the two MicroBlaze calls
  of the board support package, and the value the target computes for the C++ expression
  \<^verbatim>\<open>1 << n\<close>, which the language leaves undefined for \<^verbatim>\<open>n >= 32\<close>.
\<close>

section \<open>Hardware and firmware state\<close>

record 'b hw =
  hw_read :: "u32 \<Rightarrow> 'b \<Rightarrow> u32 \<times> 'b"
  hw_write :: "u32 \<Rightarrow> u32 \<Rightarrow> 'b \<Rightarrow> 'b"
  hw_shl1 :: "u32 \<Rightarrow> u32"
  microblaze_enable_interrupts :: "'b \<Rightarrow> 'b"
  microblaze_disable_interrupts :: "'b \<Rightarrow> 'b"

text \<open>The address constants of \<^verbatim>\<open>ert.h\<close> for the default build.\<close>

definition ERT_CQ_SIZE :: u32 where "ERT_CQ_SIZE = 0x10000"
definition ERT_CQ_BASE_ADDR :: u32 where "ERT_CQ_BASE_ADDR = 0x190000"
definition ERT_CSR_ADDR :: u32 where "ERT_CSR_ADDR = 0x180000"
definition ERT_STATUS_REGISTER_ADDR :: "u32 \<Rightarrow> u32" where
  "ERT_STATUS_REGISTER_ADDR i = ERT_CSR_ADDR + 4 * i"
definition ERT_CU_DMA_ENABLE_ADDR :: u32 where "ERT_CU_DMA_ENABLE_ADDR = ERT_CSR_ADDR + 0x18"
definition ERT_CU_DMA_REGISTER_ADDR :: "u32 \<Rightarrow> u32" where
  "ERT_CU_DMA_REGISTER_ADDR i = ERT_CSR_ADDR + 0x1C + 4 * i"
definition ERT_CQ_SLOT_SIZE_ADDR :: u32 where "ERT_CQ_SLOT_SIZE_ADDR = ERT_CSR_ADDR + 0x2C"
definition ERT_CU_OFFSET_ADDR :: u32 where "ERT_CU_OFFSET_ADDR = ERT_CSR_ADDR + 0x30"
definition ERT_CQ_NUMBER_OF_SLOTS_ADDR :: u32 where
  "ERT_CQ_NUMBER_OF_SLOTS_ADDR = ERT_CSR_ADDR + 0x34"
definition ERT_CU_BASE_ADDRESS_ADDR :: u32 where "ERT_CU_BASE_ADDRESS_ADDR = ERT_CSR_ADDR + 0x38"
definition ERT_CQ_BASE_ADDRESS_ADDR :: u32 where "ERT_CQ_BASE_ADDRESS_ADDR = ERT_CSR_ADDR + 0x3C"
definition ERT_CU_ISR_HANDLER_ENABLE_ADDR :: u32 where
  "ERT_CU_ISR_HANDLER_ENABLE_ADDR = ERT_CSR_ADDR + 0x40"
definition ERT_CU_STATUS_REGISTER_ADDR :: "u32 \<Rightarrow> u32" where
  "ERT_CU_STATUS_REGISTER_ADDR i = ERT_CSR_ADDR + 0x44 + 4 * i"
definition ERT_CQ_STATUS_ENABLE_ADDR :: u32 where "ERT_CQ_STATUS_ENABLE_ADDR = ERT_CSR_ADDR + 0x54"
definition ERT_CQ_STATUS_REGISTER_ADDR :: "u32 \<Rightarrow> u32" where
  "ERT_CQ_STATUS_REGISTER_ADDR i = ERT_CSR_ADDR + 0x58 + 4 * i"
definition ERT_NUMBER_OF_CU_ADDR :: u32 where "ERT_NUMBER_OF_CU_ADDR = ERT_CSR_ADDR + 0x68"
definition ERT_HOST_INTERRUPT_ENABLE_ADDR :: u32 where
  "ERT_HOST_INTERRUPT_ENABLE_ADDR = ERT_CSR_ADDR + 0x100"
definition ERT_CUISR_LUT_ADDR :: u32 where "ERT_CUISR_LUT_ADDR = ERT_CSR_ADDR + 0x400"
definition ERT_HLS_MODULE_IDLE :: u32 where "ERT_HLS_MODULE_IDLE = 0x1"
definition ERT_CUDMA_STATE :: u32 where "ERT_CUDMA_STATE = ERT_CSR_ADDR + 0x318"
definition ERT_CUISR_STATE :: u32 where "ERT_CUISR_STATE = ERT_CSR_ADDR + 0x328"
definition ERT_INTC_ADDR :: u32 where "ERT_INTC_ADDR = 0x41200000"
definition ERT_INTC_IPR_ADDR :: u32 where "ERT_INTC_IPR_ADDR = ERT_INTC_ADDR + 0x4"
definition ERT_INTC_IER_ADDR :: u32 where "ERT_INTC_IER_ADDR = ERT_INTC_ADDR + 0x8"
definition ERT_INTC_IAR_ADDR :: u32 where "ERT_INTC_IAR_ADDR = ERT_INTC_ADDR + 0x0C"
definition ERT_INTC_MER_ADDR :: u32 where "ERT_INTC_MER_ADDR = ERT_INTC_ADDR + 0x1C"

text \<open>Bits of the HLS control register and the handshake encoding of CU addresses.\<close>

definition AP_START :: u32 where "AP_START = 0x1"
definition AP_DONE :: u32 where "AP_DONE = 0x2"
definition AP_IDLE :: u32 where "AP_IDLE = 0x4"
definition AP_CONTINUE :: u32 where "AP_CONTINUE = 0x10"
definition CU_HANDSHAKE :: "u32 \<Rightarrow> u32" where "CU_HANDSHAKE addr = addr AND 0xFF"
definition CU_ADDR :: "u32 \<Rightarrow> u32" where "CU_ADDR addr = addr AND NOT 0xFF"
definition AP_CTRL_NONE :: u32 where "AP_CTRL_NONE = 2"

definition no_index :: u32 where "no_index = - 1"
definition max_slots :: u32 where "max_slots = 128"
definition max_cus :: u32 where "max_cus = 128"

record slot_info =
  slot_addr :: u32
  header_value :: u32
  s_opcode :: u32
  s_cu_idx :: u32
  s_regmap_addr :: u32
  s_regmap_size :: u32

record 'b ert =
  bus :: 'b
  STATUS_REGISTER_ADDR :: "u32 \<Rightarrow> u32"
  CU_DMA_REGISTER_ADDR :: "u32 \<Rightarrow> u32"
  CU_STATUS_REGISTER_ADDR :: "u32 \<Rightarrow> u32"
  CQ_STATUS_REGISTER_ADDR :: "u32 \<Rightarrow> u32"
  num_slots :: u32
  num_slot_masks :: u32
  num_cus :: u32
  num_cu_masks :: u32
  cu_base_address :: u32
  cu_addr_map :: "u32 \<Rightarrow> u32"
  cu_offset :: u32
  slot_size :: u32
  cu_dma_enabled :: u32
  cu_interrupt_enabled :: u32
  cq_status_enabled :: u32
  mb_host_interrupt_enabled :: u32
  cu_dma_52 :: u32
  cdma_enabled :: u32
  dataflow_enabled :: u32
  kds_30 :: u32
  echo :: u32
  slot_cache :: "u32 \<Rightarrow> u32"
  command_slots :: "u32 \<Rightarrow> slot_info"
  cu_slot_usage :: "u32 \<Rightarrow> u32"
  cu_usage :: "u32 \<Rightarrow> u32"
  cu_status :: "u32 \<Rightarrow> bool"
  slot_submitted :: "u32 \<Rightarrow> bool"
  cu_interrupt_mask :: "u32 \<Rightarrow> bool"
  exited :: bool

text \<open>The static initialisers; \<open>b\<close> is the state of the hardware at reset.\<close>

definition ert_boot :: "'b \<Rightarrow> 'b ert" where
  "ert_boot b = \<lparr>bus = b, STATUS_REGISTER_ADDR = (\<lambda>_. 0), CU_DMA_REGISTER_ADDR = (\<lambda>_. 0),
     CU_STATUS_REGISTER_ADDR = (\<lambda>_. 0), CQ_STATUS_REGISTER_ADDR = (\<lambda>_. 0),
     num_slots = 16, num_slot_masks = 1, num_cus = 3, num_cu_masks = 1, cu_base_address = 0,
     cu_addr_map = (\<lambda>_. 0), cu_offset = 16, slot_size = 0x1000, cu_dma_enabled = 0,
     cu_interrupt_enabled = 0, cq_status_enabled = 0, mb_host_interrupt_enabled = 0, cu_dma_52 = 0,
     cdma_enabled = 0, dataflow_enabled = 0, kds_30 = 0, echo = 0, slot_cache = (\<lambda>_. 0),
     command_slots = (\<lambda>_. \<lparr>slot_addr = 0, header_value = 0, s_opcode = 0, s_cu_idx = no_index,
       s_regmap_addr = 0, s_regmap_size = 0\<rparr>),
     cu_slot_usage = (\<lambda>_. 0), cu_usage = (\<lambda>_. 0), cu_status = (\<lambda>_. False),
     slot_submitted = (\<lambda>_. False), cu_interrupt_mask = (\<lambda>_. False), exited = False\<rparr>"

definition read_reg :: "'b hw \<Rightarrow> u32 \<Rightarrow> 'b ert \<Rightarrow> u32 \<times> 'b ert" where
  "read_reg B a s = (case hw_read B a (bus s) of (v, b) \<Rightarrow> (v, s\<lparr>bus := b\<rparr>))"

definition write_reg :: "'b hw \<Rightarrow> u32 \<Rightarrow> u32 \<Rightarrow> 'b ert \<Rightarrow> 'b ert" where
  "write_reg B a v s = s\<lparr>bus := hw_write B a v (bus s)\<rparr>"

section \<open>Header decoding and indices\<close>

definition opcode :: "u32 \<Rightarrow> u32" where "opcode h = drop_bit 23 h AND 0x1F"
definition cmd_type :: "u32 \<Rightarrow> u32" where "cmd_type h = drop_bit 28 h AND 0xF"
definition payload_size :: "u32 \<Rightarrow> u32" where "payload_size h = drop_bit 12 h AND 0x7FF"
definition cu_masks :: "u32 \<Rightarrow> u32" where "cu_masks h = 1 + (drop_bit 10 h AND 0x3)"
definition cu_section_addr :: "u32 \<Rightarrow> u32" where "cu_section_addr a = a + 4"
definition regmap_section_addr :: "u32 \<Rightarrow> u32 \<Rightarrow> u32" where
  "regmap_section_addr h a = cu_section_addr a + cu_masks h * 4"
definition regmap_size :: "u32 \<Rightarrow> u32" where "regmap_size h = payload_size h - cu_masks h"

definition cu_idx_to_addr :: "'b ert \<Rightarrow> u32 \<Rightarrow> u32 option" where
  "cu_idx_to_addr s i = map_option CU_ADDR (rd_arr max_cus (cu_addr_map s) i)"

definition cu_idx_to_ctrl :: "'b ert \<Rightarrow> u32 \<Rightarrow> u32 option" where
  "cu_idx_to_ctrl s i = map_option CU_HANDSHAKE (rd_arr max_cus (cu_addr_map s) i)"

definition idx_in_mask :: "u32 \<Rightarrow> u32 \<Rightarrow> bool" where
  "idx_in_mask idx mask_idx = (idx < push_bit 5 (mask_idx + 1))"

definition idx_to_mask :: "'b hw \<Rightarrow> u32 \<Rightarrow> u32 \<Rightarrow> u32" where
  "idx_to_mask B idx mask_idx =
     (if idx_in_mask idx mask_idx then hw_shl1 B (idx - push_bit 5 mask_idx) else 0)"

text \<open>Constructor and destructor of \<^verbatim>\<open>disable_interrupt_guard\<close>.\<close>

definition guard_ctor :: "'b hw \<Rightarrow> 'b ert \<Rightarrow> 'b ert" where
  "guard_ctor B s = (if cu_interrupt_enabled s \<noteq> 0 \<or> cq_status_enabled s \<noteq> 0
     then write_reg B ERT_INTC_MER_ADDR 0x0 s else s)"

definition guard_dtor :: "'b hw \<Rightarrow> 'b ert \<Rightarrow> 'b ert" where
  "guard_dtor B s = (if cu_interrupt_enabled s \<noteq> 0 \<or> cq_status_enabled s \<noteq> 0
     then write_reg B ERT_INTC_MER_ADDR 0x3 s else s)"

definition toggle :: "u32 \<Rightarrow> (u32 \<Rightarrow> bool) \<Rightarrow> (u32 \<Rightarrow> bool)" where
  "toggle i f = f(i := \<not> f i)"

definition upd_slot :: "u32 \<Rightarrow> (slot_info \<Rightarrow> slot_info) \<Rightarrow> 'b ert \<Rightarrow> 'b ert" where
  "upd_slot i f s = s\<lparr>command_slots := (command_slots s)(i := f (command_slots s i))\<rparr>"

text \<open>\<^verbatim>\<open>slot.header_value = (slot.header_value & ~0xF) | st\<close>\<close>

definition set_slot_status :: "u32 \<Rightarrow> slot_info \<Rightarrow> slot_info" where
  "set_slot_status st sl = sl\<lparr>header_value := (header_value sl AND NOT 0xF) OR st\<rparr>"

section \<open>Setup\<close>

definition setup_ert_base_addr :: "'b ert \<Rightarrow> 'b ert" where
  "setup_ert_base_addr s = s\<lparr>
     cu_addr_map := (\<lambda>i. if i < max_cus then AP_CTRL_NONE else cu_addr_map s i),
     STATUS_REGISTER_ADDR := ERT_STATUS_REGISTER_ADDR,
     CU_DMA_REGISTER_ADDR := ERT_CU_DMA_REGISTER_ADDR,
     CU_STATUS_REGISTER_ADDR := ERT_CU_STATUS_REGISTER_ADDR,
     CQ_STATUS_REGISTER_ADDR := ERT_CQ_STATUS_REGISTER_ADDR\<rparr>"

definition setup_num_slots :: "'b ert \<Rightarrow> u32 option" where
  "setup_num_slots s =
     (if dataflow_enabled s \<noteq> 0 \<and> kds_30 s = 0 then Some (num_cus s + 1)
      else if slot_size s = 0 then None else Some (ERT_CQ_SIZE div slot_size s))"

definition setup_slot :: "'b hw \<Rightarrow> u32 \<Rightarrow> 'b ert \<Rightarrow> 'b ert option" where
  "setup_slot B i s = do {
     _ \<leftarrow> rd_arr max_slots (command_slots s) i;
     let a = ERT_CQ_BASE_ADDR + slot_size s * i;
     let s = upd_slot i (\<lambda>sl. sl\<lparr>slot_addr := a, header_value := 0x4, s_cu_idx := no_index,
       s_regmap_addr := 0, s_regmap_size := 0\<rparr>) s;
     let s = write_reg B a 0x0 s;
     Some (s\<lparr>slot_cache := (slot_cache s)(i := 0)\<rparr>) }"

definition setup_cu_usage :: "u32 \<Rightarrow> 'b ert \<Rightarrow> 'b ert option" where
  "setup_cu_usage i s = do {
     csu \<leftarrow> wr_arr max_cus i no_index (cu_slot_usage s);
     cu \<leftarrow> wr_arr max_cus i 0 (cu_usage s);
     Some (s\<lparr>cu_slot_usage := csu, cu_usage := cu\<rparr>) }"

definition setup_lut :: "'b hw \<Rightarrow> u32 \<Rightarrow> 'b ert \<Rightarrow> 'b ert option" where
  "setup_lut B i s = do {
     a \<leftarrow> cu_idx_to_addr s i;
     Some (write_reg B (ERT_CUISR_LUT_ADDR + i * 4) (a div 4) s) }"

text \<open>The registers written between the command queue and the interrupt configuration.\<close>

definition setup_registers :: "'b hw \<Rightarrow> 'b ert \<Rightarrow> 'b ert option" where
  "setup_registers B s = do {
     let s = write_reg B ERT_CQ_SLOT_SIZE_ADDR (slot_size s div 4) s;
     let s = (if cu_dma_52 s = 0 then write_reg B ERT_CU_OFFSET_ADDR (cu_offset s) s else s);
     let s = write_reg B ERT_CQ_NUMBER_OF_SLOTS_ADDR (num_slots s) s;
     let s = (if cu_dma_52 s = 0
              then write_reg B ERT_CU_BASE_ADDRESS_ADDR (cu_base_address s div 4) s else s);
     let s = write_reg B ERT_CQ_BASE_ADDRESS_ADDR (ERT_CQ_BASE_ADDR div 4) s;
     let s = write_reg B ERT_NUMBER_OF_CU_ADDR (num_cus s) s;
     let s = write_reg B ERT_CU_DMA_ENABLE_ADDR (cu_dma_enabled s) s;
     if cu_dma_52 s \<noteq> 0 then forM (setup_lut B) (upto_u32 0 (num_cus s)) s else Some s }"

text \<open>
  One iteration of the two loops that write the interrupt registers of a CU: \<open>en\<close> is 1 in the
  loop that enables them (and records the CU in \<^verbatim>\<open>cu_interrupt_mask\<close>), 0 in the other.
\<close>

definition setup_cu_interrupt :: "'b hw \<Rightarrow> u32 \<Rightarrow> u32 \<Rightarrow> 'b ert \<Rightarrow> 'b ert option" where
  "setup_cu_interrupt B en cu s = do {
     ctrl \<leftarrow> cu_idx_to_ctrl s cu;
     if ctrl = AP_CTRL_NONE then Some s
     else do {
       a \<leftarrow> cu_idx_to_addr s cu;
       let s = write_reg B (a + 0x4) en s;
       let s = write_reg B (a + 0x8) en s;
       Some (if en = 1 then s\<lparr>cu_interrupt_mask := (cu_interrupt_mask s)(cu := True)\<rparr> else s) } }"

text \<open>The result holds the value of \<^verbatim>\<open>intc_ier_mask\<close> and \<^verbatim>\<open>enable_master_interrupts\<close>.\<close>

definition setup_cu_interrupts :: "'b hw \<Rightarrow> 'b ert \<Rightarrow> (u32 \<times> bool \<times> 'b ert) option" where
  "setup_cu_interrupts B s = do {
     let s = s\<lparr>cu_interrupt_mask := (\<lambda>_. False)\<rparr>;
     if cu_interrupt_enabled s \<noteq> 0 then do {
       s \<leftarrow> forM (setup_cu_interrupt B 1) (upto_u32 0 (num_cus s)) s;
       let s = write_reg B ERT_CU_ISR_HANDLER_ENABLE_ADDR 1 s;
       Some (if cdma_enabled s \<noteq> 0 then 0x2 OR 0x4 else 0x2, True, s) }
     else do {
       s \<leftarrow> forM (setup_cu_interrupt B 0) (upto_u32 0 (num_cus s)) s;
       let (ier, s) = read_reg B ERT_INTC_IER_ADDR s;
       let s = write_reg B ERT_INTC_IER_ADDR (ier AND NOT 0x6) s;
       Some (0, False, write_reg B ERT_CU_ISR_HANDLER_ENABLE_ADDR 0 s) } }"

definition setup_cq_status :: "'b hw \<Rightarrow> u32 \<Rightarrow> bool \<Rightarrow> 'b ert \<Rightarrow> u32 \<times> bool \<times> 'b ert" where
  "setup_cq_status B ier_mask master s =
     (if cq_status_enabled s \<noteq> 0
      then (ier_mask OR 0x1, True, write_reg B ERT_CQ_STATUS_ENABLE_ADDR 1 s)
      else (case read_reg B ERT_INTC_IER_ADDR s of (ier, s) \<Rightarrow>
        let s = write_reg B ERT_INTC_IER_ADDR (ier AND NOT 0x1) s
        in (ier_mask, master, write_reg B ERT_CQ_STATUS_ENABLE_ADDR 0 s)))"

definition setup_master :: "'b hw \<Rightarrow> u32 \<Rightarrow> bool \<Rightarrow> 'b ert \<Rightarrow> 'b ert" where
  "setup_master B ier_mask master s =
     (let s = (if master
        then let s = write_reg B ERT_INTC_IER_ADDR ier_mask s;
                 s = write_reg B ERT_INTC_MER_ADDR 0x3 s
             in s\<lparr>bus := microblaze_enable_interrupts B (bus s)\<rparr>
        else (case read_reg B ERT_INTC_MER_ADDR s of (mer, s) \<Rightarrow>
               let s = write_reg B ERT_INTC_MER_ADDR (mer AND NOT 0x3) s
               in s\<lparr>bus := microblaze_disable_interrupts B (bus s)\<rparr>))
      in write_reg B ERT_HOST_INTERRUPT_ENABLE_ADDR (mb_host_interrupt_enabled s) s)"

definition ert_setup :: "'b hw \<Rightarrow> 'b ert \<Rightarrow> 'b ert option" where
  "ert_setup B s = do {
     n \<leftarrow> setup_num_slots s;
     let s = s\<lparr>num_slots := n, num_slot_masks := drop_bit 5 (n - 1) + 1,
               num_cu_masks := drop_bit 5 (num_cus s - 1) + 1\<rparr>;
     s \<leftarrow> forM (setup_slot B) (upto_u32 0 (num_slots s)) s;
     let s = fold (\<lambda>i s. snd (read_reg B (STATUS_REGISTER_ADDR s i) s)) [0, 1, 2, 3] s;
     let s = s\<lparr>cu_status := (\<lambda>_. False), slot_submitted := (\<lambda>_. False)\<rparr>;
     s \<leftarrow> forM setup_cu_usage (upto_u32 0 (num_cus s)) s;
     s \<leftarrow> setup_registers B s;
     (ier_mask, master, s) \<leftarrow> setup_cu_interrupts B s;
     let (ier_mask, master, s) = setup_cq_status B ier_mask master s;
     Some (setup_master B ier_mask master s) }"

section \<open>Starting and completing commands\<close>

definition set_cu_info :: "u32 \<Rightarrow> u32 \<Rightarrow> 'b ert \<Rightarrow> 'b ert option" where
  "set_cu_info cu_idx slot_idx s = do {
     csu \<leftarrow> wr_arr max_cus cu_idx slot_idx (cu_slot_usage s);
     cu \<leftarrow> wr_arr max_cus cu_idx (cu_usage s cu_idx + 1) (cu_usage s);
     Some (s\<lparr>cu_slot_usage := csu, cu_usage := cu\<rparr>) }"

definition notify_host :: "'b hw \<Rightarrow> u32 \<Rightarrow> 'b ert \<Rightarrow> 'b ert option" where
  "notify_host B cmd_idx s = do {
     a \<leftarrow> rd_arr 4 (STATUS_REGISTER_ADDR s) (drop_bit 5 cmd_idx);
     Some (write_reg B a (hw_shl1 B cmd_idx) s) }"

definition configure_cu :: "'b hw \<Rightarrow> u32 \<Rightarrow> u32 \<Rightarrow> u32 \<Rightarrow> 'b ert \<Rightarrow> 'b ert" where
  "configure_cu B cu_addr regmap_addr n s =
     write_reg B cu_addr 0x1
       (fold (\<lambda>idx s. case read_reg B (regmap_addr + push_bit 2 idx) s of
                (v, s) \<Rightarrow> write_reg B (cu_addr + push_bit 2 idx) v s) (upto_u32 4 n) s)"

text \<open>
  The loop steps its index by two, so for an odd bound of \<open>2^32 - 1\<close> it never leaves the
  loop.
\<close>

partial_function (option) configure_cu_ooo_loop ::
  "'b hw \<Rightarrow> u32 \<Rightarrow> u32 \<Rightarrow> u32 \<Rightarrow> u32 \<Rightarrow> 'b ert \<Rightarrow> 'b ert option" where
  "configure_cu_ooo_loop B cu_addr regmap_addr n idx s =
     (if idx < n then
        case read_reg B (regmap_addr + push_bit 2 idx) s of (off, s) \<Rightarrow>
        case read_reg B (regmap_addr + push_bit 2 (idx + 1)) s of (v, s) \<Rightarrow>
        configure_cu_ooo_loop B cu_addr regmap_addr n (idx + 2) (write_reg B (cu_addr + off) v s)
      else Some s)"

declare configure_cu_ooo_loop.simps [code]

definition configure_cu_ooo :: "'b hw \<Rightarrow> u32 \<Rightarrow> u32 \<Rightarrow> u32 \<Rightarrow> 'b ert \<Rightarrow> 'b ert option" where
  "configure_cu_ooo B cu_addr regmap_addr n s =
     map_option (write_reg B cu_addr 0x1) (configure_cu_ooo_loop B cu_addr regmap_addr n 0 s)"

definition configure_cu_dma :: "'b hw \<Rightarrow> u32 \<Rightarrow> u32 \<Rightarrow> u32 \<Rightarrow> 'b ert \<Rightarrow> 'b ert option" where
  "configure_cu_dma B cu_idx slot_idx a s = do {
     s \<leftarrow> (if cu_dma_52 s \<noteq> 0
          then do { ca \<leftarrow> cu_idx_to_addr s cu_idx;
                    Some (write_reg B (cu_section_addr a) (drop_bit 2 ca) s) }
          else Some (fold (\<lambda>m s. write_reg B (cu_section_addr a + push_bit 2 m)
                                   (idx_to_mask B cu_idx m) s) (upto_u32 0 (num_cu_masks s)) s));
     let m = drop_bit 5 slot_idx;
     r \<leftarrow> rd_arr 4 (CU_DMA_REGISTER_ADDR s) m;
     Some (write_reg B r (idx_to_mask B slot_idx m) s) }"

definition start_cu_configure :: "'b hw \<Rightarrow> u32 \<Rightarrow> slot_info \<Rightarrow> u32 \<Rightarrow> 'b ert \<Rightarrow> 'b ert option" where
  "start_cu_configure B slot_idx slot ca s =
     (if s_opcode slot = opcode_val ERT_EXEC_WRITE
      then configure_cu_ooo B ca (s_regmap_addr slot) (s_regmap_size slot) s
      else if cu_dma_enabled s \<noteq> 0 \<and> (cu_dma_52 s \<noteq> 0 \<or> regmap_size (header_value slot) < 127 + 4)
      then configure_cu_dma B (s_cu_idx slot) slot_idx (slot_addr slot) s
      else Some (configure_cu B ca (s_regmap_addr slot) (s_regmap_size slot) s))"

definition start_cu :: "'b hw \<Rightarrow> u32 \<Rightarrow> 'b ert \<Rightarrow> (u32 \<times> 'b ert) option" where
  "start_cu B slot_idx s = do {
     slot \<leftarrow> rd_arr max_slots (command_slots s) slot_idx;
     let cu_idx = s_cu_idx slot;
     busy \<leftarrow> rd_arr max_cus (cu_status s) cu_idx;
     if busy then Some (no_index, s)
     else do {
       ca \<leftarrow> cu_idx_to_addr s cu_idx;
       s \<leftarrow> start_cu_configure B slot_idx slot ca s;
       let s = s\<lparr>cu_status := toggle cu_idx (cu_status s)\<rparr>;
       s \<leftarrow> set_cu_info cu_idx slot_idx s;
       Some (cu_idx, s) } }"

definition check_command :: "'b hw \<Rightarrow> u32 \<Rightarrow> u32 \<Rightarrow> 'b ert \<Rightarrow> 'b ert option" where
  "check_command B slot_idx cu_idx s = do {
     _ \<leftarrow> rd_arr max_slots (command_slots s) slot_idx;
     s \<leftarrow> notify_host B slot_idx s;
     Some (upd_slot slot_idx (set_slot_status 0x4) s) }"

definition check_cu :: "'b hw \<Rightarrow> u32 \<Rightarrow> 'b ert \<Rightarrow> (bool \<times> 'b ert) option" where
  "check_cu B cu_idx s = do {
     im \<leftarrow> rd_arr max_cus (cu_interrupt_mask s) cu_idx;
     if im then Some (False, s)
     else do {
       ca \<leftarrow> cu_idx_to_addr s cu_idx;
       let (v, s) = read_reg B ca s;
       if v AND AP_DONE = 0 then Some (False, s)
       else Some (True, s\<lparr>cu_status := toggle cu_idx (cu_status s),
                         cu_slot_usage := (cu_slot_usage s)(cu_idx := no_index)\<rparr>) } }"

section \<open>Control commands\<close>

definition read_cu_addr :: "'b hw \<Rightarrow> u32 \<Rightarrow> u32 \<Rightarrow> 'b ert \<Rightarrow> 'b ert option" where
  "read_cu_addr B a i s = do {
     let (v, s) = read_reg B (a + 0x18 + push_bit 2 i) s;
     m \<leftarrow> wr_arr max_cus i v (cu_addr_map s);
     Some (s\<lparr>cu_addr_map := m\<rparr>) }"

definition set_features :: "u32 \<Rightarrow> 'b ert \<Rightarrow> 'b ert" where
  "set_features f s = s\<lparr>
     mb_host_interrupt_enabled := of_bool (f AND 0x2 = 0),
     cu_dma_enabled := of_bool (f AND 0x4 \<noteq> 0),
     cu_interrupt_enabled := of_bool (f AND 0x8 \<noteq> 0),
     cq_status_enabled := of_bool (f AND 0x10 \<noteq> 0),
     cdma_enabled := of_bool (f AND 0x20 \<noteq> 0),
     dataflow_enabled := of_bool (f AND 0x40 \<noteq> 0),
     kds_30 := of_bool (f AND 0x100 \<noteq> 0),
     echo := of_bool (f AND 0x400 \<noteq> 0),
     cu_dma_52 := of_bool (f AND 0x80000000 \<noteq> 0)\<rparr>"

definition configure_mb :: "'b hw \<Rightarrow> u32 \<Rightarrow> 'b ert \<Rightarrow> (bool \<times> 'b ert) option" where
  "configure_mb B slot_idx s = do {
     slot \<leftarrow> rd_arr max_slots (command_slots s) slot_idx;
     let a = slot_addr slot;
     let (v, s) = read_reg B (a + 0x4) s;
     let s = s\<lparr>slot_size := v\<rparr>;
     let (v, s) = read_reg B (a + 0x8) s;
     let s = s\<lparr>num_cus := v\<rparr>;
     let (v, s) = read_reg B (a + 0xC) s;
     let s = s\<lparr>cu_offset := v\<rparr>;
     let (v, s) = read_reg B (a + 0x10) s;
     let s = s\<lparr>cu_base_address := v\<rparr>;
     let (f, s) = read_reg B (a + 0x14) s;
     let s = set_features f s;
     s \<leftarrow> forM (read_cu_addr B a) (upto_u32 0 (num_cus s)) s;
     s \<leftarrow> ert_setup B s;
     s \<leftarrow> notify_host B slot_idx s;
     Some (True, upd_slot slot_idx (set_slot_status 0x4) s) }"

text \<open>The polling loop of \<^verbatim>\<open>exit_mb\<close>.\<close>

partial_function (option) exit_poll :: "'b hw \<Rightarrow> u32 \<Rightarrow> u32 \<Rightarrow> 'b ert \<Rightarrow> 'b ert option" where
  "exit_poll B dma isr s =
     (if dma \<noteq> ERT_HLS_MODULE_IDLE \<and> isr \<noteq> ERT_HLS_MODULE_IDLE then
        case read_reg B ERT_CUDMA_STATE s of (dma, s) \<Rightarrow>
        case read_reg B ERT_CUISR_STATE s of (isr, s) \<Rightarrow> exit_poll B dma isr s
      else Some s)"

declare exit_poll.simps [code]

definition exit_mb :: "'b hw \<Rightarrow> u32 \<Rightarrow> 'b ert \<Rightarrow> (bool \<times> 'b ert) option" where
  "exit_mb B slot_idx s = do {
     _ \<leftarrow> rd_arr max_slots (command_slots s) slot_idx;
     let s = s\<lparr>cu_dma_enabled := 0\<rparr>;
     let s = write_reg B ERT_CU_DMA_ENABLE_ADDR (cu_dma_enabled s) s;
     let s = s\<lparr>cu_interrupt_enabled := 0\<rparr>;
     let s = write_reg B ERT_CU_ISR_HANDLER_ENABLE_ADDR 0 s;
     let (dma, s) = read_reg B ERT_CUDMA_STATE s;
     let (isr, s) = read_reg B ERT_CUISR_STATE s;
     s \<leftarrow> exit_poll B dma isr s;
     let s = upd_slot slot_idx (set_slot_status 0x4) s;
     let s = write_reg B (slot_addr (command_slots s slot_idx))
               (header_value (command_slots s slot_idx)) s;
     Some (True, s\<lparr>exited := True\<rparr>) }"

text \<open>
  One iteration of the three reporting loops of \<^verbatim>\<open>cu_stat\<close>, which stop when the packet is
  full; \<open>get\<close> reads the reported value.
\<close>

definition stat_word :: "'b hw \<Rightarrow> u32 \<Rightarrow> u32 \<Rightarrow> ('b ert \<Rightarrow> u32 \<Rightarrow> u32 option) \<Rightarrow>
  u32 \<Rightarrow> u32 \<times> 'b ert \<Rightarrow> (u32 \<times> 'b ert) option" where
  "stat_word B a max_idx get i = (\<lambda>(pkt_idx, s).
     if pkt_idx < max_idx then do {
       v \<leftarrow> get s i;
       Some (pkt_idx + 1, write_reg B (a + push_bit 2 pkt_idx) v s) }
     else Some (pkt_idx, s))"

definition cu_stat :: "'b hw \<Rightarrow> u32 \<Rightarrow> u32 \<Rightarrow> 'b ert \<Rightarrow> (bool \<times> 'b ert) option" where
  "cu_stat B version slot_idx s = do {
     slot \<leftarrow> rd_arr max_slots (command_slots s) slot_idx;
     let a = slot_addr slot;
     let max_idx = drop_bit 2 (slot_size s);
     let s = write_reg B (a + push_bit 2 1) 0x51a10000 s;
     let s = write_reg B (a + push_bit 2 2) version s;
     let s = write_reg B (a + push_bit 2 3) (num_slots s) s;
     let s = write_reg B (a + push_bit 2 4) (num_cus s) s;
     ps \<leftarrow> forM (stat_word B a max_idx (\<lambda>s. rd_arr max_cus (cu_usage s))) (upto_u32 0 (num_cus s)) (5, s);
     ps \<leftarrow> forM (stat_word B a max_idx (\<lambda>s i. map_option of_bool (rd_arr max_cus (cu_status s) i)))
            (upto_u32 0 (num_cus s)) ps;
     (_, s) \<leftarrow> forM (stat_word B a max_idx
                (\<lambda>s i. map_option (\<lambda>sl. header_value sl AND 0xF) (rd_arr max_slots (command_slots s) i)))
            (upto_u32 0 (num_slots s)) ps;
     s \<leftarrow> notify_host B slot_idx s;
     Some (True, upd_slot slot_idx (set_slot_status 0x4) s) }"

definition abort_target :: "u32 \<Rightarrow> u32" where
  "abort_target h = drop_bit 15 h AND 0xFF"

definition abort_mb :: "'b hw \<Rightarrow> u32 \<Rightarrow> 'b ert \<Rightarrow> (bool \<times> 'b ert) option" where
  "abort_mb B slot_idx s = do {
     let s = guard_ctor B s;
     slot \<leftarrow> rd_arr max_slots (command_slots s) slot_idx;
     let sidx = abort_target (header_value slot);
     sl \<leftarrow> rd_arr max_slots (command_slots s) sidx;
     if opcode (header_value sl) \<noteq> opcode_val ERT_START_CU then Some (True, guard_dtor B s)
     else if header_value sl AND 0xF \<noteq> 0x3 then Some (True, guard_dtor B s)
     else do {
       let cu_idx = s_cu_idx sl;
       s \<leftarrow> check_command B sidx cu_idx s;
       csu \<leftarrow> wr_arr max_cus cu_idx no_index (cu_slot_usage s);
       let s = s\<lparr>cu_slot_usage := csu, cu_status := toggle cu_idx (cu_status s)\<rparr>;
       s \<leftarrow> notify_host B slot_idx s;
       Some (True, guard_dtor B s) } }"

text \<open>\<open>version\<close> is the build-time constant \<^verbatim>\<open>ERT_VERSION\<close>.\<close>

definition process_special_command ::
  "'b hw \<Rightarrow> u32 \<Rightarrow> u32 \<Rightarrow> u32 \<Rightarrow> 'b ert \<Rightarrow> (bool \<times> 'b ert) option" where
  "process_special_command B version opc slot_idx s =
     (if opc = opcode_val ERT_CONFIGURE then configure_mb B slot_idx s
      else if opc = opcode_val ERT_CU_STAT then cu_stat B version slot_idx s
      else if opc = opcode_val ERT_EXIT then exit_mb B slot_idx s
      else if opc = opcode_val ERT_ABORT then abort_mb B slot_idx s
      else Some (False, s))"

section \<open>The slot state machine\<close>

definition slot_status :: "'b ert \<Rightarrow> u32 \<Rightarrow> u32" where
  "slot_status s i = header_value (command_slots s i) AND 0xF"

definition free_to_new :: "'b hw \<Rightarrow> u32 \<Rightarrow> 'b ert \<Rightarrow> (bool \<times> 'b ert) option" where
  "free_to_new B slot_idx s = do {
     slot \<leftarrow> rd_arr max_slots (command_slots s) slot_idx;
     let (header, s) = read_reg B (slot_addr slot) s;
     if header AND 0xF = 0x1 then do {
       let s = write_reg B (slot_addr slot) (header OR 0xF) s;
       Some (True, upd_slot slot_idx (\<lambda>sl. sl\<lparr>header_value := header\<rparr>) s) }
     else Some (False, s) }"

definition new_to_queued :: "'b hw \<Rightarrow> u32 \<Rightarrow> u32 \<Rightarrow> 'b ert \<Rightarrow> (bool \<times> 'b ert) option" where
  "new_to_queued B version slot_idx s = do {
     slot \<leftarrow> rd_arr max_slots (command_slots s) slot_idx;
     let h = header_value slot;
     let s = upd_slot slot_idx (\<lambda>sl. sl\<lparr>s_opcode := opcode h\<rparr>) s;
     if cmd_type h \<noteq> type_val ERT_CU then do {
       (_, s) \<leftarrow> process_special_command B version (opcode h) slot_idx s;
       Some (False, s) }
     else do {
       let (cu, s) = read_reg B (cu_section_addr (slot_addr slot)) s;
       Some (True, upd_slot slot_idx (\<lambda>sl. set_slot_status 0x2
         (sl\<lparr>s_cu_idx := cu, s_regmap_addr := regmap_section_addr h (slot_addr slot),
             s_regmap_size := regmap_size h\<rparr>)) s) } }"

definition queued_to_running :: "'b hw \<Rightarrow> u32 \<Rightarrow> 'b ert \<Rightarrow> (bool \<times> 'b ert) option" where
  "queued_to_running B slot_idx s = do {
     _ \<leftarrow> rd_arr max_slots (command_slots s) slot_idx;
     let s = guard_ctor B s;
     (cu, s) \<leftarrow> start_cu B slot_idx s;
     if cu = no_index then Some (False, guard_dtor B s)
     else Some (True, guard_dtor B (upd_slot slot_idx (\<lambda>sl. sl\<lparr>header_value := header_value sl OR 0x1\<rparr>) s)) }"

definition running_to_free :: "'b hw \<Rightarrow> u32 \<Rightarrow> 'b ert \<Rightarrow> (bool \<times> 'b ert) option" where
  "running_to_free B slot_idx s = do {
     slot \<leftarrow> rd_arr max_slots (command_slots s) slot_idx;
     (done, s) \<leftarrow> check_cu B (s_cu_idx slot) s;
     if \<not> done then Some (False, s)
     else do {
       s \<leftarrow> notify_host B slot_idx s;
       Some (True, upd_slot slot_idx (set_slot_status 0x4) s) } }"

section \<open>Dataflow mode\<close>

definition command_queue_fetch :: "'b hw \<Rightarrow> u32 \<Rightarrow> 'b ert \<Rightarrow> 'b ert option" where
  "command_queue_fetch B slot_idx s = do {
     slot \<leftarrow> rd_arr max_slots (command_slots s) slot_idx;
     let a = slot_addr slot;
     let (val, s) = read_reg B a s;
     let (val, s) = (if val \<noteq> 0 then read_reg B a s else (val, s));
     if val AND AP_START \<noteq> 0 then do {
       let s = write_reg B a 0x0 s;
       if echo s \<noteq> 0 then notify_host B slot_idx s
       else do {
         let s = s\<lparr>slot_cache := (slot_cache s)(slot_idx := val)\<rparr>;
         let (cu, s) = read_reg B (cu_section_addr a) s;
         Some (upd_slot slot_idx (\<lambda>sl. sl\<lparr>s_cu_idx := cu, s_opcode := opcode val, header_value := val,
           s_regmap_addr := regmap_section_addr val a, s_regmap_size := regmap_size val\<rparr>) s) } }
     else Some s }"

definition cu_state_check :: "'b hw \<Rightarrow> u32 \<Rightarrow> 'b ert \<Rightarrow> 'b ert option" where
  "cu_state_check B slot_idx s = do {
     slot \<leftarrow> rd_arr max_slots (command_slots s) slot_idx;
     let cu = s_cu_idx slot;
     ca \<leftarrow> cu_idx_to_addr s cu;
     let (cuvalue, s) = read_reg B ca s;
     busy \<leftarrow> rd_arr max_cus (cu_status s) cu;
     if busy \<and> cuvalue AND AP_DONE \<noteq> 0 then do {
       cu_slot \<leftarrow> rd_arr max_cus (cu_slot_usage s) cu;
       let s = write_reg B ca AP_CONTINUE s;
       s \<leftarrow> notify_host B cu_slot s;
       let s = s\<lparr>cu_status := toggle cu (cu_status s)\<rparr>;
       sc \<leftarrow> wr_arr max_slots cu_slot 0 (slot_cache s);
       Some (s\<lparr>slot_cache := sc\<rparr>) }
     else Some s }"

definition cu_execution :: "'b hw \<Rightarrow> u32 \<Rightarrow> 'b ert \<Rightarrow> 'b ert option" where
  "cu_execution B slot_idx s = do {
     slot \<leftarrow> rd_arr max_slots (command_slots s) slot_idx;
     let cu = s_cu_idx slot;
     busy \<leftarrow> rd_arr max_cus (cu_status s) cu;
     sc \<leftarrow> rd_arr max_slots (slot_cache s) slot_idx;
     if \<not> busy \<and> sc AND AP_START \<noteq> 0 then do {
       ca \<leftarrow> cu_idx_to_addr s cu;
       s \<leftarrow> (if s_opcode slot = opcode_val ERT_EXEC_WRITE
            then configure_cu_ooo B ca (s_regmap_addr slot) (s_regmap_size slot) s
            else Some (configure_cu B ca (s_regmap_addr slot) (s_regmap_size slot) s));
       let s = s\<lparr>cu_status := toggle cu (cu_status s)\<rparr>;
       set_cu_info cu slot_idx s }
     else Some s }"

text \<open>The two dataflow branches of the loop body.\<close>

definition dataflow_slot :: "'b hw \<Rightarrow> u32 \<Rightarrow> 'b ert \<Rightarrow> 'b ert option" where
  "dataflow_slot B slot_idx s = do {
     slot \<leftarrow> rd_arr max_slots (command_slots s) slot_idx;
     let cuidx = slot_idx - 1;
     busy \<leftarrow> rd_arr max_cus (cu_status s) cuidx;
     let s = (if busy then s
              else case read_reg B (slot_addr slot) s of (cqvalue, s) \<Rightarrow>
                if cqvalue AND (AP_START OR AP_CONTINUE) \<noteq> 0
                then (write_reg B (slot_addr slot) 0x0 s)\<lparr>cu_status := toggle cuidx (cu_status s)\<rparr>
                else s);
     if \<not> cu_status s cuidx then Some s
     else do {
       ca \<leftarrow> cu_idx_to_addr s cuidx;
       let (cuvalue, s) = read_reg B ca s;
       if cuvalue AND (AP_DONE OR AP_IDLE) = 0 then Some s
       else notify_host B slot_idx (s\<lparr>cu_status := toggle cuidx (cu_status s)\<rparr>) } }"

definition dataflow_kds30_slot :: "'b hw \<Rightarrow> u32 \<Rightarrow> 'b ert \<Rightarrow> 'b ert option" where
  "dataflow_kds30_slot B slot_idx s = do {
     sc \<leftarrow> rd_arr max_slots (slot_cache s) slot_idx;
     s \<leftarrow> (if sc = 0 then command_queue_fetch B slot_idx s else Some s);
     if slot_cache s slot_idx = 0 then Some s
     else do { s \<leftarrow> cu_state_check B slot_idx s; cu_execution B slot_idx s } }"

section \<open>The scheduler loop\<close>

text \<open>
  The four guarded steps of the loop body in normal mode; a result \<open>False\<close> is the
  \<^verbatim>\<open>continue\<close>.
\<close>

definition phase_free :: "'b hw \<Rightarrow> u32 \<Rightarrow> 'b ert \<Rightarrow> (bool \<times> 'b ert) option" where
  "phase_free B i s = (if cq_status_enabled s = 0 \<and> slot_status s i = 0x4
     then free_to_new B i s else Some (True, s))"

definition phase_new :: "'b hw \<Rightarrow> u32 \<Rightarrow> u32 \<Rightarrow> 'b ert \<Rightarrow> (bool \<times> 'b ert) option" where
  "phase_new B version i s = (if slot_status s i = 0x1
     then new_to_queued B version i s else Some (True, s))"

definition phase_queued :: "'b hw \<Rightarrow> u32 \<Rightarrow> 'b ert \<Rightarrow> (bool \<times> 'b ert) option" where
  "phase_queued B i s = (if slot_status s i = 0x2
     then queued_to_running B i s else Some (True, s))"

definition phase_running :: "'b hw \<Rightarrow> u32 \<Rightarrow> 'b ert \<Rightarrow> (bool \<times> 'b ert) option" where
  "phase_running B i s = (if cu_interrupt_enabled s = 0 \<and> slot_status s i = 0x3
     then running_to_free B i s else Some (True, s))"

definition normal_slot :: "'b hw \<Rightarrow> u32 \<Rightarrow> u32 \<Rightarrow> 'b ert \<Rightarrow> 'b ert option" where
  "normal_slot B version i s = do {
     (go, s) \<leftarrow> phase_free B i s;
     if \<not> go then Some s else do {
       (go, s) \<leftarrow> phase_new B version i s;
       if \<not> go then Some s else do {
         (go, s) \<leftarrow> phase_queued B i s;
         if \<not> go then Some s else do {
           (_, s) \<leftarrow> phase_running B i s;
           Some s } } } }"

definition scheduler_slot :: "'b hw \<Rightarrow> u32 \<Rightarrow> u32 \<Rightarrow> 'b ert \<Rightarrow> 'b ert option" where
  "scheduler_slot B version i s = do {
     _ \<leftarrow> rd_arr max_slots (command_slots s) i;
     if dataflow_enabled s \<noteq> 0 \<and> i > 0 \<and> kds_30 s = 0 then dataflow_slot B i s
     else if dataflow_enabled s \<noteq> 0 \<and> i > 0 \<and> kds_30 s \<noteq> 0 then dataflow_kds30_slot B i s
     else normal_slot B version i s }"

text \<open>
  One pass of the inner loop from slot \<open>i\<close>; the bound is read again in every iteration, since
  a configure command changes it.
\<close>

function scheduler_from :: "'b hw \<Rightarrow> u32 \<Rightarrow> u32 \<Rightarrow> 'b ert \<Rightarrow> 'b ert option" where
  "scheduler_from B version i s =
     (if \<not> exited s \<and> i < num_slots s
      then (case scheduler_slot B version i s of
              None \<Rightarrow> None | Some s \<Rightarrow> scheduler_from B version (i + 1) s)
      else Some s)"
  by pat_completeness auto
termination
proof (relation "measure (\<lambda>(B, version, i, s). 2 ^ 32 - unat i)")
  fix B :: "'b hw" and version i :: u32 and s s' :: "'b ert"
  assume "\<not> exited s \<and> i < num_slots s"
  then have "unat (i + 1) = unat i + 1" and "unat i < 2 ^ 32"
    using unat_Suc_less [of i "num_slots s"] unsigned_less [of i, where ?'a = nat] by simp_all
  then show "((B, version, i + 1, s'), B, version, i, s)
      \<in> measure (\<lambda>(B, version, i, s). 2 ^ 32 - unat i)" by simp
qed simp

declare scheduler_from.simps [simp del]

text \<open>The loop \<^verbatim>\<open>while (1)\<close>, for a given number of passes.\<close>

fun scheduler_passes :: "'b hw \<Rightarrow> u32 \<Rightarrow> nat \<Rightarrow> 'b ert \<Rightarrow> 'b ert option" where
  "scheduler_passes B version 0 s = Some s"
| "scheduler_passes B version (Suc n) s =
     Option.bind (scheduler_from B version 0 s) (scheduler_passes B version n)"

definition scheduler_loop :: "'b hw \<Rightarrow> u32 \<Rightarrow> nat \<Rightarrow> 'b ert \<Rightarrow> 'b ert option" where
  "scheduler_loop B version n s =
     Option.bind (ert_setup B (setup_ert_base_addr s)) (scheduler_passes B version n)"

section \<open>The interrupt handler\<close>

text \<open>A CU that completed: the body of the inner loop of the handler.\<close>

definition isr_cu :: "'b hw \<Rightarrow> u32 \<Rightarrow> 'b ert \<Rightarrow> 'b ert option" where
  "isr_cu B cu_idx s = do {
     im \<leftarrow> rd_arr max_cus (cu_interrupt_mask s) cu_idx;
     if im then do {
       sl \<leftarrow> rd_arr max_cus (cu_slot_usage s) cu_idx;
       s \<leftarrow> check_command B sl cu_idx s;
       Some (s\<lparr>cu_slot_usage := (cu_slot_usage s)(cu_idx := no_index),
               cu_status := toggle cu_idx (cu_status s)\<rparr>) }
     else Some s }"

text \<open>The bits of a mask register, lowest first, as the loops that shift the mask visit them.\<close>

definition for_bits :: "(u32 \<Rightarrow> 's \<Rightarrow> 's option) \<Rightarrow> u32 \<Rightarrow> u32 \<Rightarrow> 's \<Rightarrow> 's option" where
  "for_bits f m offset = forM (\<lambda>k. f (offset + word_of_nat k)) (filter (bit m) [0..<32])"

definition isr_cus :: "'b hw \<Rightarrow> u32 \<Rightarrow> 'b ert \<Rightarrow> 'b ert option" where
  "isr_cus B w s = do {
     a \<leftarrow> rd_arr 4 (CU_STATUS_REGISTER_ADDR s) w;
     let (m, s) = read_reg B a s;
     for_bits (isr_cu B) m (32 * w) s }"

definition isr_slots :: "'b hw \<Rightarrow> u32 \<Rightarrow> 'b ert \<Rightarrow> 'b ert option" where
  "isr_slots B w s = do {
     a \<leftarrow> rd_arr 4 (CQ_STATUS_REGISTER_ADDR s) w;
     let (m, s) = read_reg B a s;
     for_bits (\<lambda>i s. map_option snd (free_to_new B i s)) m (32 * w) s }"

definition isr_cdma :: "'b hw \<Rightarrow> 'b ert \<Rightarrow> 'b ert option" where
  "isr_cdma B s = do {
     let cu_idx = num_cus s - 1;
     sl \<leftarrow> rd_arr max_cus (cu_slot_usage s) cu_idx;
     s \<leftarrow> check_command B sl cu_idx s;
     let s = s\<lparr>cu_slot_usage := (cu_slot_usage s)(cu_idx := no_index),
               cu_status := toggle cu_idx (cu_status s)\<rparr>;
     ca \<leftarrow> cu_idx_to_addr s cu_idx;
     let (_, s) = read_reg B ca s;
     Some (write_reg B (ca + 0xC) 1 s) }"

definition cu_interrupt_handler :: "'b hw \<Rightarrow> 'b ert \<Rightarrow> 'b ert option" where
  "cu_interrupt_handler B s = do {
     let (intc_mask, s) = read_reg B ERT_INTC_IPR_ADDR s;
     s \<leftarrow> (if intc_mask AND 0x2 \<noteq> 0 then forM (isr_cus B) (upto_u32 0 (num_cu_masks s)) s else Some s);
     s \<leftarrow> (if intc_mask AND 0x1 \<noteq> 0 then forM (isr_slots B) (upto_u32 0 (num_slot_masks s)) s else Some s);
     s \<leftarrow> (if intc_mask AND 0x4 \<noteq> 0 then isr_cdma B s else Some s);
     Some (write_reg B ERT_INTC_IAR_ADDR intc_mask s) }"

end
