(* ===== verification/Ert_Invariant.thy ===== *)
theory Ert_Invariant
  imports Ert_Scheduler
begin

unbundle bit_operations_syntax

text \<open>
  The correctness of the scheduler firmware: what each routine leaves unchanged, the invariant
  that ties command slots to compute units, its preservation by every transition of the slot
  state machine and by the interrupt handler, and what follows for all reachable states.
\<close>

section \<open>Frame lemmas\<close>

lemmas monad_simps = Option.bind_eq_Some_conv Let_def

lemma read_reg_eq [simp]:
  "read_reg B a s = (fst (hw_read B a (bus s)), s\<lparr>bus := snd (hw_read B a (bus s))\<rparr>)"
  by (simp add: read_reg_def split: prod.split)

lemma write_reg_frame: "\<exists>b. write_reg B a v s = s\<lparr>bus := b\<rparr>"
  by (auto simp: write_reg_def)

lemma guard_frame: "\<exists>b. guard_ctor B s = s\<lparr>bus := b\<rparr>" "\<exists>b. guard_dtor B s = s\<lparr>bus := b\<rparr>"
  by (auto simp: guard_ctor_def guard_dtor_def write_reg_def intro: exI [of _ "bus s"])

lemma notify_host_frame: "notify_host B i s = Some t \<Longrightarrow> \<exists>b. t = s\<lparr>bus := b\<rparr>"
  by (auto simp: notify_host_def write_reg_def monad_simps)

lemma configure_cu_frame: "\<exists>b. configure_cu B ca ra n s = s\<lparr>bus := b\<rparr>"
proof -
  have "\<exists>b. fold (\<lambda>idx s. case read_reg B (ra + push_bit 2 idx) s of
      (v, s) \<Rightarrow> write_reg B (ca + push_bit 2 idx) v s) xs s = s\<lparr>bus := b\<rparr>" for xs
    by (rule fold_inv [where P = "\<lambda>t. \<exists>b. t = s\<lparr>bus := b\<rparr>"])
      (auto simp: write_reg_def intro: exI [of _ "bus s"])
  then obtain b where "fold (\<lambda>idx s. case read_reg B (ra + push_bit 2 idx) s of
      (v, s) \<Rightarrow> write_reg B (ca + push_bit 2 idx) v s) (upto_u32 4 n) s = s\<lparr>bus := b\<rparr>" by blast
  then have "configure_cu B ca ra n s = write_reg B ca 1 (s\<lparr>bus := b\<rparr>)"
    by (simp only: configure_cu_def)
  then show ?thesis by (auto simp: write_reg_def)
qed

lemma configure_cu_ooo_loop_frame:
  assumes "configure_cu_ooo_loop B ca ra n idx s = Some t"
  shows "\<exists>b. t = s\<lparr>bus := b\<rparr>"
proof (rule configure_cu_ooo_loop.raw_induct [where P = "\<lambda>B ca ra n idx s t. \<exists>b. t = s\<lparr>bus := b\<rparr>", OF _ assms])
  fix f B ca ra n idx s t
  assume "\<And>(B :: 'a hw) ca ra n idx s t. f B ca ra n idx s = Some t \<Longrightarrow> \<exists>b. t = s\<lparr>bus := b\<rparr>"
    and "(if idx < n then
        case read_reg B (ra + push_bit 2 idx) s of (off, s) \<Rightarrow>
        case read_reg B (ra + push_bit 2 (idx + 1)) s of (v, s) \<Rightarrow>
        f B ca ra n (idx + 2) (write_reg B (ca + off) v s)
      else Some s) = Some t"
  then show "\<exists>b. t = s\<lparr>bus := b\<rparr>"
    by (fastforce simp: write_reg_def split: if_splits intro: exI [of _ "bus s"])
qed

lemma configure_cu_ooo_frame: "configure_cu_ooo B ca ra n s = Some t \<Longrightarrow> \<exists>b. t = s\<lparr>bus := b\<rparr>"
  by (fastforce simp: configure_cu_ooo_def write_reg_def dest: configure_cu_ooo_loop_frame)

lemma configure_cu_dma_frame: "configure_cu_dma B c i a s = Some t \<Longrightarrow> \<exists>b. t = s\<lparr>bus := b\<rparr>"
proof -
  define f where "f = fold (\<lambda>m. write_reg B (cu_section_addr a + push_bit 2 m) (idx_to_mask B c m))"
  have f: "\<exists>b. f xs s = s\<lparr>bus := b\<rparr>" for xs s
    unfolding f_def
    by (rule fold_inv [where P = "\<lambda>t. \<exists>b. t = s\<lparr>bus := b\<rparr>"])
      (auto simp: write_reg_def intro: exI [of _ "bus s"])
  assume "configure_cu_dma B c i a s = Some t"
  then have "\<exists>u r v b. u = s\<lparr>bus := b\<rparr> \<and> t = write_reg B r v u"
    unfolding configure_cu_dma_def f_def [symmetric]
    using f [of "upto_u32 0 (num_cu_masks s)" s]
    by (auto simp: monad_simps split: if_splits intro: write_reg_frame)
  then show ?thesis by (auto simp: write_reg_def)
qed

lemma start_cu_configure_frame:
  "start_cu_configure B i sl ca s = Some t \<Longrightarrow> \<exists>b. t = s\<lparr>bus := b\<rparr>"
  unfolding start_cu_configure_def
  by (auto simp: configure_cu_frame dest: configure_cu_ooo_frame configure_cu_dma_frame split: if_splits)

lemma check_command_frame:
  "check_command B i c s = Some t \<Longrightarrow>
    i < max_slots \<and> (\<exists>b. t = s\<lparr>bus := b,
      command_slots := (command_slots s)(i := set_slot_status 4 (command_slots s i))\<rparr>)"
  by (auto simp: check_command_def monad_simps upd_slot_def dest!: notify_host_frame)

lemma start_cu_cases:
  assumes "start_cu B i s = Some (r, t)" and c: "c = s_cu_idx (command_slots s i)"
  shows "i < max_slots \<and> c < max_cus \<and>
    (cu_status s c \<and> r = no_index \<and> t = s \<or>
     \<not> cu_status s c \<and> r = c \<and>
       (\<exists>b u. t = s\<lparr>bus := b, cu_status := (cu_status s)(c := True),
                    cu_slot_usage := (cu_slot_usage s)(c := i), cu_usage := u\<rparr>))"
proof (cases "cu_status s c")
  case True
  with assms show ?thesis by (auto simp: start_cu_def monad_simps)
next
  case False
  with assms obtain ca u where ic: "i < max_slots" "c < max_cus" "r = c"
    and u: "start_cu_configure B i (command_slots s i) ca s = Some u"
    and t: "set_cu_info c i (u\<lparr>cu_status := toggle c (cu_status u)\<rparr>) = Some t"
    by (simp add: start_cu_def monad_simps) blast
  from start_cu_configure_frame [OF u] obtain b where "u = s\<lparr>bus := b\<rparr>" by blast
  with False ic t show ?thesis
    by (simp add: set_cu_info_def toggle_def monad_simps) blast
qed

lemma check_cu_cases:
  assumes "check_cu B c s = Some (r, t)"
  shows "c < max_cus \<and> (\<exists>b. t =
    (if r then s\<lparr>bus := b, cu_status := toggle c (cu_status s),
                 cu_slot_usage := (cu_slot_usage s)(c := no_index)\<rparr> else s\<lparr>bus := b\<rparr>))"
  using assms
  by (auto simp: check_cu_def monad_simps split: if_splits intro: exI [of _ "bus s"])

section \<open>Slot status bits\<close>

definition running :: "slot_info \<Rightarrow> bool" where
  "running sl \<longleftrightarrow> header_value sl AND 0xF = 0x3"

lemma running_status: "running (command_slots s i) \<longleftrightarrow> slot_status s i = 3"
  by (simp add: running_def slot_status_def)

lemma set_slot_status_simps [simp]:
  "header_value (set_slot_status 4 sl) AND 0xF = 4" "header_value (set_slot_status 2 sl) AND 0xF = 2"
  "s_cu_idx (set_slot_status st sl) = s_cu_idx sl" "slot_addr (set_slot_status st sl) = slot_addr sl"
  by (simp_all add: set_slot_status_def bit.conj_disj_distrib2 and.assoc)

lemma not_running_set [simp]: "\<not> running (set_slot_status 4 sl)" "\<not> running (set_slot_status 2 sl)"
  by (simp_all add: running_def)

lemma nibble_or_1: "h AND 0xF = 0x2 \<Longrightarrow> (h OR 1) AND 0xF = (0x3 :: u32)"
  by (simp add: bit.conj_disj_distrib2)

section \<open>The invariant\<close>

text \<open>
  Slots and compute units: a slot is running exactly when it is recorded as the user of a busy
  compute unit. \<open>n\<close> is the number of configured slots.
\<close>

definition slots_inv ::
  "u32 \<Rightarrow> (u32 \<Rightarrow> slot_info) \<Rightarrow> (u32 \<Rightarrow> u32) \<Rightarrow> (u32 \<Rightarrow> bool) \<Rightarrow> bool" where
  "slots_inv n slots usage status \<longleftrightarrow>
    (\<forall>i < max_slots. running (slots i) \<longrightarrow>
       i < n \<and> s_cu_idx (slots i) < max_cus \<and> status (s_cu_idx (slots i)) \<and> usage (s_cu_idx (slots i)) = i) \<and>
    (\<forall>c < max_cus. status c \<longrightarrow>
       usage c < max_slots \<and> running (slots (usage c)) \<and> s_cu_idx (slots (usage c)) = c)"

lemma slots_inv_idle:
  assumes "slots_inv n slots usage status" and "\<not> running (slots i)" and "\<not> running sl"
  shows "slots_inv n (slots(i := sl)) usage status"
  using assms unfolding slots_inv_def by (auto simp: fun_upd_apply split: if_splits)

lemma slots_inv_start:
  assumes "slots_inv n slots usage status" and "\<not> running (slots i)" and "running sl"
    and "i < n" and "i < max_slots" and "s_cu_idx sl = c" and "c < max_cus" and "\<not> status c"
  shows "slots_inv n (slots(i := sl)) (usage(c := i)) (status(c := True))"
  using assms unfolding slots_inv_def by (auto simp: fun_upd_apply split: if_splits)

lemma slots_inv_finish:
  assumes "slots_inv n slots usage status" and "running (slots i)" and "i < max_slots"
    and "c = s_cu_idx (slots i)" and "\<not> running sl"
  shows "slots_inv n (slots(i := sl)) (usage(c := x)) (status(c := False))"
  using assms unfolding slots_inv_def by (auto simp: fun_upd_apply split: if_splits) metis

lemma slots_inv_usage:
  assumes "slots_inv n slots usage status" and "\<not> status c"
  shows "slots_inv n slots (usage(c := x)) status"
  using assms unfolding slots_inv_def by (auto simp: fun_upd_apply split: if_splits)

definition ert_inv :: "'b ert \<Rightarrow> bool" where
  "ert_inv s \<longleftrightarrow> num_slots s \<le> max_slots \<and> num_cus s \<le> max_cus \<and>
    (\<forall>c. cu_interrupt_mask s c \<longrightarrow> c < num_cus s) \<and>
    (dataflow_enabled s = 0 \<longrightarrow>
       slots_inv (num_slots s) (command_slots s) (cu_slot_usage s) (cu_status s) \<and>
       (\<forall>c < num_cus s. \<not> cu_status s c \<longrightarrow> cu_slot_usage s c = no_index))"

lemma ert_inv_bus [simp]: "ert_inv (s\<lparr>bus := b\<rparr>) = ert_inv s"
  by (simp add: ert_inv_def)

lemma ert_inv_usage [simp]: "ert_inv (s\<lparr>cu_usage := u\<rparr>) = ert_inv s"
  by (simp add: ert_inv_def)

text \<open>The fields the invariant depends on.\<close>

definition same_view :: "'b ert \<Rightarrow> 'b ert \<Rightarrow> bool" where
  "same_view s t \<longleftrightarrow> num_slots t = num_slots s \<and> num_cus t = num_cus s \<and>
     dataflow_enabled t = dataflow_enabled s \<and> cu_interrupt_mask t = cu_interrupt_mask s \<and>
     command_slots t = command_slots s \<and> cu_slot_usage t = cu_slot_usage s \<and> cu_status t = cu_status s"

lemma same_view_refl [simp]: "same_view s s"
  by (simp add: same_view_def)

lemma same_view_trans: "same_view s t \<Longrightarrow> same_view t u \<Longrightarrow> same_view s u"
  by (simp add: same_view_def)

lemma same_view_bus [simp]:
  "same_view s (t\<lparr>bus := b\<rparr>) = same_view s t" "same_view (s\<lparr>bus := b\<rparr>) t = same_view s t"
  by (simp_all add: same_view_def)

lemma same_view_write [simp]:
  "same_view s (write_reg B a v t) = same_view s t" "same_view (write_reg B a v s) t = same_view s t"
  by (simp_all add: same_view_def write_reg_def)

lemma same_view_inv: "same_view s t \<Longrightarrow> ert_inv s \<Longrightarrow> ert_inv t"
  by (simp add: same_view_def ert_inv_def)

lemma ert_inv_idleI:
  assumes "ert_inv s" and "\<not> running (command_slots s i)" and "\<not> running sl"
    and "same_view (s\<lparr>command_slots := (command_slots s)(i := sl)\<rparr>) t"
  shows "ert_inv t"
  using assms by (auto simp: ert_inv_def same_view_def slots_inv_idle)

lemma ert_inv_startI:
  assumes "ert_inv s" and "\<not> running (command_slots s i)" and "running sl"
    and "i < num_slots s" and "s_cu_idx sl = c" and "c < max_cus" and "\<not> cu_status s c"
    and "same_view (s\<lparr>command_slots := (command_slots s)(i := sl),
      cu_slot_usage := (cu_slot_usage s)(c := i), cu_status := (cu_status s)(c := True)\<rparr>) t"
  shows "ert_inv t"
proof -
  have "i < max_slots" using assms(1,4) by (auto simp: ert_inv_def)
  then show ?thesis
    using assms by (auto simp: ert_inv_def same_view_def intro: slots_inv_start)
qed

lemma ert_inv_finishI:
  assumes "ert_inv s" and "running (command_slots s i)" and "i < max_slots"
    and "c = s_cu_idx (command_slots s i)" and "\<not> running sl"
    and "same_view (s\<lparr>command_slots := (command_slots s)(i := sl),
      cu_slot_usage := (cu_slot_usage s)(c := no_index), cu_status := toggle c (cu_status s)\<rparr>) t"
  shows "ert_inv t"
proof (cases "dataflow_enabled s = 0")
  case True
  with assms(1-4) have "cu_status s c" by (auto simp: ert_inv_def slots_inv_def)
  with True assms show ?thesis
    by (auto simp: ert_inv_def same_view_def toggle_def intro: slots_inv_finish)
next
  case False
  with assms(1,6) show ?thesis by (simp add: ert_inv_def same_view_def)
qed

section \<open>The transitions keep the invariant\<close>

lemma notify_host_view: "notify_host B i s = Some t \<Longrightarrow> same_view s t"
  by (auto dest: notify_host_frame)

lemma guard_view [simp]: "same_view s (guard_ctor B t) = same_view s t" "same_view s (guard_dtor B t) = same_view s t"
  using guard_frame [of B t] by (metis same_view_bus)+

lemma check_command_view:
  assumes "check_command B i c s = Some t"
  shows "i < max_slots \<and>
    same_view (s\<lparr>command_slots := (command_slots s)(i := set_slot_status 4 (command_slots s i))\<rparr>) t"
  using check_command_frame [OF assms] by (auto simp: same_view_def)

lemma free_to_new_inv:
  assumes "ert_inv s" and "free_to_new B i s = Some (r, t)" and "slot_status s i \<noteq> 3"
  shows "ert_inv t"
proof (cases "fst (hw_read B (slot_addr (command_slots s i)) (bus s)) AND 0xF = 1")
  case True
  with assms(2) show ?thesis
    by (intro ert_inv_idleI [OF assms(1), where i = i and sl = "(command_slots s i)
         \<lparr>header_value := fst (hw_read B (slot_addr (command_slots s i)) (bus s))\<rparr>"])
      (use assms(3) in \<open>auto simp: free_to_new_def monad_simps upd_slot_def running_status same_view_def
        write_reg_def running_def slot_status_def\<close>)
next
  case False
  with assms show ?thesis by (auto simp: free_to_new_def monad_simps)
qed

lemma queued_to_running_cases:
  assumes "queued_to_running B i s = Some (r, t)"
  defines "c \<equiv> s_cu_idx (command_slots s i)"
  shows "i < max_slots \<and> c < max_cus \<and> r = (\<not> cu_status s c) \<and>
    same_view (if cu_status s c then s else
      s\<lparr>command_slots := (command_slots s)(i := (command_slots s i)
          \<lparr>header_value := header_value (command_slots s i) OR 1\<rparr>),
        cu_slot_usage := (cu_slot_usage s)(c := i), cu_status := (cu_status s)(c := True)\<rparr>) t"
proof -
  obtain b where g: "guard_ctor B s = s\<lparr>bus := b\<rparr>" by (rule exE [OF guard_frame(1)])
  from assms(1) obtain d u where d: "start_cu B i (s\<lparr>bus := b\<rparr>) = Some (d, u)"
    and rt: "(if d = no_index then Some (False, guard_dtor B u)
      else Some (True, guard_dtor B (upd_slot i (\<lambda>sl. sl\<lparr>header_value := header_value sl OR 1\<rparr>) u)))
      = Some (r, t)"
    unfolding queued_to_running_def g by (auto simp: monad_simps)
  have "c = s_cu_idx (command_slots (s\<lparr>bus := b\<rparr>) i)" by (simp add: c_def)
  note cases = start_cu_cases [OF d this]
  then have "c \<noteq> no_index" by (auto simp: no_index_def max_cus_def)
  show ?thesis
  proof (cases "cu_status s c")
    case True
    with cases rt show ?thesis by auto
  next
    case False
    with cases obtain b' k where u: "u = s\<lparr>bus := b', cu_status := (cu_status s)(c := True),
        cu_slot_usage := (cu_slot_usage s)(c := i), cu_usage := k\<rparr>" and "d = c" by auto
    with \<open>c \<noteq> no_index\<close> rt have "r" "t = guard_dtor B (upd_slot i (\<lambda>sl. sl\<lparr>header_value := header_value sl OR 1\<rparr>) u)"
      by simp_all
    with False cases show ?thesis unfolding u by (simp add: upd_slot_def) (simp add: same_view_def)
  qed
qed

lemma queued_to_running_inv:
  assumes "ert_inv s" and "queued_to_running B i s = Some (r, t)" and "slot_status s i = 2"
    and "i < num_slots s"
  shows "ert_inv t"
proof (cases "cu_status s (s_cu_idx (command_slots s i))")
  case True
  with queued_to_running_cases [OF assms(2)] have "same_view s t" by simp
  then show ?thesis using assms(1) by (rule same_view_inv)
next
  case False
  note q = queued_to_running_cases [OF assms(2)]
  show ?thesis
    by (rule ert_inv_startI [OF assms(1), of i "(command_slots s i)
      \<lparr>header_value := header_value (command_slots s i) OR 1\<rparr>" "s_cu_idx (command_slots s i)"])
      (use q False assms(3,4) in \<open>simp_all add: running_def slot_status_def nibble_or_1\<close>)
qed

lemma running_to_free_cases:
  assumes "running_to_free B i s = Some (r, t)"
  defines "c \<equiv> s_cu_idx (command_slots s i)"
  shows "i < max_slots \<and> c < max_cus \<and>
    same_view (if r then s\<lparr>command_slots := (command_slots s)(i := set_slot_status 4 (command_slots s i)),
        cu_slot_usage := (cu_slot_usage s)(c := no_index), cu_status := toggle c (cu_status s)\<rparr> else s) t"
proof -
  from assms(1) obtain d u where i: "i < max_slots" and u: "check_cu B c s = Some (d, u)"
    and rt: "(if \<not> d then Some (False, u)
      else do { v \<leftarrow> notify_host B i u; Some (True, upd_slot i (set_slot_status 4) v) }) = Some (r, t)"
    unfolding running_to_free_def c_def by (auto simp: Option.bind_eq_Some_conv)
  from check_cu_cases [OF u] obtain b where c: "c < max_cus" and u':
    "u = (if d then s\<lparr>bus := b, cu_status := toggle c (cu_status s),
                 cu_slot_usage := (cu_slot_usage s)(c := no_index)\<rparr> else s\<lparr>bus := b\<rparr>)" by blast
  show ?thesis
  proof (cases d)
    case True
    with rt obtain v where v: "notify_host B i u = Some v" "r" "t = upd_slot i (set_slot_status 4) v"
      by (auto simp: Option.bind_eq_Some_conv)
    with notify_host_view [OF v(1)] u' True i c show ?thesis
      by (simp add: same_view_def upd_slot_def)
  next
    case False
    with rt u' i c show ?thesis by auto
  qed
qed

lemma running_to_free_inv:
  assumes "ert_inv s" and "running_to_free B i s = Some (r, t)" and "slot_status s i = 3"
  shows "ert_inv t"
proof (cases r)
  case True
  with running_to_free_cases [OF assms(2)] assms(1,3) show ?thesis
    by (intro ert_inv_finishI [OF assms(1), of i "s_cu_idx (command_slots s i)"
          "set_slot_status 4 (command_slots s i)"]) (simp_all add: running_status)
next
  case False
  with running_to_free_cases [OF assms(2)] assms(1) show ?thesis by (auto intro: same_view_inv)
qed

lemma busy_of_check:
  assumes "ert_inv s" and "dataflow_enabled s = 0" and "c < num_cus s" and "cu_slot_usage s c < max_slots"
  shows "cu_status s c \<and> running (command_slots s (cu_slot_usage s c)) \<and>
    s_cu_idx (command_slots s (cu_slot_usage s c)) = c"
proof -
  have c: "c < max_cus" using assms(1,3) by (auto simp: ert_inv_def)
  have "cu_status s c"
  proof (rule ccontr)
    assume "\<not> cu_status s c"
    with assms have "no_index < max_slots" by (simp add: ert_inv_def)
    then show False by (simp add: no_index_def max_slots_def)
  qed
  with assms(1,2) c show ?thesis by (simp add: ert_inv_def slots_inv_def)
qed

lemma irq_finish_inv:
  assumes "ert_inv s" and "dataflow_enabled s = 0" and "c < num_cus s"
    and "check_command B (cu_slot_usage s c) c s = Some u"
    and "same_view (u\<lparr>cu_slot_usage := (cu_slot_usage u)(c := no_index), cu_status := toggle c (cu_status u)\<rparr>) t"
  shows "ert_inv t"
proof -
  let ?i = "cu_slot_usage s c"
  note v = check_command_view [OF assms(4)]
  then have "?i < max_slots" by blast
  note r = busy_of_check [OF assms(1-3) this]
  from v assms(5) have
    "same_view (s\<lparr>command_slots := (command_slots s)(?i := set_slot_status 4 (command_slots s ?i)),
      cu_slot_usage := (cu_slot_usage s)(c := no_index), cu_status := toggle c (cu_status s)\<rparr>) t"
    by (simp add: same_view_def)
  with r v show ?thesis
    by (intro ert_inv_finishI [OF assms(1), of ?i c "set_slot_status 4 (command_slots s ?i)"]) simp_all
qed

lemma isr_cu_inv:
  assumes "ert_inv s" and "isr_cu B c s = Some t" and "dataflow_enabled s = 0"
  shows "ert_inv t \<and> dataflow_enabled t = 0"
proof (cases "cu_interrupt_mask s c")
  case False
  with assms show ?thesis by (auto simp: isr_cu_def monad_simps)
next
  case True
  then have n: "c < num_cus s" using assms(1) by (simp add: ert_inv_def)
  from True assms(2) obtain u where u: "check_command B (cu_slot_usage s c) c s = Some u"
    and t: "t = u\<lparr>cu_slot_usage := (cu_slot_usage u)(c := no_index), cu_status := toggle c (cu_status u)\<rparr>"
    by (auto simp: isr_cu_def monad_simps)
  from check_command_view [OF u] t assms(3) have "dataflow_enabled t = 0" by (simp add: same_view_def)
  with irq_finish_inv [OF assms(1,3) n u] t show ?thesis by simp
qed

lemma isr_cdma_inv:
  assumes "ert_inv s" and "isr_cdma B s = Some t" and "dataflow_enabled s = 0" and "num_cus s \<noteq> 0"
  shows "ert_inv t \<and> dataflow_enabled t = 0"
proof -
  let ?c = "num_cus s - 1"
  have n: "?c < num_cus s" 
    using assms(4) unat_gt_0 [of "num_cus s"] by (simp add: word_less_nat_alt unat_minus_one)
  from assms(2) obtain u where u: "check_command B (cu_slot_usage s ?c) ?c s = Some u"
    and t: "same_view (u\<lparr>cu_slot_usage := (cu_slot_usage u)(?c := no_index), cu_status := toggle ?c (cu_status u)\<rparr>) t"
    by (auto simp: isr_cdma_def monad_simps)
  from check_command_view [OF u] t assms(3) have "dataflow_enabled t = 0" by (simp add: same_view_def)
  with irq_finish_inv [OF assms(1,3) n u t] show ?thesis by simp
qed

section \<open>Setup and the special commands\<close>

definition quiet :: "'b ert \<Rightarrow> bool" where
  "quiet s \<longleftrightarrow> (\<forall>i < max_slots. \<not> running (command_slots s i))"

definition same_config :: "'b ert \<Rightarrow> 'b ert \<Rightarrow> bool" where
  "same_config s t \<longleftrightarrow> num_slots t = num_slots s \<and> num_cus t = num_cus s \<and>
     dataflow_enabled t = dataflow_enabled s"

lemma setup_slots_post:
  assumes "forM (setup_slot B) (upto_u32 0 n) s = Some t"
  shows "n \<le> max_slots \<and> same_config s t \<and> (\<forall>i < n. header_value (command_slots t i) = 4) \<and>
    (\<forall>i \<ge> n. command_slots t i = command_slots s i)"
proof (intro conjI allI impI)
  show "n \<le> max_slots"
  proof (rule ccontr)
    assume "\<not> n \<le> max_slots"
    then have "max_slots \<in> set (upto_u32 0 n)" by simp
    from forM_defined [OF assms this] show False
      by (auto simp: setup_slot_def monad_simps)
  qed
  show "same_config s t"
    by (rule forM_inv [OF assms, of "same_config s"])
      (auto simp: same_config_def setup_slot_def monad_simps upd_slot_def write_reg_def)
  show "header_value (command_slots t i) = 4" if "i < n" for i
    by (rule forM_establishes [OF assms, of i])
      (use that in \<open>auto simp: setup_slot_def monad_simps upd_slot_def write_reg_def\<close>)
  show "command_slots t i = command_slots s i" if "n \<le> i" for i
    by (rule forM_inv [OF assms, of "\<lambda>t. command_slots t i = command_slots s i"])
      (use that in \<open>auto simp: setup_slot_def monad_simps upd_slot_def write_reg_def\<close>)
qed

lemma setup_cu_usage_post:
  assumes "forM setup_cu_usage (upto_u32 0 n) s = Some t"
  shows "n \<le> max_cus \<and> same_config s t \<and> command_slots t = command_slots s \<and> cu_status t = cu_status s \<and>
    (\<forall>c < n. cu_slot_usage t c = no_index)"
proof (intro conjI allI impI)
  show "n \<le> max_cus"
  proof (rule ccontr)
    assume "\<not> n \<le> max_cus"
    then have "max_cus \<in> set (upto_u32 0 n)" by simp
    from forM_defined [OF assms this] show False
      by (auto simp: setup_cu_usage_def monad_simps)
  qed
  show "same_config s t"
    by (rule forM_inv [OF assms, of "same_config s"])
      (auto simp: same_config_def setup_cu_usage_def monad_simps)
  show "command_slots t = command_slots s"
    by (rule forM_inv [OF assms, of "\<lambda>t. command_slots t = command_slots s"])
      (auto simp: setup_cu_usage_def monad_simps)
  show "cu_status t = cu_status s"
    by (rule forM_inv [OF assms, of "\<lambda>t. cu_status t = cu_status s"])
      (auto simp: setup_cu_usage_def monad_simps)
  show "cu_slot_usage t c = no_index" if "c < n" for c
    by (rule forM_establishes [OF assms, of c])
      (use that in \<open>auto simp: setup_cu_usage_def monad_simps\<close>)
qed

lemma setup_lut_view: "forM (setup_lut B) xs s = Some t \<Longrightarrow> same_view s t"
  by (erule forM_inv [where P = "same_view s"]) (auto simp: setup_lut_def monad_simps)

lemma setup_registers_view: "setup_registers B s = Some t \<Longrightarrow> same_view s t"
  by (auto simp: setup_registers_def Let_def dest!: setup_lut_view split: if_splits)

lemma setup_cu_interrupt_post:
  assumes "forM (setup_cu_interrupt B en) (upto_u32 0 n) s = Some t" and "\<forall>c. \<not> cu_interrupt_mask s c"
  shows "\<exists>m. same_view (s\<lparr>cu_interrupt_mask := m\<rparr>) t \<and> (\<forall>c. m c \<longrightarrow> c < n)"
proof (rule forM_inv [OF assms(1)])
  show "\<exists>m. same_view (s\<lparr>cu_interrupt_mask := m\<rparr>) s \<and> (\<forall>c. m c \<longrightarrow> c < n)"
    by (rule exI [of _ "cu_interrupt_mask s"]) (use assms(2) in simp)
  fix x u v assume x: "x \<in> set (upto_u32 0 n)"
    and "\<exists>m. same_view (s\<lparr>cu_interrupt_mask := m\<rparr>) u \<and> (\<forall>c. m c \<longrightarrow> c < n)"
    and v: "setup_cu_interrupt B en x u = Some v"
  then obtain m where m: "same_view (s\<lparr>cu_interrupt_mask := m\<rparr>) u" "\<forall>c. m c \<longrightarrow> c < n" by blast
  have "same_view (s\<lparr>cu_interrupt_mask := m\<rparr>) v \<or> same_view (s\<lparr>cu_interrupt_mask := m(x := True)\<rparr>) v"
    using m(1) v by (auto simp: setup_cu_interrupt_def monad_simps same_view_def write_reg_def split: if_splits)
  with m(2) x show "\<exists>m. same_view (s\<lparr>cu_interrupt_mask := m\<rparr>) v \<and> (\<forall>c. m c \<longrightarrow> c < n)"
    by (metis fun_upd_apply set_upto_u32 greaterThanLessThan_iff atLeastLessThan_iff)
qed

lemma setup_cu_interrupts_post:
  assumes "setup_cu_interrupts B s = Some x"
  shows "\<exists>m. same_view (s\<lparr>cu_interrupt_mask := m\<rparr>) (snd (snd x)) \<and> (\<forall>c. m c \<longrightarrow> c < num_cus s)"
proof -
  let ?s = "s\<lparr>cu_interrupt_mask := \<lambda>_. False\<rparr>"
  from assms obtain en u where u: "forM (setup_cu_interrupt B en) (upto_u32 0 (num_cus s)) ?s = Some u"
    and t: "same_view u (snd (snd x))"
    by (auto simp: setup_cu_interrupts_def monad_simps split: if_splits)
  from setup_cu_interrupt_post [OF u] obtain m where
    "same_view (?s\<lparr>cu_interrupt_mask := m\<rparr>) u" "\<forall>c. m c \<longrightarrow> c < num_cus s" by auto
  with t show ?thesis by (auto intro: same_view_trans)
qed

lemma setup_cq_status_view: "same_view s (snd (snd (setup_cq_status B ier master s)))"
  by (simp add: setup_cq_status_def Let_def)

lemma setup_master_view: "same_view s (setup_master B ier master s)"
  by (simp add: setup_master_def Let_def)

lemma setup_post:
  assumes "ert_setup B s = Some t"
  shows "same_config (s\<lparr>num_slots := num_slots t\<rparr>) t \<and> num_slots t \<le> max_slots \<and> num_cus t \<le> max_cus \<and>
    (\<forall>c. cu_interrupt_mask t c \<longrightarrow> c < num_cus t) \<and> (\<forall>c. \<not> cu_status t c) \<and>
    (\<forall>c < num_cus t. cu_slot_usage t c = no_index) \<and>
    (\<forall>i < num_slots t. header_value (command_slots t i) = 4) \<and>
    (\<forall>i \<ge> num_slots t. command_slots t i = command_slots s i) \<and>
    setup_num_slots s = Some (num_slots t)"
proof -
  from assms obtain n u b v w x where n: "setup_num_slots s = Some n"
    and u: "forM (setup_slot B) (upto_u32 0 n) (s\<lparr>num_slots := n, num_slot_masks := drop_bit 5 (n - 1) + 1,
               num_cu_masks := drop_bit 5 (num_cus s - 1) + 1\<rparr>) = Some u"
    and v: "forM setup_cu_usage (upto_u32 0 (num_cus u))
      (u\<lparr>bus := b, cu_status := (\<lambda>_. False), slot_submitted := (\<lambda>_. False)\<rparr>) = Some v"
    and w: "setup_registers B v = Some w"
    and x: "setup_cu_interrupts B w = Some x"
    and t: "t = (let q = setup_cq_status B (fst x) (fst (snd x)) (snd (snd x))
      in setup_master B (fst q) (fst (snd q)) (snd (snd q)))"
    by (auto simp: ert_setup_def monad_simps case_prod_unfold)
  from t have t': "same_view (snd (snd x)) t"
    by (auto simp: Let_def intro: same_view_trans setup_cq_status_view setup_master_view)
  from setup_cu_interrupts_post [OF x] setup_registers_view [OF w] t' obtain m where
    "same_view (v\<lparr>cu_interrupt_mask := m\<rparr>) t" "\<forall>c. m c \<longrightarrow> c < num_cus v"
    by (auto simp: same_view_def)
  with n setup_slots_post [OF u] setup_cu_usage_post [OF v] show ?thesis
    by (simp add: same_view_def same_config_def)
qed

lemma setup_inv:
  assumes "ert_setup B s = Some t" and "quiet s"
  shows "ert_inv t \<and> quiet t"
proof -
  note p = setup_post [OF assms(1)]
  have "quiet t" unfolding quiet_def
  proof (intro allI impI)
    fix i :: u32 assume "i < max_slots"
    with p assms(2) show "\<not> running (command_slots t i)"
      by (cases "i < num_slots t") (auto simp: quiet_def running_def not_less)
  qed
  with p show ?thesis by (simp add: ert_inv_def slots_inv_def quiet_def)
qed

lemma read_cu_addr_slots:
  "forM (read_cu_addr B a) xs s = Some t \<Longrightarrow> command_slots t = command_slots s"
  by (erule forM_inv [where P = "\<lambda>t. command_slots t = command_slots s"])
    (auto simp: read_cu_addr_def monad_simps)

lemma configure_mb_inv:
  assumes "configure_mb B i s = Some (r, t)" and "quiet s"
  shows "ert_inv t"
proof -
  from assms(1) obtain u v w x a xs where v: "forM (read_cu_addr B a) xs u = Some v"
    and u: "command_slots u = command_slots s" and w: "ert_setup B v = Some w"
    and x: "notify_host B i w = Some x" and t: "t = upd_slot i (set_slot_status 4) x"
    and i: "i < max_slots"
    by (auto simp: configure_mb_def monad_simps set_features_def)
  have "quiet v" using assms(2) read_cu_addr_slots [OF v] u by (simp add: quiet_def)
  from setup_inv [OF w this] notify_host_view [OF x] have "ert_inv x" "\<not> running (command_slots x i)"
    using i by (auto intro: same_view_inv simp: quiet_def same_view_def)
  then show ?thesis unfolding t
    by (rule ert_inv_idleI [where sl = "set_slot_status 4 (command_slots x i)"])
      (simp_all add: upd_slot_def same_view_def)
qed

lemma free_slot_inv:
  assumes "ert_inv s" and "\<not> running (command_slots s i)" and "same_view s u"
    and "same_view (upd_slot i (set_slot_status 4) u) t"
  shows "ert_inv t"
  by (rule ert_inv_idleI [OF assms(1,2), of "set_slot_status 4 (command_slots s i)"])
    (use assms(3,4) in \<open>simp_all add: same_view_def upd_slot_def\<close>)

lemma exit_poll_view:
  assumes "exit_poll B dma isr s = Some t"
  shows "same_view s t"
proof (rule exit_poll.raw_induct [where P = "\<lambda>B dma isr s t. same_view s t", OF _ assms])
  fix f B dma isr s t
  assume "\<And>(B :: 'a hw) dma isr s t. f B dma isr s = Some t \<Longrightarrow> same_view s t"
    and "(if dma \<noteq> ERT_HLS_MODULE_IDLE \<and> isr \<noteq> ERT_HLS_MODULE_IDLE then
        case read_reg B ERT_CUDMA_STATE s of (dma, s) \<Rightarrow>
        case read_reg B ERT_CUISR_STATE s of (isr, s) \<Rightarrow> f B dma isr s
      else Some s) = Some t"
  then show "same_view s t" by (fastforce split: if_splits)
qed

lemma exit_mb_inv:
  assumes "exit_mb B i s = Some (r, t)" and "ert_inv s" and "\<not> running (command_slots s i)"
  shows "ert_inv t"
proof -
  from assms(1) obtain u v dma isr where v: "exit_poll B dma isr u = Some v" and u: "same_view s u"
    and t: "same_view (upd_slot i (set_slot_status 4) v) t"
    by (auto simp: exit_mb_def monad_simps same_view_def upd_slot_def write_reg_def)
  from u exit_poll_view [OF v] have "same_view s v" by (rule same_view_trans)
  from free_slot_inv [OF assms(2,3) this t] show ?thesis .
qed

lemma stat_word_view:
  "forM (stat_word B a m get) xs ps = Some qs \<Longrightarrow> same_view (snd ps) (snd qs)"
  by (erule forM_inv [where P = "\<lambda>qs. same_view (snd ps) (snd qs)"])
    (auto simp: stat_word_def monad_simps split: if_splits)

lemma cu_stat_inv:
  assumes "cu_stat B version i s = Some (r, t)" and "ert_inv s" and "\<not> running (command_slots s i)"
  shows "ert_inv t"
proof -
  from assms(1) obtain u p q x y a m f g h xs ys zs where u: "forM (stat_word B a m f) xs (5, u) = Some p"
    and su: "same_view s u"
    and p: "forM (stat_word B a m g) ys p = Some q" and q: "forM (stat_word B a m h) zs q = Some x"
    and y: "notify_host B i (snd x) = Some y" and t: "t = upd_slot i (set_slot_status 4) y"
    by (auto simp: cu_stat_def monad_simps case_prod_unfold)
  from stat_word_view [OF u] stat_word_view [OF p] stat_word_view [OF q] notify_host_view [OF y] su
  have "same_view s y" by (simp add: same_view_def)
  from free_slot_inv [OF assms(2,3) this] t show ?thesis by simp
qed

lemma abort_mb_cases:
  assumes "abort_mb B i s = Some (r, t)"
  defines "k \<equiv> abort_target (header_value (command_slots s i))"
  defines "c \<equiv> s_cu_idx (command_slots s k)"
  shows "k < max_slots \<and>
    same_view (if opcode (header_value (command_slots s k)) = opcode_val ERT_START_CU \<and> running (command_slots s k)
      then s\<lparr>command_slots := (command_slots s)(k := set_slot_status 4 (command_slots s k)),
        cu_slot_usage := (cu_slot_usage s)(c := no_index), cu_status := toggle c (cu_status s)\<rparr> else s) t"
proof -
  obtain b where g: "guard_ctor B s = s\<lparr>bus := b\<rparr>" by (rule exE [OF guard_frame(1)])
  let ?sl = "command_slots s k"
  show ?thesis
  proof (cases "opcode (header_value ?sl) = opcode_val ERT_START_CU \<and> running ?sl")
    case False
    with assms g show ?thesis
      by (auto simp: abort_mb_def monad_simps running_def split: if_splits)
  next
    case True
    with assms(1) g obtain u v where "k < max_slots"
      and u: "check_command B k c (s\<lparr>bus := b\<rparr>) = Some u"
      and v: "notify_host B i (u\<lparr>cu_slot_usage := (cu_slot_usage u)(c := no_index),
        cu_status := toggle c (cu_status u)\<rparr>) = Some v" and t: "t = guard_dtor B v"
      unfolding k_def c_def by (auto simp: abort_mb_def monad_simps running_def split: if_splits)
    with check_command_view [OF u] notify_host_view [OF v] True show ?thesis
      unfolding t guard_view by (simp add: same_view_def)
  qed
qed

lemma abort_mb_inv:
  assumes "abort_mb B i s = Some (r, t)" and "ert_inv s"
  shows "ert_inv t"
proof -
  let ?k = "abort_target (header_value (command_slots s i))"
  let ?sl = "command_slots s ?k"
  note k = abort_mb_cases [OF assms(1)]
  show ?thesis
  proof (cases "opcode (header_value ?sl) = opcode_val ERT_START_CU \<and> running ?sl")
    case False
    with k have "same_view s t" by (simp split: if_splits)
    then show ?thesis using assms(2) by (rule same_view_inv)
  next
    case True
    with k show ?thesis
      by (intro ert_inv_finishI [OF assms(2), of ?k "s_cu_idx ?sl" "set_slot_status 4 ?sl"]) simp_all
  qed
qed

text \<open>
  The host resets the scheduler only when nothing runs: a configure command is sent before the
  first kernel start or after all commands completed.
\<close>

definition configure_quiet :: "'b ert \<Rightarrow> u32 \<Rightarrow> bool" where
  "configure_quiet s i \<longleftrightarrow> (let h = header_value (command_slots s i) in
     cmd_type h \<noteq> type_val ERT_CU \<and> opcode h = opcode_val ERT_CONFIGURE \<longrightarrow> quiet s)"

lemma new_to_queued_inv:
  assumes "new_to_queued B version i s = Some (r, t)" and "ert_inv s" and "slot_status s i = 1"
    and "configure_quiet s i"
  shows "ert_inv t"
proof -
  let ?h = "header_value (command_slots s i)"
  define u where "u = upd_slot i (\<lambda>sl. sl\<lparr>s_opcode := opcode ?h\<rparr>) s"
  have nr: "\<not> running (command_slots s i)" using assms(3) by (simp add: running_status)
  have nu: "\<not> running (command_slots u i)" using nr by (simp add: u_def upd_slot_def running_def)
  have iu: "ert_inv u"
    by (rule ert_inv_idleI [OF assms(2) nr nu]) (simp add: u_def upd_slot_def)
  show ?thesis
  proof (cases "cmd_type ?h = type_val ERT_CU")
    case True
    with assms(1) have "\<exists>c a n. same_view (upd_slot i (\<lambda>sl. set_slot_status 2
        (sl\<lparr>s_cu_idx := c, s_regmap_addr := a, s_regmap_size := n\<rparr>)) u) t"
      by (auto simp: new_to_queued_def monad_simps u_def upd_slot_def same_view_def) blast
    then show ?thesis
      by (auto intro!: ert_inv_idleI [OF iu nu] simp: upd_slot_def)
  next
    case False
    with assms(1) obtain r' where sp: "process_special_command B version (opcode ?h) i u = Some (r', t)"
      by (auto simp: new_to_queued_def monad_simps u_def)
    have "opcode ?h = opcode_val ERT_CONFIGURE \<Longrightarrow> quiet u"
      using False assms(4) by (auto simp: configure_quiet_def quiet_def u_def upd_slot_def running_def)
    with sp iu nu show ?thesis
      by (auto simp: process_special_command_def split: if_splits
        intro: configure_mb_inv cu_stat_inv exit_mb_inv abort_mb_inv)
  qed
qed

section \<open>Dataflow mode\<close>

definition same_limits :: "'b ert \<Rightarrow> 'b ert \<Rightarrow> bool" where
  "same_limits s t \<longleftrightarrow> same_config s t \<and> cu_interrupt_mask t = cu_interrupt_mask s"

lemmas same_limits_defs = same_limits_def same_config_def

lemma same_limits_trans: "same_limits s t \<Longrightarrow> same_limits t u \<Longrightarrow> same_limits s u"
  by (simp add: same_limits_defs)

lemma same_view_limits: "same_view s t \<Longrightarrow> same_limits s t"
  by (simp add: same_view_def same_limits_defs)

lemma dataflow_inv: "same_limits s t \<Longrightarrow> dataflow_enabled s \<noteq> 0 \<Longrightarrow> ert_inv s \<Longrightarrow> ert_inv t"
  by (simp add: same_limits_defs ert_inv_def)

lemma notify_host_limits: "notify_host B i s = Some t \<Longrightarrow> same_limits s t"
  by (intro same_view_limits notify_host_view)

lemma command_queue_fetch_limits: "command_queue_fetch B i s = Some t \<Longrightarrow> same_limits s t"
  by (auto simp: command_queue_fetch_def monad_simps same_limits_defs write_reg_def upd_slot_def
      dest!: notify_host_frame split: if_splits)

lemma cu_state_check_limits: "cu_state_check B i s = Some t \<Longrightarrow> same_limits s t"
  by (auto simp: cu_state_check_def monad_simps same_limits_defs write_reg_def
      dest!: notify_host_frame split: if_splits)

lemma set_cu_info_limits: "set_cu_info c i s = Some t \<Longrightarrow> same_limits s t"
  by (auto simp: set_cu_info_def monad_simps same_limits_defs)

lemma cu_execution_limits:
  assumes "cu_execution B i s = Some t"
  shows "same_limits s t"
proof (cases "cu_status s (s_cu_idx (command_slots s i)) \<or> slot_cache s i AND AP_START = 0")
  case True
  with assms show ?thesis
    by (auto simp: cu_execution_def monad_simps same_limits_defs split: if_splits)
next
  case False
  let ?cu = "s_cu_idx (command_slots s i)"
  let ?sl = "command_slots s i"
  from False assms obtain ca u where
    "(if s_opcode ?sl = opcode_val ERT_EXEC_WRITE
      then configure_cu_ooo B ca (s_regmap_addr ?sl) (s_regmap_size ?sl) s
      else Some (configure_cu B ca (s_regmap_addr ?sl) (s_regmap_size ?sl) s)) = Some u"
    and t: "set_cu_info ?cu i (u\<lparr>cu_status := toggle ?cu (cu_status u)\<rparr>) = Some t"
    by (auto simp: cu_execution_def monad_simps)
  then have "\<exists>b. u = s\<lparr>bus := b\<rparr>"
    by (auto dest: configure_cu_ooo_frame simp: configure_cu_frame split: if_splits)
  with set_cu_info_limits [OF t] show ?thesis by (auto simp: same_limits_defs)
qed

lemma dataflow_slot_limits: "dataflow_slot B i s = Some t \<Longrightarrow> same_limits s t"
  by (auto simp: dataflow_slot_def monad_simps same_limits_defs write_reg_def
      dest!: notify_host_frame split: if_splits)

lemma dataflow_kds30_slot_limits: "dataflow_kds30_slot B i s = Some t \<Longrightarrow> same_limits s t"
  by (auto simp: dataflow_kds30_slot_def Option.bind_eq_Some_conv split: if_splits
      dest!: command_queue_fetch_limits cu_state_check_limits cu_execution_limits intro: same_limits_trans)

section \<open>Reachable states\<close>

text \<open>
  The steps of the running system: the world outside the firmware (host, compute units) changes
  the memory and the registers, the loop executes one phase for a slot, or the interrupt handler
  serves a compute unit, a slot or the CDMA. The host protocol is in the premises: a configure
  command only arrives when no slot is running, and a slot interrupt only for a slot that is not
  running.
\<close>

inductive ert_step :: "'b hw \<Rightarrow> u32 \<Rightarrow> 'b ert \<Rightarrow> 'b ert \<Rightarrow> bool" for B version where
  world: "ert_step B version s (s\<lparr>bus := b\<rparr>)"
| free: "i < num_slots s \<Longrightarrow> phase_free B i s = Some (r, t) \<Longrightarrow> ert_step B version s t"
| new: "i < num_slots s \<Longrightarrow> slot_status s i = 1 \<longrightarrow> configure_quiet s i \<Longrightarrow>
    phase_new B version i s = Some (r, t) \<Longrightarrow> ert_step B version s t"
| queued: "i < num_slots s \<Longrightarrow> phase_queued B i s = Some (r, t) \<Longrightarrow> ert_step B version s t"
| running: "i < num_slots s \<Longrightarrow> phase_running B i s = Some (r, t) \<Longrightarrow> ert_step B version s t"
| dataflow: "dataflow_enabled s \<noteq> 0 \<Longrightarrow> dataflow_slot B i s = Some t \<Longrightarrow> ert_step B version s t"
| dataflow_kds30: "dataflow_enabled s \<noteq> 0 \<Longrightarrow> dataflow_kds30_slot B i s = Some t \<Longrightarrow> ert_step B version s t"
| irq_cu: "dataflow_enabled s = 0 \<Longrightarrow> isr_cu B c s = Some t \<Longrightarrow> ert_step B version s t"
| irq_slot: "slot_status s i \<noteq> 3 \<Longrightarrow> free_to_new B i s = Some (r, t) \<Longrightarrow> ert_step B version s t"
| irq_cdma: "dataflow_enabled s = 0 \<Longrightarrow> num_cus s \<noteq> 0 \<Longrightarrow> isr_cdma B s = Some t \<Longrightarrow> ert_step B version s t"

text \<open>The states after the first \<^verbatim>\<open>setup\<close> of the loop.\<close>

definition ert_init :: "'b hw \<Rightarrow> 'b ert \<Rightarrow> bool" where
  "ert_init B s \<longleftrightarrow> (\<exists>b. ert_setup B (setup_ert_base_addr (ert_boot b)) = Some s)"

lemma ert_init_inv: "ert_init B s \<Longrightarrow> ert_inv s"
  by (auto simp: ert_init_def quiet_def running_def setup_ert_base_addr_def ert_boot_def dest!: setup_inv)

lemma ert_step_inv: "ert_step B version s t \<Longrightarrow> ert_inv s \<Longrightarrow> ert_inv t"
proof (induction rule: ert_step.induct)
  case (free i s r t)
  then show ?case by (auto simp: phase_free_def intro: free_to_new_inv split: if_splits)
next
  case (new i s r t)
  then show ?case by (auto simp: phase_new_def intro: new_to_queued_inv split: if_splits)
next
  case (queued i s r t)
  then show ?case by (auto simp: phase_queued_def intro: queued_to_running_inv split: if_splits)
next
  case (running i s r t)
  then show ?case by (auto simp: phase_running_def intro: running_to_free_inv split: if_splits)
qed (auto intro: free_to_new_inv dataflow_inv dest: isr_cu_inv isr_cdma_inv dataflow_slot_limits
  dataflow_kds30_slot_limits)

interpretation ert: transition_system "ert_init B" "ert_step B version" ert_inv
  by unfold_locales (auto intro: ert_init_inv ert_step_inv)

lemma phase_free_slots: "phase_free B i s = Some (r, t) \<Longrightarrow> num_slots t = num_slots s"
  by (auto simp: phase_free_def free_to_new_def monad_simps upd_slot_def write_reg_def split: if_splits)

lemma phase_new_slots:
  "phase_new B version i s = Some (True, t) \<Longrightarrow> num_slots t = num_slots s"
  by (auto simp: phase_new_def new_to_queued_def monad_simps upd_slot_def split: if_splits)

lemma phase_queued_slots:
  "phase_queued B i s = Some (r, t) \<Longrightarrow> num_slots t = num_slots s"
  by (auto simp: phase_queued_def same_view_def dest!: queued_to_running_cases split: if_splits)

lemma normal_slot_steps:
  assumes "normal_slot B version i s = Some t" and "i < num_slots s"
    and "\<And>u. phase_free B i s = Some (True, u) \<Longrightarrow> slot_status u i = 1 \<Longrightarrow> configure_quiet u i"
  shows "(ert_step B version)\<^sup>*\<^sup>* s t"
proof -
  from assms(1) obtain g u where u: "phase_free B i s = Some (g, u)"
    and gt: "(if \<not> g then Some u else do {
       (go, s) \<leftarrow> phase_new B version i u;
       if \<not> go then Some s else do {
         (go, s) \<leftarrow> phase_queued B i s;
         if \<not> go then Some s else do { (_, s) \<leftarrow> phase_running B i s; Some s } } }) = Some t"
    by (auto simp: normal_slot_def Option.bind_eq_Some_conv)
  have su: "(ert_step B version)\<^sup>*\<^sup>* s u" using ert_step.free [OF assms(2) u] by blast
  show ?thesis
  proof (cases g)
    case False
    with gt su show ?thesis by simp
  next
    case True
    with gt obtain h v where v: "phase_new B version i u = Some (h, v)"
      and ht: "(if \<not> h then Some v else do {
         (go, s) \<leftarrow> phase_queued B i v;
         if \<not> go then Some s else do { (_, s) \<leftarrow> phase_running B i s; Some s } }) = Some t"
      by (auto simp: Option.bind_eq_Some_conv)
    have nu: "i < num_slots u" using assms(2) phase_free_slots [OF u] by simp
    have "ert_step B version u v"
      by (rule ert_step.new [OF nu _ v]) (use assms(3) [of u] u True in simp)
    with su have sv: "(ert_step B version)\<^sup>*\<^sup>* s v" by (rule rtranclp.rtrancl_into_rtrancl)
    show ?thesis
    proof (cases h)
      case False
      with ht sv show ?thesis by simp
    next
      case True
      with v have nv: "i < num_slots v" using nu phase_new_slots [of B version i u v] by simp
      from True ht obtain k w where w: "phase_queued B i v = Some (k, w)"
        and kt: "(if \<not> k then Some w else do { (_, s) \<leftarrow> phase_running B i w; Some s }) = Some t"
        by (auto simp: Option.bind_eq_Some_conv)
      have sw: "(ert_step B version)\<^sup>*\<^sup>* s w"
        using sv ert_step.queued [OF nv w] by (rule rtranclp.rtrancl_into_rtrancl)
      have nw: "i < num_slots w" using nv phase_queued_slots [OF w] by simp
      from kt sw show ?thesis
        by (auto simp: Option.bind_eq_Some_conv split: if_splits
            intro: rtranclp.rtrancl_into_rtrancl ert_step.running [OF nw])
    qed
  qed
qed

end
