(* ===== verification/Ert_Correct.thy ===== *)
theory Ert_Correct
  imports Ert_Invariant
begin

unbundle bit_operations_syntax

text \<open>
  The properties of the scheduler firmware: agreement with the packet layout the drivers use,
  register map transfer, the life cycle of a slot, completion and abort, and exclusive use of the
  compute units in every reachable state.
\<close>

section \<open>Packets as the firmware and the drivers read them\<close>

lemma decode_fields:
  "opcode h = pkt_opcode h" "cmd_type h = pkt_type h" "payload_size h = pkt_count h"
  "cu_masks h = 1 + pkt_extra_cu_masks h"
  by (simp_all add: opcode_def cmd_type_def payload_size_def cu_masks_def pkt_field_defs
      bits_eq_and_mask mask_eq_exp_minus_1)

lemma unat_regmap_size:
  assumes "1 + hdr_extra p \<le> hdr_count p"
  shows "unat (regmap_size (p 0)) = hdr_count p - 1 - hdr_extra p"
proof -
  have "unat (cu_masks (p 0)) = 1 + hdr_extra p"
    using hdr_extra_less [of p] by (simp add: decode_fields unat_word_ariths)
  with assms show ?thesis
    by (simp add: regmap_size_def decode_fields(3) unat_sub_if_size word_le_nat_alt)
qed

text \<open>
  For every start-kernel or exec-write packet that the driver accepts, the firmware decodes
  the same opcode and type, and the register map it copies to the compute unit starts at the same
  word and has the same size as the one the driver computes.
\<close>

theorem firmware_regmap_agrees:
  assumes "ert_valid_opcode p" and "hdr_opcode p \<in> {opcode_val ERT_START_CU, opcode_val ERT_EXEC_WRITE}"
  shows "opcode (p 0) = hdr_opcode p \<and> cmd_type (p 0) = pkt_type (p 0) \<and>
    regmap_section_addr (p 0) a = a + 4 * word_of_nat (get_ert_regmap_begin p) \<and>
    4 * unat (regmap_size (p 0)) = unat (get_ert_regmap_size_bytes p)"
proof -
  have b: "get_ert_regmap_begin p = 2 + hdr_extra p"
    using assms(2) by (auto simp: get_ert_regmap_begin_def Let_def)
  have c: "1 + hdr_extra p \<le> hdr_count p"
    using assms by (auto simp: ert_valid_opcode_def Let_def)
  have "unat (get_ert_regmap_size_bytes p) = 4 * (hdr_count p - 1 - hdr_extra p)"
    unfolding unat_regmap_size_bytes using b c by (simp add: get_ert_regmap_end_def)
  with unat_regmap_size [of p, OF c] b show ?thesis
    by (simp add: decode_fields regmap_section_addr_def cu_section_addr_def)
qed

theorem firmware_regmap_agrees_witness:
  "regmap_section_addr 0x5001 0x190000 = 0x190008 \<and>
   4 * unat (regmap_size 0x5001) = unat (get_ert_regmap_size_bytes (\<lambda>_. 0x5001))"
proof -
  have v: "ert_valid_opcode (\<lambda>_. 0x5001)" by code_simp
  have o: "hdr_opcode (\<lambda>_. 0x5001) \<in> {opcode_val ERT_START_CU, opcode_val ERT_EXEC_WRITE}"
    by (simp add: pkt_field_defs bits_def)
  show ?thesis
    using firmware_regmap_agrees [OF v o, of "0x190000"]
    by (simp add: regmap_section_addr_def cu_section_addr_def cu_masks_def)
qed

section \<open>Masks\<close>

text \<open>Shifting 1 left by less than the word size is what the language defines.\<close>

definition shl1_defined :: "'b hw \<Rightarrow> bool" where
  "shl1_defined B \<longleftrightarrow> (\<forall>k < 32. hw_shl1 B k = push_bit (unat k) 1)"

lemma mask_index:
  fixes idx m :: u32
  assumes "idx < 128" and "m < 4"
  shows "idx_in_mask idx m \<longleftrightarrow> unat idx < 32 * unat m + 32"
    and "32 * m \<le> idx \<longleftrightarrow> 32 * unat m \<le> unat idx"
    and "32 * unat m \<le> unat idx \<Longrightarrow> unat (idx - push_bit 5 m) = unat idx - 32 * unat m"
    and "unat idx < 32 * unat m \<Longrightarrow> 32 \<le> idx - push_bit 5 m"
proof -
  have i: "unat idx < 128" and m: "unat m < 4" using assms by (simp_all add: word_less_nat_alt)
  have p: "push_bit 5 x = 32 * x" for x :: u32 by (simp add: push_bit_eq_mult)
  have m1: "unat (32 * (m + 1)) = 32 * unat m + 32" and m2: "unat (32 * m) = 32 * unat m"
    using m by (simp_all add: unat_word_ariths)
  show "idx_in_mask idx m \<longleftrightarrow> unat idx < 32 * unat m + 32"
    by (simp only: idx_in_mask_def p word_less_nat_alt m1)
  show "32 * m \<le> idx \<longleftrightarrow> 32 * unat m \<le> unat idx"
    by (simp only: word_le_nat_alt m2)
  show "unat (idx - push_bit 5 m) = unat idx - 32 * unat m" if "32 * unat m \<le> unat idx"
    using that by (simp add: p unat_sub_if_size m2 word_le_nat_alt)
  show "32 \<le> idx - push_bit 5 m" if "unat idx < 32 * unat m"
    using that m by (simp add: p unat_sub_if_size m2 word_le_nat_alt word_size)
qed

text \<open>
  The bit of a compute unit or slot in a 32-bit mask register: from the first index the
  register covers on, \<open>idx_to_mask\<close> is the bit of the index if the register covers it and 0 if
  it lies beyond. Below the first index there is no guard: the shift count wraps to a value
  outside 0..31.
\<close>

theorem idx_to_mask_spec:
  assumes "shl1_defined B" and "idx < 128" and "m < 4"
  shows "(32 * m \<le> idx \<longrightarrow> idx_to_mask B idx m =
      (if unat idx div 32 = unat m then push_bit (unat idx mod 32) 1 else 0)) \<and>
    (idx < 32 * m \<longrightarrow> idx_to_mask B idx m = hw_shl1 B (idx - push_bit 5 m) \<and> 32 \<le> idx - push_bit 5 m)"
proof (cases "32 * unat m \<le> unat idx")
  case True
  note k = mask_index [OF assms(2,3)]
  have "idx - push_bit 5 m < 32 \<longleftrightarrow> unat idx div 32 = unat m"
    and "unat idx div 32 = unat m \<Longrightarrow> unat idx - 32 * unat m = unat idx mod 32"
    and "unat idx < 32 * unat m + 32 \<longleftrightarrow> unat idx div 32 = unat m"
    using True k(3) by (auto simp: word_less_nat_alt modulo_nat_def)
  with True k show ?thesis using assms(1) by (auto simp: idx_to_mask_def shl1_defined_def)
next
  case False
  with mask_index [OF assms(2,3)] show ?thesis by (auto simp: idx_to_mask_def)
qed

definition ram_hw :: "(u32 \<Rightarrow> u32) hw" where
  "ram_hw = \<lparr>hw_read = \<lambda>a b. (b a, b), hw_write = \<lambda>a v b. b(a := v), hw_shl1 = \<lambda>k. push_bit (unat k) 1,
     microblaze_enable_interrupts = \<lambda>b. b, microblaze_disable_interrupts = \<lambda>b. b\<rparr>"

theorem idx_to_mask_spec_witness:
  "idx_to_mask ram_hw 37 1 = 0x20 \<and> idx_to_mask ram_hw 37 0 = 0 \<and> (32 :: u32) \<le> 5 - push_bit 5 1"
proof -
  have "shl1_defined ram_hw" by (simp add: shl1_defined_def ram_hw_def)
  from idx_to_mask_spec [OF this, of 37 1] idx_to_mask_spec [OF this, of 37 0]
    idx_to_mask_spec [OF this, of 5 1] show ?thesis by simp
qed

section \<open>Register map transfer\<close>

text \<open>A bus behind which every address is a plain memory cell.\<close>

definition flat_bus :: "'b hw \<Rightarrow> ('b \<Rightarrow> u32 \<Rightarrow> u32) \<Rightarrow> bool" where
  "flat_bus B peek \<longleftrightarrow> (\<forall>a b. hw_read B a b = (peek b a, b)) \<and>
     (\<forall>a v b. peek (hw_write B a v b) = (peek b)(a := v))"

lemma flat_bus_simps:
  "flat_bus B peek \<Longrightarrow> read_reg B a s = (peek (bus s) a, s)"
  "flat_bus B peek \<Longrightarrow> peek (bus (write_reg B a v s)) = (peek (bus s))(a := v)"
  by (simp_all add: flat_bus_def write_reg_def)

lemma push_bit_2_inj:
  fixes k j n :: u32
  assumes "k < n" and "j < n" and "n \<le> 0x40000000" and "push_bit 2 k = push_bit 2 j"
  shows "k = j"
proof -
  have "unat n \<le> 0x40000000" using assms(3) by (simp add: word_le_nat_alt)
  then have "unat (push_bit 2 k) = 4 * unat k" "unat (push_bit 2 j) = 4 * unat j"
    using assms(1,2) by (simp_all add: push_bit_eq_mult unat_word_ariths word_less_nat_alt)
  with assms(4) show ?thesis by (simp add: word_unat_eq_iff)
qed

definition copy_word :: "'b hw \<Rightarrow> u32 \<Rightarrow> u32 \<Rightarrow> u32 \<Rightarrow> 'b ert \<Rightarrow> 'b ert" where
  "copy_word B ca ra idx s = (case read_reg B (ra + push_bit 2 idx) s of
     (v, s) \<Rightarrow> write_reg B (ca + push_bit 2 idx) v s)"

lemma copy_word_peek:
  "flat_bus B peek \<Longrightarrow> peek (bus (copy_word B ca ra idx s)) =
     (peek (bus s))(ca + push_bit 2 idx := peek (bus s) (ra + push_bit 2 idx))"
  unfolding copy_word_def by (simp only: flat_bus_simps prod.case)

lemma copy_loop:
  assumes B: "flat_bus B peek" and n: "n \<le> 0x40000000" and "distinct xs" and "\<forall>k \<in> set xs. k < n"
    and apart: "\<forall>k < n. \<forall>j < n. ca + push_bit 2 k \<noteq> ra + push_bit 2 j"
  shows "peek (bus (fold (copy_word B ca ra) xs s)) a =
    (if a \<in> (\<lambda>k. ca + push_bit 2 k) ` set xs then peek (bus s) (a - ca + ra) else peek (bus s) a)"
  using assms(3,4)
proof (induction xs arbitrary: s)
  case (Cons x xs)
  let ?m = "peek (bus (copy_word B ca ra x s))"
  note m = copy_word_peek [OF B, of ca ra x s]
  have IH: "peek (bus (fold (copy_word B ca ra) (x # xs) s)) a =
    (if a \<in> (\<lambda>k. ca + push_bit 2 k) ` set xs then ?m (a - ca + ra) else ?m a)"
    using Cons.IH [of "copy_word B ca ra x s"] Cons.prems by simp
  show ?case
  proof (cases "a \<in> (\<lambda>k. ca + push_bit 2 k) ` set xs")
    case True
    then obtain k where k: "a = ca + push_bit 2 k" "k \<in> set xs" by blast
    with Cons.prems apart have "ra + push_bit 2 k \<noteq> ca + push_bit 2 x"
      by (metis list.set_intros)
    with k have "?m (a - ca + ra) = peek (bus s) (a - ca + ra)"
      unfolding m by (simp add: add.commute)
    with True IH show ?thesis by simp
  next
    case False
    with IH m show ?thesis by (auto simp: add.commute)
  qed
qed simp

text \<open>
  C18: Starting a compute unit copies the register map: on a bus of plain memory cells, when the
  packet and the register file of the unit do not overlap, \<open>configure_cu\<close> leaves words 4 and up
  of the register map in the registers of the unit, the start bit in its control register and
  every other cell unchanged.
\<close>

theorem configure_cu_copies:
  assumes "flat_bus B peek" and "n \<le> 0x40000000"
    and "\<forall>k < n. \<forall>j < n. ca + push_bit 2 k \<noteq> ra + push_bit 2 j"
  shows "peek (bus (configure_cu B ca ra n s)) = (\<lambda>a.
    if a = ca then 1
    else if \<exists>k. 4 \<le> k \<and> k < n \<and> a = ca + push_bit 2 k then peek (bus s) (a - ca + ra)
    else peek (bus s) a)"
proof -
  have f: "(\<lambda>idx s. case read_reg B (ra + push_bit 2 idx) s of
      (v, s) \<Rightarrow> write_reg B (ca + push_bit 2 idx) v s) = copy_word B ca ra"
    by (intro ext) (simp only: copy_word_def)
  note l = copy_loop [OF assms(1,2) _ _ assms(3), of "upto_u32 4 n" s]
  show ?thesis
    unfolding configure_cu_def f flat_bus_simps(2) [OF assms(1)]
    by (rule ext) (auto simp: l)
qed

theorem configure_cu_copies_witness:
  "(let m = bus (configure_cu ram_hw 0x1000 0x2000 6 (ert_boot (\<lambda>a. a)))
    in m 0x1000 = 1 \<and> m 0x1010 = 0x2010 \<and> m 0x1014 = 0x2014 \<and> m 0x1018 = 0x1018)"
proof -
  have B: "flat_bus ram_hw (\<lambda>b. b)" by (simp add: flat_bus_def ram_hw_def)
  have lt: "unat (push_bit 2 k) < 24" if "k < 6" for k :: u32
    using that by (simp add: push_bit_eq_mult unat_word_ariths word_less_nat_alt)
  have "\<forall>k < 6. \<forall>j < 6. 0x1000 + push_bit 2 k \<noteq> 0x2000 + push_bit 2 (j :: u32)"
  proof (intro allI impI notI)
    fix k j :: u32 assume kj: "k < 6" "j < 6" "0x1000 + push_bit 2 k = 0x2000 + push_bit 2 j"
    have "unat (0x1000 + push_bit 2 k) = 0x1000 + unat (push_bit 2 k)"
      "unat (0x2000 + push_bit 2 j) = 0x2000 + unat (push_bit 2 j)"
      using lt [OF kj(1)] lt [OF kj(2)] by (simp_all add: unat_word_ariths)
    with kj(3) lt [OF kj(1)] show False by simp
  qed
  note c = configure_cu_copies [OF B _ this, of "ert_boot (\<lambda>a. a)"]
  have "\<exists>k. 4 \<le> k \<and> k < 6 \<and> 0x1010 = 0x1000 + push_bit 2 (k :: u32)"
    "\<exists>k. 4 \<le> k \<and> k < 6 \<and> 0x1014 = 0x1000 + push_bit 2 (k :: u32)"
    by (rule exI [of _ 4], simp) (rule exI [of _ 5], simp)
  moreover have "\<not> (\<exists>k. 4 \<le> k \<and> k < 6 \<and> 0x1018 = 0x1000 + push_bit 2 (k :: u32))"
    using lt by (fastforce dest!: arg_cong [where f = unat] simp: unat_word_ariths)
  ultimately show ?thesis using c by (simp add: ert_boot_def)
qed

section \<open>Termination of out-of-order configuration\<close>

lemma ooo_loop_total:
  assumes "n \<noteq> 0xFFFFFFFF"
  shows "\<exists>t. configure_cu_ooo_loop B ca ra n idx s = Some t"
proof (induction "unat n - unat idx" arbitrary: idx s rule: less_induct)
  case less
  show ?case
  proof (cases "idx < n")
    case True
    have "unat n \<noteq> unat (0xFFFFFFFF :: u32)" using assms by (metis word_unat_eq_iff)
    then have "unat n < 0xFFFFFFFF" using unsigned_less [of n, where ?'a = nat] by simp
    with True have "unat (idx + 2) = unat idx + 2" by (simp add: unat_word_ariths word_less_nat_alt)
    with True have "unat n - unat (idx + 2) < unat n - unat idx" by (simp add: word_less_nat_alt)
    from less [OF this] True show ?thesis
      by (subst configure_cu_ooo_loop.simps) simp
  qed (subst configure_cu_ooo_loop.simps, simp)
qed

lemma ooo_loop_diverges:
  assumes "even (unat idx)"
  shows "configure_cu_ooo_loop B ca ra 0xFFFFFFFF idx s = None"
proof -
  have "configure_cu_ooo_loop B ca ra n idx s = Some t \<Longrightarrow> n = 0xFFFFFFFF \<longrightarrow> odd (unat idx)" for n t
  proof (erule configure_cu_ooo_loop.raw_induct [where P = "\<lambda>B ca ra n idx s t. n = 0xFFFFFFFF \<longrightarrow> odd (unat idx)", rotated])
    fix f B ca ra n idx s t
    assume IH: "\<And>(B :: 'a hw) ca ra n idx s t. f B ca ra n idx s = Some t \<Longrightarrow> n = 0xFFFFFFFF \<longrightarrow> odd (unat idx)"
      and r: "(if idx < n then
        case read_reg B (ra + push_bit 2 idx) s of (off, s) \<Rightarrow>
        case read_reg B (ra + push_bit 2 (idx + 1)) s of (v, s) \<Rightarrow>
        f B ca ra n (idx + 2) (write_reg B (ca + off) v s)
      else Some s) = Some t"
    show "n = 0xFFFFFFFF \<longrightarrow> odd (unat idx)"
    proof
      assume n: "n = 0xFFFFFFFF"
      have e: "even (unat (idx + 2)) = even (unat idx)"
        by (simp add: unat_word_ariths dvd_mod_iff)
      show "odd (unat idx)"
      proof (cases "idx < n")
        case True
        with r have "\<exists>u. f B ca ra n (idx + 2) u = Some t" by auto
        with IH n e show ?thesis by blast
      next
        case False
        then have "unat idx = 0xFFFFFFFF"
          using n unsigned_less [of idx, where ?'a = nat] by (simp add: word_less_nat_alt)
        then show ?thesis by simp
      qed
    qed
  qed
  with assms show ?thesis by (cases "configure_cu_ooo_loop B ca ra 0xFFFFFFFF idx s") auto
qed

text \<open>
  C28: The address/value loop of an exec-write command returns for every packet except one whose
  payload is one word shorter than its compute unit masks; there the register map size wraps to
  the largest 32-bit number and the loop never ends.
\<close>

theorem configure_cu_ooo_returns:
  "configure_cu_ooo B ca ra (regmap_size h) s = None \<longleftrightarrow> payload_size h + 1 = cu_masks h"
proof -
  have "regmap_size h = 0xFFFFFFFF \<longleftrightarrow> payload_size h + 1 = cu_masks h"
  proof -
    have m: "(0xFFFFFFFF :: u32) = - 1" by code_simp
    have "regmap_size h = 0xFFFFFFFF \<longleftrightarrow> payload_size h - cu_masks h = - 1"
      unfolding regmap_size_def m by (rule refl)
    also have "\<dots> \<longleftrightarrow> payload_size h = cu_masks h - 1" by (simp only: diff_eq_eq uminus_add_conv_diff)
    also have "\<dots> \<longleftrightarrow> payload_size h + 1 = cu_masks h" by (simp only: eq_diff_eq)
    finally show ?thesis .
  qed
  then show ?thesis
    using ooo_loop_total [of "regmap_size h" B ca ra 0 s] ooo_loop_diverges [of 0 B ca ra s]
    by (auto simp: configure_cu_ooo_def)
qed

section \<open>The life cycle of a slot\<close>

text \<open>The status of a slot moves along free (4), new (1), queued (2), running (3), free.\<close>

definition lifecycle :: "u32 \<Rightarrow> u32 \<Rightarrow> bool" where
  "lifecycle a b \<longleftrightarrow> a = b \<or> (a, b) \<in> {(4, 1), (1, 2), (1, 4), (2, 3), (3, 4)}"

lemma slot_status_upd [simp]:
  "slot_status (upd_slot i (set_slot_status 4) s) i = 4"
  by (simp add: slot_status_def upd_slot_def)

lemma same_view_status: "same_view s t \<Longrightarrow> slot_status t i = slot_status s i"
  by (simp add: same_view_def slot_status_def)

lemma configure_mb_status: "configure_mb B i s = Some (r, t) \<Longrightarrow> slot_status t i = 4"
  by (auto simp: configure_mb_def monad_simps)

lemma cu_stat_status: "cu_stat B version i s = Some (r, t) \<Longrightarrow> slot_status t i = 4"
  by (auto simp: cu_stat_def monad_simps case_prod_unfold)

lemma exit_mb_status: "exit_mb B i s = Some (r, t) \<Longrightarrow> slot_status t i = 4"
  by (auto simp: exit_mb_def monad_simps slot_status_def upd_slot_def write_reg_def)

lemma special_status:
  assumes "process_special_command B version opc i s = Some (r, t)" and "slot_status s i = 1"
  shows "slot_status t i \<in> {1, 4}"
proof -
  have "slot_status t i = 1" if "abort_mb B i s = Some (r, t)"
    using abort_mb_cases [OF that] assms(2)
    by (auto simp: same_view_def slot_status_def running_def split: if_splits)
  with assms show ?thesis
    by (auto simp: process_special_command_def split: if_splits
        dest: configure_mb_status cu_stat_status exit_mb_status)
qed

lemma phase_new_lifecycle:
  assumes "phase_new B version i s = Some (r, t)"
  shows "lifecycle (slot_status s i) (slot_status t i)"
proof (cases "slot_status s i = 1")
  case True
  let ?h = "header_value (command_slots s i)"
  let ?u = "upd_slot i (\<lambda>sl. sl\<lparr>s_opcode := opcode ?h\<rparr>) s"
  have u: "slot_status ?u i = 1" using True by (simp add: slot_status_def upd_slot_def)
  show ?thesis
  proof (cases "cmd_type ?h = type_val ERT_CU")
    case False
    with True assms obtain r' where "process_special_command B version (opcode ?h) i ?u = Some (r', t)"
      by (auto simp: phase_new_def new_to_queued_def monad_simps)
    from special_status [OF this u] True show ?thesis by (auto simp: lifecycle_def)
  next
    case cu: True
    with True assms show ?thesis
      by (auto simp: phase_new_def new_to_queued_def monad_simps slot_status_def upd_slot_def lifecycle_def)
  qed
next
  case False
  with assms show ?thesis by (simp add: phase_new_def lifecycle_def)
qed


text \<open>
  A concrete run on plain memory: after setup the host writes a start-kernel packet for compute
  unit 2 into slot 1, and the loop executes one iteration for that slot.
\<close>

definition start_pkt :: "u32 \<Rightarrow> u32" where
  "start_pkt a = (if a = 0x191000 then 0x30005001 else if a = 0x191004 then 2 else 0)"

definition idle_run :: "(u32 \<Rightarrow> u32) ert option" where
  "idle_run = map_option (\<lambda>s. s\<lparr>bus := start_pkt\<rparr>) (ert_setup ram_hw (setup_ert_base_addr (ert_boot (\<lambda>_. 0))))"

definition start_run :: "(u32 \<Rightarrow> u32) ert option" where
  "start_run = Option.bind idle_run (normal_slot ram_hw 0 1)"

lemma start_run_facts:
  "map_option (\<lambda>t. (slot_status t 1, s_cu_idx (command_slots t 1), cu_status t 2, cu_slot_usage t 2,
     num_slots t, cu_interrupt_mask t 2, dataflow_enabled t)) start_run = Some (3, 2, True, 1, 16, False, 0)"
  by code_simp


section \<open>Setup\<close>

lemma forM_upto_total:
  assumes "n \<le> m" and "\<And>i s. i < m \<Longrightarrow> P s \<Longrightarrow> \<exists>t. f i s = Some t \<and> P t" and "P s"
  shows "\<exists>t. forM f (upto_u32 0 n) s = Some t \<and> P t"
  by (rule forM_total) (use assms in auto)

lemma setup_lut_total: "n \<le> max_cus \<Longrightarrow> \<exists>t. forM (setup_lut B) (upto_u32 0 n) s = Some t"
  using forM_upto_total [of n max_cus "\<lambda>_. True" "setup_lut B" s]
  by (auto simp: setup_lut_def cu_idx_to_addr_def rd_arr_def)

lemma setup_registers_total: "num_cus s \<le> max_cus \<Longrightarrow> \<exists>t. setup_registers B s = Some t"
  by (simp add: setup_registers_def Let_def setup_lut_total write_reg_def)

lemma setup_cu_interrupts_total:
  assumes "num_cus s \<le> max_cus"
  shows "\<exists>t. setup_cu_interrupts B s = Some t"
proof -
  have *: "\<exists>t. forM (setup_cu_interrupt B en) (upto_u32 0 (num_cus s)) u = Some t \<and> True" for en u
    by (rule forM_upto_total [OF assms])
      (auto simp: setup_cu_interrupt_def cu_idx_to_addr_def cu_idx_to_ctrl_def rd_arr_def Let_def)
  let ?s = "s\<lparr>cu_interrupt_mask := \<lambda>_. False\<rparr>"
  from * [of 1 ?s] * [of 0 ?s] show ?thesis by (auto simp: setup_cu_interrupts_def Let_def)
qed

lemma setup_total:
  assumes "setup_num_slots s = Some n" and "n \<le> max_slots" and "num_cus s \<le> max_cus"
  shows "\<exists>t. ert_setup B s = Some t"
proof -
  have slots: "\<exists>t. forM (setup_slot B) (upto_u32 0 n) u = Some t \<and> True" for u
    by (rule forM_upto_total [OF assms(2)]) (auto simp: setup_slot_def rd_arr_def Let_def)
  have usage: "\<exists>t. forM setup_cu_usage (upto_u32 0 (num_cus s)) u = Some t \<and> True" for u
    by (rule forM_upto_total [OF assms(3)]) (auto simp: setup_cu_usage_def wr_arr_def)
  let ?s = "s\<lparr>num_slots := n, num_slot_masks := drop_bit 5 (n - 1) + 1,
     num_cu_masks := drop_bit 5 (num_cus s - 1) + 1\<rparr>"
  obtain u where u: "forM (setup_slot B) (upto_u32 0 n) ?s = Some u" using slots by blast
  have nu: "num_cus u = num_cus s" using setup_slots_post [OF u] by (simp add: same_config_def)
  let ?u = "(fold (\<lambda>i s. snd (read_reg B (STATUS_REGISTER_ADDR s i) s)) [0, 1, 2, 3] u)
    \<lparr>cu_status := (\<lambda>_. False), slot_submitted := (\<lambda>_. False)\<rparr>"
  obtain v where v: "forM setup_cu_usage (upto_u32 0 (num_cus s)) ?u = Some v" using usage by blast
  have nv: "num_cus v = num_cus s" using setup_cu_usage_post [OF v] nu by (simp add: same_config_def)
  obtain w where w: "setup_registers B v = Some w" using setup_registers_total [of v] nv assms(3) by auto
  have "num_cus w = num_cus s" using setup_registers_view [OF w] nv by (simp add: same_view_def)
  then obtain x where x: "setup_cu_interrupts B w = Some x"
    using setup_cu_interrupts_total [of w B] assms(3) by fastforce
  from assms(1) u v w x nu show ?thesis
    by (simp add: ert_setup_def Let_def case_prod_unfold)
qed

text \<open>
  C24: Setup always succeeds for a supported configuration (at most 128 compute units and slots)
  and leaves a clean scheduler: every slot is free, no compute unit is busy or in use by a slot,
  and interrupts are only expected from configured units.
\<close>

theorem setup_establishes:
  assumes "setup_num_slots s = Some n" and "n \<le> max_slots" and "num_cus s \<le> max_cus"
  shows "\<exists>t. ert_setup B s = Some t \<and> num_slots t = n \<and> num_cus t = num_cus s \<and>
    (\<forall>i < n. slot_status t i = 4) \<and> (\<forall>c. \<not> cu_status t c) \<and>
    (\<forall>c < num_cus s. cu_slot_usage t c = no_index) \<and> (\<forall>c. cu_interrupt_mask t c \<longrightarrow> c < num_cus s)"
proof -
  have "\<exists>t. ert_setup B s = Some t" using assms by (rule setup_total)
  then obtain t where t: "ert_setup B s = Some t" by blast
  from setup_post [OF t] assms(1) t show ?thesis
    by (auto simp: same_config_def slot_status_def)
qed

theorem setup_establishes_witness:
  "\<exists>t. ert_setup ram_hw (ert_boot (\<lambda>_. 0)) = Some t \<and> num_slots t = 16 \<and> (\<forall>i < 16. slot_status t i = 4)"
proof -
  have "setup_num_slots (ert_boot (\<lambda>_. 0 :: u32) :: (u32 \<Rightarrow> u32) ert) = Some 16" by code_simp
  from setup_establishes [OF this, of ram_hw] show ?thesis
    by (auto simp: max_slots_def max_cus_def ert_boot_def)
qed

section \<open>Starting, completing and aborting\<close>

lemma mask_register_index: "i < max_slots \<Longrightarrow> drop_bit 5 i < (4 :: u32)"
  by (simp add: max_slots_def word_less_nat_alt unat_drop_bit_eq) (simp add: drop_bit_eq_div)

lemma start_cu_configure_defined:
  assumes "i < max_slots" and "s_cu_idx sl < max_cus" and "s_regmap_size sl \<noteq> 0xFFFFFFFF"
  shows "\<exists>t. start_cu_configure B i sl ca s = Some t"
proof -
  have "drop_bit 5 i < 4" using assms(1) by (rule mask_register_index)
  then have "\<exists>t. configure_cu_dma B (s_cu_idx sl) i (slot_addr sl) s = Some t"
    using assms(2) by (auto simp: configure_cu_dma_def monad_simps cu_idx_to_addr_def)
  moreover have "\<exists>t. configure_cu_ooo B ca (s_regmap_addr sl) (s_regmap_size sl) s = Some t"
    using ooo_loop_total [OF assms(3)] by (fastforce simp: configure_cu_ooo_def)
  ultimately show ?thesis by (simp add: start_cu_configure_def)
qed

lemma start_cu_defined:
  assumes "i < max_slots" and "s_cu_idx (command_slots s i) < max_cus"
    and "s_regmap_size (command_slots s i) \<noteq> 0xFFFFFFFF"
  shows "\<exists>r t. start_cu B i s = Some (r, t)"
proof -
  obtain u where "start_cu_configure B i (command_slots s i)
      (CU_ADDR (cu_addr_map s (s_cu_idx (command_slots s i)))) s = Some u"
    using start_cu_configure_defined [of i "command_slots s i"] assms by blast
  with assms show ?thesis
    by (simp add: start_cu_def cu_idx_to_addr_def set_cu_info_def rd_arr_def wr_arr_def Let_def)
qed


definition queued_run :: "(u32 \<Rightarrow> u32) ert option" where
  "queued_run = do { s \<leftarrow> idle_run; (_, s) \<leftarrow> phase_free ram_hw 1 s; (_, s) \<leftarrow> phase_new ram_hw 0 1 s; Some s }"



text \<open>The concrete run is an execution of the step relation.\<close>

lemma start_run_steps:
  obtains s t where "ert_init ram_hw s" and "ert_step ram_hw 0 s (s\<lparr>bus := start_pkt\<rparr>)"
    and "num_slots s = 16" and "dataflow_enabled s = 0"
    and "normal_slot ram_hw 0 1 (s\<lparr>bus := start_pkt\<rparr>) = Some t" and "start_run = Some t"
    and "\<And>u. phase_free ram_hw 1 (s\<lparr>bus := start_pkt\<rparr>) = Some (True, u) \<Longrightarrow> configure_quiet u 1"
proof -
  have "map_option (\<lambda>s. (num_slots s, dataflow_enabled s,
      map_option (\<lambda>(r, t). header_value (command_slots t 1)) (phase_free ram_hw 1 s)))
    idle_run = Some (16, 0, Some 0x30005001)" by code_simp
  then obtain s where s: "ert_setup ram_hw (setup_ert_base_addr (ert_boot (\<lambda>_. 0))) = Some s"
    and p: "num_slots s = 16" "dataflow_enabled s = 0" "map_option (\<lambda>(r, t). header_value (command_slots t 1))
      (phase_free ram_hw 1 (s\<lparr>bus := start_pkt\<rparr>)) = Some 0x30005001"
    by (auto simp: idle_run_def)
  obtain t where t: "start_run = Some t" using start_run_facts by auto
  then have n: "normal_slot ram_hw 0 1 (s\<lparr>bus := start_pkt\<rparr>) = Some t"
    using s by (simp add: start_run_def idle_run_def)
  have "configure_quiet u 1" if "phase_free ram_hw 1 (s\<lparr>bus := start_pkt\<rparr>) = Some (True, u)" for u
  proof -
    have "header_value (command_slots u 1) = 0x30005001" using that p(3) by simp
    then show ?thesis by (simp add: configure_quiet_def cmd_type_def)
  qed
  moreover have "ert_init ram_hw s" using s by (auto simp: ert_init_def)
  ultimately show thesis using p(1,2) n t by (intro that ert_step.world)
qed

lemma start_run_reachable: "\<exists>s t. ert_init ram_hw s \<and> (ert_step ram_hw 0)\<^sup>*\<^sup>* s t \<and> start_run = Some t"
proof -
  obtain s t where s: "ert_init ram_hw s" "ert_step ram_hw 0 s (s\<lparr>bus := start_pkt\<rparr>)" "num_slots s = 16"
    and n: "normal_slot ram_hw 0 1 (s\<lparr>bus := start_pkt\<rparr>) = Some t" and t: "start_run = Some t"
    and c: "\<And>u. phase_free ram_hw 1 (s\<lparr>bus := start_pkt\<rparr>) = Some (True, u) \<Longrightarrow> configure_quiet u 1"
    by (rule start_run_steps) blast
  have "(ert_step ram_hw 0)\<^sup>*\<^sup>* (s\<lparr>bus := start_pkt\<rparr>) t"
    by (rule normal_slot_steps [OF n]) (use s(3) c in auto)
  with s(2) have "(ert_step ram_hw 0)\<^sup>*\<^sup>* s t" by (rule converse_rtranclp_into_rtranclp)
  with s(1) t show ?thesis by blast
qed

lemma start_run_state:
  obtains s t where "ert_init ram_hw s" and "(ert_step ram_hw 0)\<^sup>*\<^sup>* s t" and "start_run = Some t"
    and "slot_status t 1 = 3" and "s_cu_idx (command_slots t 1) = 2" and "cu_status t 2"
    and "cu_slot_usage t 2 = 1" and "\<not> cu_interrupt_mask t 2" and "dataflow_enabled t = 0"
proof -
  obtain s t where st: "ert_init ram_hw s" "(ert_step ram_hw 0)\<^sup>*\<^sup>* s t" "start_run = Some t"
    using start_run_reachable by blast
  show thesis by (rule that [OF st]) (use start_run_facts [unfolded st(3)] in simp_all)
qed


text \<open>
  C17: Completion by interrupt: when a busy compute unit whose interrupt is enabled raises it, the
  handler retires the command in the slot that uses the unit, and only that one.
\<close>

theorem interrupt_completes:
  assumes "ert_inv s" and "dataflow_enabled s = 0" and "cu_interrupt_mask s c" and "cu_status s c"
    and "i = cu_slot_usage s c"
  shows "\<exists>t. isr_cu B c s = Some t \<and> slot_status s i = 3 \<and> slot_status t i = 4 \<and>
    cu_status t = (cu_status s)(c := False) \<and> cu_slot_usage t = (cu_slot_usage s)(c := no_index) \<and>
    (\<forall>j. j \<noteq> i \<longrightarrow> command_slots t j = command_slots s j)"
proof -
  have c: "c < max_cus" using assms(1,3) by (auto simp: ert_inv_def)
  with assms have i: "i < max_slots" "slot_status s i = 3"
    by (auto simp: ert_inv_def slots_inv_def running_status)
  then have "drop_bit 5 i < 4" by (intro mask_register_index)
  with assms(3-5) c i show ?thesis
    by (simp add: isr_cu_def check_command_def notify_host_def write_reg_def
        toggle_def slot_status_def upd_slot_def rd_arr_def Let_def)
qed

theorem interrupt_completes_witness:
  "\<exists>s t. start_run = Some s \<and> isr_cu ram_hw 2 (s\<lparr>cu_interrupt_mask := \<lambda>c. c = 2\<rparr>) = Some t \<and>
     slot_status t 1 = 4 \<and> \<not> cu_status t 2"
proof -
  obtain s t where st: "ert_init ram_hw s" "(ert_step ram_hw 0)\<^sup>*\<^sup>* s t" "start_run = Some t"
    "cu_slot_usage t 2 = 1" "cu_status t 2" "dataflow_enabled t = 0"
    by (rule start_run_state)
  have "num_cus t = 3"
  proof -
    have "map_option num_cus start_run = Some 3" by code_simp
    then show ?thesis unfolding st(3) by simp
  qed
  with ert.inv_reachable [OF st(1,2)] have "ert_inv (t\<lparr>cu_interrupt_mask := \<lambda>c. c = 2\<rparr>)"
    by (simp add: ert_inv_def)
  from interrupt_completes [OF this, of 2 1 ram_hw] st show ?thesis
    by (auto simp: slot_status_def)
qed



text \<open>
  C27: Aborting a running kernel command frees its slot and its compute unit, so both can be used
  again. The abort command itself is not retired: its own slot stays in the new state.
\<close>

theorem abort_frees_target:
  assumes "ert_inv s" and "dataflow_enabled s = 0" and "slot_status s i = 1" and "i < max_slots"
    and "k = abort_target (header_value (command_slots s i))" and "k < max_slots" and "slot_status s k = 3"
    and "opcode (header_value (command_slots s k)) = opcode_val ERT_START_CU"
    and "c = s_cu_idx (command_slots s k)"
  shows "\<exists>t. abort_mb B i s = Some (True, t) \<and> slot_status t k = 4 \<and>
    cu_status t = (cu_status s)(c := False) \<and> cu_slot_usage t = (cu_slot_usage s)(c := no_index) \<and>
    slot_status t i = 1"
proof -
  have c: "c < max_cus" "cu_status s c" using assms by (auto simp: ert_inv_def slots_inv_def running_status)
  obtain b where g: "guard_ctor B s = s\<lparr>bus := b\<rparr>" by (rule exE [OF guard_frame(1)])
  have "drop_bit 5 i < 4" "drop_bit 5 k < 4" using assms(4,6) by (auto intro: mask_register_index)
  with g assms c obtain t where t: "abort_mb B i s = Some (True, t)"
    by (simp add: abort_mb_def check_command_def notify_host_def rd_arr_def wr_arr_def Let_def slot_status_def
        upd_slot_def write_reg_def)
  from abort_mb_cases [OF t] assms c show ?thesis using t
    by (auto simp: same_view_def slot_status_def running_def toggle_def)
qed

theorem abort_frees_target_witness:
  "\<exists>s t. start_run = Some s \<and>
     abort_mb ram_hw 0 (upd_slot 0 (\<lambda>sl. sl\<lparr>header_value := 0x8001\<rparr>) s) = Some (True, t) \<and>
     slot_status t 1 = 4 \<and> \<not> cu_status t 2 \<and> slot_status t 0 = 1"
proof -
  obtain s t where st: "ert_init ram_hw s" "(ert_step ram_hw 0)\<^sup>*\<^sup>* s t" "start_run = Some t"
    "slot_status t 1 = 3" "s_cu_idx (command_slots t 1) = 2" "dataflow_enabled t = 0"
    by (rule start_run_state)
  have "map_option (\<lambda>t. (slot_status t 0, opcode (header_value (command_slots t 1)))) start_run = Some (4, 0)"
    by code_simp
  then have f: "\<not> running (command_slots t 0)" "opcode (header_value (command_slots t 1)) = opcode_val ERT_START_CU"
    unfolding st(3) by (simp_all add: running_status)
  let ?u = "upd_slot 0 (\<lambda>sl. sl\<lparr>header_value := 0x8001\<rparr>) t"
  have "ert_inv ?u"
    by (rule ert_inv_idleI [OF ert.inv_reachable [OF st(1,2)] f(1), of "(command_slots t 0)\<lparr>header_value := 0x8001\<rparr>"])
      (simp_all add: upd_slot_def running_def)
  moreover have "dataflow_enabled ?u = 0" "slot_status ?u 0 = 1" "(0 :: u32) < max_slots"
    "1 = abort_target (header_value (command_slots ?u 0))" "(1 :: u32) < max_slots" "slot_status ?u 1 = 3"
    "opcode (header_value (command_slots ?u 1)) = opcode_val ERT_START_CU" "2 = s_cu_idx (command_slots ?u 1)"
    using st(4-6) f(2) by (simp_all add: slot_status_def max_slots_def upd_slot_def abort_target_def)
  ultimately obtain v where "abort_mb ram_hw 0 ?u = Some (True, v)" "slot_status v 1 = 4"
    "cu_status v = (cu_status ?u)(2 := False)" "slot_status v 0 = 1"
    by (metis abort_frees_target)
  with st(3) show ?thesis by auto
qed

lemma scheduler_slot_steps:
  assumes "scheduler_slot B version i s = Some t" and "i < num_slots s"
    and "\<And>u. phase_free B i s = Some (True, u) \<Longrightarrow> slot_status u i = 1 \<Longrightarrow> configure_quiet u i"
  shows "(ert_step B version)\<^sup>*\<^sup>* s t"
proof -
  consider "dataflow_enabled s \<noteq> 0" "dataflow_slot B i s = Some t"
    | "dataflow_enabled s \<noteq> 0" "dataflow_kds30_slot B i s = Some t"
    | "normal_slot B version i s = Some t"
    using assms(1) by (auto simp: scheduler_slot_def monad_simps split: if_splits)
  then show ?thesis
    by cases (auto intro: ert_step.dataflow ert_step.dataflow_kds30 normal_slot_steps assms(2,3))
qed



end
