(* ===== verification/Kds_Cu.thy ===== *)
theory Kds_Cu
  imports XRT_Prelude
begin

text \<open>
  The compute unit model of the kernel driver scheduler (KDS), \<^verbatim>\<open>core/common/drv/xrt_cu.c\<close> and
  \<^verbatim>\<open>xrt_cu.h\<close>: a command travels from the pending queue to the run queue, is handed to the
  core implementation of the compute unit, comes back completed and is reported to the host.

  Commands are objects of a store indexed by their address (a natural number), and the queues
  are lists of addresses, because a command is changed while a queue of the core holds it. The
  core implementation is a table of functions over its own state \<open>'c\<close>, as in the source;
  the theories \<open>Kds_Hls\<close> and \<open>Kds_Fa\<close> provide two of them. Locks are not modelled:
  each operation below is one step, and the operations that run concurrently meet only in the
  pending queue, the high priority queue and the event list, which the source locks. Calls of
  the host callbacks are recorded in \<open>notified\<close>. \<open>None\<close> is undefined behaviour or a
  loop that does not end. C integers are 32-bit words with the signed order where it matters.
\<close>

section \<open>Commands\<close>

type_synonym s32 = "32 word"

datatype kds_opcode = OP_NONE | OP_CONFIG | OP_START | OP_ABORT | OP_CONFIG_SK | OP_START_SK
  | OP_CLK_CALIB | OP_VALIDATE | OP_GET_STAT

datatype kds_status = KDS_NEW | KDS_QUEUED | KDS_RUNNING | KDS_COMPLETED | KDS_ERROR | KDS_ABORT
  | KDS_TIMEOUT | KDS_SKCRASHED | KDS_STAT_MAX

definition REGMAP :: u32 where "REGMAP = 0"
definition KEY_VAL :: u32 where "KEY_VAL = 1"
definition XGQ_CMD :: u32 where "XGQ_CMD = 2"

definition EINTR_RESTART :: s32 where "EINTR_RESTART = 512"
definition ENOMEM :: s32 where "ENOMEM = 12"
definition EBUSY :: s32 where "EBUSY = 16"
definition EINVAL :: s32 where "EINVAL = 22"
definition ENOSYS :: s32 where "ENOSYS = 38"

record kds_command =
  c_client :: nat
  c_status :: kds_status
  c_rcode :: u32
  c_cu_idx :: s32
  c_hw_ctx_id :: u32
  c_type :: u32
  c_opcode :: kds_opcode
  c_payload_type :: u32
  c_info :: "u32 list"
  c_isize :: u64
  c_timestamp_enabled :: u32
  c_timestamp :: "kds_status \<Rightarrow> u64"
  c_cu_mask :: "u32 list"
  c_num_mask :: u32
  c_exec_bo_handle :: u32

type_synonym cmd_store = "nat \<Rightarrow> kds_command"

definition set_status :: "kds_status \<Rightarrow> nat \<Rightarrow> cmd_store \<Rightarrow> cmd_store" where
  "set_status s i h = h(i := (h i)\<lparr>c_status := s\<rparr>)"

text \<open>Word \<open>i\<close> of the memory behind a pointer; reading beyond it is undefined.\<close>

definition word_at :: "u32 list \<Rightarrow> nat \<Rightarrow> u32 option" where
  "word_at d i = (if i < length d then Some (d ! i) else None)"

section \<open>The interface of a core implementation\<close>

record xcu_status =
  num_done :: u32
  num_ready :: u32
  new_status :: u32
  st_rcode :: u32

record 'c xcu_funcs =
  fn_alloc_credit :: "'c \<Rightarrow> s32 \<times> 'c"
  fn_free_credit :: "u32 \<Rightarrow> 'c \<Rightarrow> 'c"
  fn_peek_credit :: "'c \<Rightarrow> s32"
  fn_configure :: "u32 list \<Rightarrow> u64 \<Rightarrow> u32 \<Rightarrow> 'c \<Rightarrow> (s32 \<times> 'c) option"
  fn_start :: "'c \<Rightarrow> 'c"
  fn_check :: "bool \<Rightarrow> xcu_status \<Rightarrow> cmd_store \<Rightarrow> 'c \<Rightarrow> xcu_status \<times> cmd_store \<times> 'c"
  fn_submit_config :: "(cmd_store \<Rightarrow> nat \<Rightarrow> 'c \<Rightarrow> (s32 \<times> 'c) option) option"
  fn_get_complete :: "('c \<Rightarrow> nat option \<times> 'c) option"
  fn_abort :: "((kds_command \<Rightarrow> bool) \<Rightarrow> cmd_store \<Rightarrow> 'c \<Rightarrow> s32 \<times> cmd_store \<times> 'c) option"
  fn_reset :: "'c \<Rightarrow> 'c"
  fn_reset_done :: "'c \<Rightarrow> bool \<times> 'c"
  fn_enable_intr :: "u32 \<Rightarrow> 'c \<Rightarrow> 'c"
  fn_disable_intr :: "u32 \<Rightarrow> 'c \<Rightarrow> 'c"
  fn_clear_intr :: "'c \<Rightarrow> u32 \<times> 'c"

section \<open>State of a compute unit\<close>

datatype xcu_model = XCU_HLS | XCU_ACC | XCU_FA | XCU_XGQ | XCU_AUTO

datatype xcu_process_result = XCU_IDLE | XCU_BUSY

text \<open>The protocol of a unit is a 32-bit field; \<open>CTRL_OTHER\<close> stands for its other values.\<close>

datatype CU_PROTOCOL = CTRL_HS | CTRL_CHAIN | CTRL_NONE | CTRL_ME | CTRL_ACC | CTRL_FA | CTRL_OTHER u32

record xrt_cu_arg =
  arg_name :: string
  arg_offset :: u32
  arg_size :: u32
  arg_dir :: u32

record xrt_cu_info =
  model :: xcu_model
  cu_idx :: s32
  addr :: u64
  regs_size :: u64
  protocol :: CU_PROTOCOL
  intr_id :: u32
  intr_enable :: bool
  sw_reset :: bool
  args :: "xrt_cu_arg list"
  iname :: string
  kname :: string

record xrt_cu_log =
  lg_stage :: u32
  lg_cmd_id :: u32
  lg_ts :: u64

record xrt_cu_stats =
  stats_tick :: u32
  stats_enabled :: u32
  last_ts_status :: u32
  max_sq_length :: u32
  sq_total :: u32
  sq_count :: u32
  idle :: u32
  last_timestamp :: u64
  last_read_idle_start :: u64
  last_idle_total :: u64
  usage_prev :: u64
  usage_curr :: u64
  idle_total :: u64
  idle_start :: u64
  idle_end :: u64

datatype thread_pc = At_loop | In_sem_cu | In_sem | Exited

record 'c xrt_cu =
  cu_info :: xrt_cu_info
  cmds :: cmd_store
  pq :: "nat list"
  num_pq :: u32
  hpq :: "nat list"
  num_hpq :: u32
  completion :: nat
  rq :: "nat list"
  num_rq :: u32
  num_sq :: u32
  cq :: "nat list"
  num_cq :: u32
  sem :: nat
  sem_cu :: nat
  core :: 'c
  stop :: u32
  bad_state :: bool
  done_cnt :: u32
  ready_cnt :: u32
  status :: u32
  rcode :: u32
  events :: "nat list"
  tick :: u32
  start_tick :: u32
  force_intr :: u32
  stats :: xrt_cu_stats
  thread :: bool
  poll_count :: u32
  poll_threshold :: u32
  interrupt_used :: u32
  sleep_cnt :: u32
  max_running :: u32
  debug :: bool
  crc_head :: u64
  crc_tail :: u64
  log_buf :: "u64 \<Rightarrow> xrt_cu_log"
  ktime :: "nat \<Rightarrow> u64"
  ktime_pos :: nat
  notified :: "(nat \<times> kds_status) list"
  pc :: thread_pc
  loop_cnt :: u32
  thread_ret :: s32

text \<open>The clock: the values that successive calls of \<^verbatim>\<open>ktime_get\<close> return.\<close>

definition ktime_get :: "'c xrt_cu \<Rightarrow> u64 \<times> 'c xrt_cu" where
  "ktime_get x = (ktime x (ktime_pos x), x\<lparr>ktime_pos := Suc (ktime_pos x)\<rparr>)"

definition set_xcmd_timestamp :: "nat \<Rightarrow> kds_status \<Rightarrow> 'c xrt_cu \<Rightarrow> 'c xrt_cu" where
  "set_xcmd_timestamp i s x =
     (if c_timestamp_enabled (cmds x i) = 0 then x
      else if s = KDS_STAT_MAX then x
      else case ktime_get x of (t, x) \<Rightarrow>
        x\<lparr>cmds := (cmds x)(i := (cmds x i)\<lparr>c_timestamp := (c_timestamp (cmds x i))(s := t)\<rparr>)\<rparr>)"

section \<open>The log ring buffer\<close>

definition CIRC_BUF_SIZE :: u64 where "CIRC_BUF_SIZE = 8192"
definition sizeof_log :: u64 where "sizeof_log = 16"

definition CIRC_CNT :: "u64 \<Rightarrow> u64 \<Rightarrow> u64 \<Rightarrow> u64" where
  "CIRC_CNT hd' tl' sz = (hd' - tl') AND (sz - 1)"

definition CIRC_SPACE :: "u64 \<Rightarrow> u64 \<Rightarrow> u64 \<Rightarrow> u64" where
  "CIRC_SPACE hd' tl' sz = CIRC_CNT tl' (hd' + 1) sz"

definition CIRC_CNT_TO_END :: "u64 \<Rightarrow> u64 \<Rightarrow> u64 \<Rightarrow> u64" where
  "CIRC_CNT_TO_END hd' tl' sz =
     (let e = sz - tl'; n = (hd' + e) AND (sz - 1) in if n < e then n else e)"

definition CU_LOG_STAGE_RQ :: u32 where "CU_LOG_STAGE_RQ = 1"
definition CU_LOG_STAGE_ISR :: u32 where "CU_LOG_STAGE_ISR = 2"
definition CU_LOG_STAGE_SQ :: u32 where "CU_LOG_STAGE_SQ = 3"
definition CU_LOG_STAGE_CQ :: u32 where "CU_LOG_STAGE_CQ = 4"

definition xrt_cu_circ_produce :: "u32 \<Rightarrow> nat \<Rightarrow> 'c xrt_cu \<Rightarrow> 'c xrt_cu" where
  "xrt_cu_circ_produce stage cmd x =
     (if \<not> debug x then x
      else let head = crc_head x; tail = crc_tail x;
               (t, x) = ktime_get x;
               x = x\<lparr>log_buf := (log_buf x)(head := \<lparr>lg_stage = stage, lg_cmd_id = word_of_nat cmd, lg_ts = t\<rparr>)\<rparr>;
               tail = (if CIRC_SPACE head tail CIRC_BUF_SIZE < sizeof_log
                       then (let tail = tail + sizeof_log in if tail \<ge> CIRC_BUF_SIZE then 0 else tail)
                       else tail);
               head = head + sizeof_log;
               head = (if head \<ge> CIRC_BUF_SIZE then 0 else head)
           in x\<lparr>crc_head := head, crc_tail := tail\<rparr>)"

text \<open>The result is the number of bytes read and the offsets in the log buffer they are copied from.\<close>

definition xrt_cu_circ_consume_all :: "u64 \<Rightarrow> 'c xrt_cu \<Rightarrow> u64 \<times> u64 list \<times> 'c xrt_cu" where
  "xrt_cu_circ_consume_all sz x =
     (let head = crc_head x; tail = crc_tail x;
          cnt = CIRC_CNT head tail CIRC_BUF_SIZE;
          cnt_to_end = CIRC_CNT_TO_END head tail CIRC_BUF_SIZE;
          nread = (if sz < cnt then sz else cnt);
          copy = (\<lambda>from n. map (\<lambda>k. from + word_of_nat k) [0..<unat n])
      in if nread \<le> cnt_to_end
         then (nread, copy tail nread, x\<lparr>crc_tail := crc_tail x + nread\<rparr>)
         else (nread, copy tail cnt_to_end @ copy 0 (nread - cnt_to_end), x\<lparr>crc_tail := nread - cnt_to_end\<rparr>))"

section \<open>Timers and profiling counters\<close>

abbreviation upd_stats :: "(xrt_cu_stats \<Rightarrow> xrt_cu_stats) \<Rightarrow> 'c xrt_cu \<Rightarrow> 'c xrt_cu" where
  "upd_stats f x \<equiv> x\<lparr>stats := f (stats x)\<rparr>"

definition cu_timer :: "'c xrt_cu \<Rightarrow> 'c xrt_cu" where
  "cu_timer x = x\<lparr>tick := tick x + 1\<rparr>"

definition xrt_cu_incr_sq_count :: "'c xrt_cu \<Rightarrow> 'c xrt_cu" where
  "xrt_cu_incr_sq_count x =
     (if stats_enabled (stats x) = 0 then x
      else upd_stats (\<lambda>s. s\<lparr>sq_total := sq_total s + num_sq x, sq_count := sq_count s + 1\<rparr>) x)"

definition cu_stats_timer :: "'c xrt_cu \<Rightarrow> 'c xrt_cu" where
  "cu_stats_timer x =
     (if stats_enabled (stats x) = 0 then x
      else xrt_cu_incr_sq_count (upd_stats (\<lambda>s. s\<lparr>stats_tick := stats_tick s + 1\<rparr>) x))"

definition xrt_cu_init_ecmd_and_sq_count :: "'c xrt_cu \<Rightarrow> 'c xrt_cu" where
  "xrt_cu_init_ecmd_and_sq_count =
     upd_stats (\<lambda>s. s\<lparr>sq_total := 0, sq_count := 0, usage_curr := 0, usage_prev := 0\<rparr>)"

definition xrt_cu_incr_ecmd_count :: "'c xrt_cu \<Rightarrow> 'c xrt_cu" where
  "xrt_cu_incr_ecmd_count x =
     (if stats_enabled (stats x) = 0 then x
      else upd_stats (\<lambda>s. s\<lparr>usage_curr := usage_curr s + 1\<rparr>) x)"

definition xrt_cu_reset_sq_count :: "'c xrt_cu \<Rightarrow> 'c xrt_cu" where
  "xrt_cu_reset_sq_count = upd_stats (\<lambda>s. s\<lparr>sq_total := 0, sq_count := 0\<rparr>)"

definition xrt_cu_idle_start :: "'c xrt_cu \<Rightarrow> 'c xrt_cu" where
  "xrt_cu_idle_start x =
     (if stats_enabled (stats x) = 0 then x
      else if num_sq x > 0 \<or> num_rq x > 0 \<or> num_pq x > 0 then x
      else case ktime_get x of (t, x) \<Rightarrow> upd_stats (\<lambda>s. s\<lparr>idle_start := t, idle := 1\<rparr>) x)"

definition xrt_cu_idle_end :: "'c xrt_cu \<Rightarrow> 'c xrt_cu" where
  "xrt_cu_idle_end x =
     (if stats_enabled (stats x) = 0 then x
      else if num_pq x = 0 \<and> num_sq x = 0 \<and> num_rq x = 0 then x
      else if idle (stats x) \<noteq> 0
      then case ktime_get x of (t, x) \<Rightarrow>
        upd_stats (\<lambda>s. s\<lparr>idle_end := t, idle_total := idle_total s + (t - idle_start s), idle := 0\<rparr>) x
      else x)"

text \<open>Division by zero in the kernel is undefined.\<close>

definition div64_u64 :: "u64 \<Rightarrow> u64 \<Rightarrow> u64 option" where
  "div64_u64 a b = (if b = 0 then None else Some (a div b))"

definition xrt_cu_get_idle :: "u64 \<Rightarrow> u64 \<Rightarrow> u64 \<Rightarrow> u64 \<Rightarrow> u32 \<Rightarrow> u64 \<Rightarrow> 'c xrt_cu \<Rightarrow>
  (u64 \<times> 'c xrt_cu) option" where
  "xrt_cu_get_idle last_ts idle_st last_read_st delta_idle idl new_ts x = do {
     let delta = new_ts - last_ts;
     let (cu_idle, ts_status) =
       (if idl = 1
        then (if last_ts_status (stats x) \<noteq> 0 then delta_idle + new_ts - idle_st
              else if delta_idle = 0 then delta
              else delta_idle - (last_ts - last_read_st) + (new_ts - idle_st), 0)
        else (if last_ts_status (stats x) \<noteq> 0 then delta_idle
              else delta_idle - (last_ts - last_read_st), 1));
     cu_idle \<leftarrow> div64_u64 (cu_idle * 100) delta;
     Some (cu_idle, upd_stats (\<lambda>s. s\<lparr>last_read_idle_start := idle_st,
       last_idle_total := idle_total s, last_ts_status := ts_status\<rparr>) x)
   }"

definition xrt_cu_get_iops :: "u64 \<Rightarrow> u64 \<Rightarrow> u64 \<Rightarrow> u64" where
  "xrt_cu_get_iops last_ts incre new_ts =
     (if new_ts - last_ts > 0 \<and> incre \<noteq> 0 then incre * 1000000000 div (new_ts - last_ts) else 0)"

definition xrt_cu_get_average_sq :: "u32 \<Rightarrow> u32 \<Rightarrow> 'c xrt_cu \<Rightarrow> u64 \<times> 'c xrt_cu" where
  "xrt_cu_get_average_sq tot cnt x =
     (if tot = 0 \<or> cnt = 0 then (0, x) else (ucast (tot div cnt), xrt_cu_reset_sq_count x))"

text \<open>The eight numbers of the report, and the counters it advances.\<close>

record cu_stat_report =
  rp_usage_curr :: u64
  rp_incre_ecmds :: u64
  rp_in_flight :: u32
  rp_average_sq_len :: u32
  rp_max_sq_length :: u32
  rp_max_running :: u32
  rp_iops :: u64
  rp_cu_idle :: u64

definition show_formatted_cu_stat :: "'c xrt_cu \<Rightarrow> (cu_stat_report \<times> 'c xrt_cu) option" where
  "show_formatted_cu_stat x = do {
     let s = stats x;
     let in_flight = num_sq x;
     let max_run = max_running x;
     let incre = usage_curr s - usage_prev s;
     let x = upd_stats (\<lambda>s. s\<lparr>usage_prev := usage_curr s\<rparr>) x;
     let delta_idle = idle_total s - last_idle_total s;
     let (new_ts, x) = ktime_get x;
     let last_ts = last_timestamp (stats x);
     let (avg, x) = xrt_cu_get_average_sq (sq_total s) (sq_count s) x;
     let iops = xrt_cu_get_iops last_ts incre new_ts;
     (cu_idle, x) \<leftarrow> xrt_cu_get_idle last_ts (idle_start s) (last_read_idle_start s) delta_idle (idle s) new_ts x;
     let x = upd_stats (\<lambda>s. s\<lparr>last_timestamp := new_ts\<rparr>) x;
     Some (\<lparr>rp_usage_curr = usage_curr s, rp_incre_ecmds = incre, rp_in_flight = in_flight,
       rp_average_sq_len = ucast avg, rp_max_sq_length = max_sq_length s, rp_max_running = max_run,
       rp_iops = iops, rp_cu_idle = cu_idle\<rparr>, x)
   }"

definition show_stats_begin :: "'c xrt_cu \<Rightarrow> 'c xrt_cu" where
  "show_stats_begin x = upd_stats (\<lambda>s. s\<lparr>stats_tick := 0\<rparr>) (upd_stats (\<lambda>s. s\<lparr>stats_enabled := 1\<rparr>) x)"

definition show_stats_end :: "'c xrt_cu \<Rightarrow> 'c xrt_cu" where
  "show_stats_end = upd_stats (\<lambda>s. s\<lparr>stats_enabled := 0\<rparr>)"

section \<open>Calls of the core implementation\<close>

definition CU_AP_CRASHED :: u32 where "CU_AP_CRASHED = 0xFFFFFFFF"
definition CU_INTR_DONE :: u32 where "CU_INTR_DONE = 1"
definition CU_INTR_READY :: u32 where "CU_INTR_READY = 2"
definition CU_EXEC_DEFAULT_TTL :: u32 where "CU_EXEC_DEFAULT_TTL = 2"
definition MAX_CU_LOOP :: u32 where "MAX_CU_LOOP = 300"
definition CU_DEFAULT_POLL_THRESHOLD :: u32 where "CU_DEFAULT_POLL_THRESHOLD = 300"

definition xrt_cu_enable_intr :: "'c xcu_funcs \<Rightarrow> u32 \<Rightarrow> 'c xrt_cu \<Rightarrow> 'c xrt_cu" where
  "xrt_cu_enable_intr F t x = x\<lparr>core := fn_enable_intr F t (core x)\<rparr>"

definition xrt_cu_disable_intr :: "'c xcu_funcs \<Rightarrow> u32 \<Rightarrow> 'c xrt_cu \<Rightarrow> 'c xrt_cu" where
  "xrt_cu_disable_intr F t x = x\<lparr>core := fn_disable_intr F t (core x)\<rparr>"

definition xrt_cu_clear_intr :: "'c xcu_funcs \<Rightarrow> 'c xrt_cu \<Rightarrow> u32 \<times> 'c xrt_cu" where
  "xrt_cu_clear_intr F x = (case fn_clear_intr F (core x) of (r, c) \<Rightarrow> (r, x\<lparr>core := c\<rparr>))"

definition xrt_cu_start :: "'c xcu_funcs \<Rightarrow> 'c xrt_cu \<Rightarrow> 'c xrt_cu" where
  "xrt_cu_start F x = x\<lparr>core := fn_start F (core x)\<rparr>"

definition xrt_cu_submit_config :: "'c xcu_funcs \<Rightarrow> nat \<Rightarrow> 'c xrt_cu \<Rightarrow> (s32 \<times> 'c xrt_cu) option" where
  "xrt_cu_submit_config F i x =
     (case fn_submit_config F of
        None \<Rightarrow> Some (- EINVAL, x)
      | Some f \<Rightarrow> map_option (\<lambda>(r, c). (r, x\<lparr>core := c\<rparr>)) (f (cmds x) i (core x)))"

definition xrt_cu_get_complete :: "'c xcu_funcs \<Rightarrow> 'c xrt_cu \<Rightarrow> nat option \<times> 'c xrt_cu" where
  "xrt_cu_get_complete F x =
     (case fn_get_complete F of
        None \<Rightarrow> (None, x)
      | Some f \<Rightarrow> (case f (core x) of (i, c) \<Rightarrow> (i, x\<lparr>core := c\<rparr>)))"

definition xrt_cu_cmd_abort :: "'c xcu_funcs \<Rightarrow> (kds_command \<Rightarrow> bool) \<Rightarrow> 'c xrt_cu \<Rightarrow> s32 \<times> 'c xrt_cu" where
  "xrt_cu_cmd_abort F match x =
     (case fn_abort F of
        None \<Rightarrow> (- EINVAL, x)
      | Some f \<Rightarrow> (case f match (cmds x) (core x) of (r, h, c) \<Rightarrow> (r, x\<lparr>cmds := h, core := c\<rparr>)))"

definition xrt_cu_check_with :: "'c xcu_funcs \<Rightarrow> bool \<Rightarrow> 'c xrt_cu \<Rightarrow> 'c xrt_cu" where
  "xrt_cu_check_with F force x =
     (case fn_check F force \<lparr>num_done = 0, num_ready = 0, new_status = 0, st_rcode = 0\<rparr> (cmds x) (core x) of
        (st, h, c) \<Rightarrow> x\<lparr>cmds := h, core := c, done_cnt := done_cnt x + num_done st,
          ready_cnt := ready_cnt x + num_ready st,
          status := (if status x \<noteq> CU_AP_CRASHED then new_status st else status x),
          rcode := st_rcode st\<rparr>)"

definition xrt_cu_check :: "'c xcu_funcs \<Rightarrow> 'c xrt_cu \<Rightarrow> 'c xrt_cu" where
  "xrt_cu_check F = xrt_cu_check_with F False"

definition xrt_cu_check_force :: "'c xcu_funcs \<Rightarrow> 'c xrt_cu \<Rightarrow> 'c xrt_cu" where
  "xrt_cu_check_force F = xrt_cu_check_with F True"

definition xrt_cu_get_credit :: "'c xcu_funcs \<Rightarrow> 'c xrt_cu \<Rightarrow> s32 \<times> 'c xrt_cu" where
  "xrt_cu_get_credit F x = (case fn_alloc_credit F (core x) of (n, c) \<Rightarrow> (n, x\<lparr>core := c\<rparr>))"

definition is_zero_credit :: "'c xcu_funcs \<Rightarrow> 'c xrt_cu \<Rightarrow> bool" where
  "is_zero_credit F x \<longleftrightarrow> fn_peek_credit F (core x) = 0"

definition xrt_cu_peek_credit :: "'c xcu_funcs \<Rightarrow> 'c xrt_cu \<Rightarrow> s32" where
  "xrt_cu_peek_credit F x = fn_peek_credit F (core x)"

definition xrt_cu_put_credit :: "'c xcu_funcs \<Rightarrow> u32 \<Rightarrow> 'c xrt_cu \<Rightarrow> 'c xrt_cu" where
  "xrt_cu_put_credit F n x = x\<lparr>core := fn_free_credit F n (core x)\<rparr>"

definition xrt_cu_switch_to_interrupt :: "'c xcu_funcs \<Rightarrow> 'c xrt_cu \<Rightarrow> 'c xrt_cu" where
  "xrt_cu_switch_to_interrupt F x =
     (xrt_cu_enable_intr F (CU_INTR_DONE OR CU_INTR_READY) x)\<lparr>interrupt_used := 1\<rparr>"

definition xrt_cu_switch_to_poll :: "'c xcu_funcs \<Rightarrow> 'c xrt_cu \<Rightarrow> 'c xrt_cu" where
  "xrt_cu_switch_to_poll F x =
     (xrt_cu_disable_intr F (CU_INTR_DONE OR CU_INTR_READY) x)\<lparr>interrupt_used := 0\<rparr>"

section \<open>Queue processing\<close>

definition first_event_client_or_null :: "'c xrt_cu \<Rightarrow> nat option" where
  "first_event_client_or_null x = (case events x of [] \<Rightarrow> None | c # _ \<Rightarrow> Some c)"

definition abort_client :: "nat \<Rightarrow> kds_command \<Rightarrow> bool" where
  "abort_client client xcmd \<longleftrightarrow> c_client xcmd = client"

definition abort_handle :: "u32 \<Rightarrow> kds_command \<Rightarrow> bool" where
  "abort_handle handle xcmd \<longleftrightarrow> c_exec_bo_handle xcmd = handle"

text \<open>\<^verbatim>\<open>move_to_queue\<close> to the completed queue; a command leaves the list it was on.\<close>

definition move_to_cq :: "nat \<Rightarrow> 'c xrt_cu \<Rightarrow> 'c xrt_cu" where
  "move_to_cq i x = x\<lparr>rq := remove1 i (rq x), cq := cq x @ [i], num_cq := num_cq x + 1\<rparr>"

partial_function (option) process_cq :: "'c xrt_cu \<Rightarrow> 'c xrt_cu option" where
  "process_cq x =
     (if num_cq x = 0 then Some x
      else case cq x of
        [] \<Rightarrow> None
      | i # is \<Rightarrow>
          let x = set_xcmd_timestamp i (c_status (cmds x i)) x;
              x = xrt_cu_circ_produce CU_LOG_STAGE_CQ i x;
              x = x\<lparr>bad_state := (c_status (cmds x i) = KDS_SKCRASHED)\<rparr>;
              x = x\<lparr>notified := notified x @ [(i, c_status (cmds x i))]\<rparr>;
              x = xrt_cu_incr_ecmd_count x;
              x = x\<lparr>cq := is\<rparr>
          in process_cq (x\<lparr>num_cq := num_cq x - 1\<rparr>))"

text \<open>The loop over \<^verbatim>\<open>xrt_cu_get_complete\<close>; only \<^verbatim>\<open>__process_sq\<close> logs the commands.\<close>

partial_function (option) get_complete_loop :: "'c xcu_funcs \<Rightarrow> bool \<Rightarrow> 'c xrt_cu \<Rightarrow> 'c xrt_cu option" where
  "get_complete_loop F logged x =
     (case xrt_cu_get_complete F x of
        (None, x) \<Rightarrow> Some x
      | (Some i, x) \<Rightarrow>
          let x = (if logged then xrt_cu_circ_produce CU_LOG_STAGE_SQ i x else x);
              x = move_to_cq i x
          in get_complete_loop F logged (x\<lparr>num_sq := num_sq x - 1\<rparr>))"

declare process_cq.simps [code] get_complete_loop.simps [code]

text \<open>\<^verbatim>\<open>__process_sq\<close>: what the closing client's event does, then the rest.\<close>

definition abort_submitted :: "'c xcu_funcs \<Rightarrow> 'c xrt_cu \<Rightarrow> 'c xrt_cu" where
  "abort_submitted F x =
     (case first_event_client_or_null x of
        None \<Rightarrow> x
      | Some client \<Rightarrow>
          if start_tick x = 0 then x\<lparr>start_tick := tick x\<rparr>
          else if tick x - start_tick x < CU_EXEC_DEFAULT_TTL then x
          else case xrt_cu_cmd_abort F (abort_client client) x of
            (r, x) \<Rightarrow> (if r \<noteq> 0 then x\<lparr>bad_state := True\<rparr> else x)\<lparr>start_tick := 0\<rparr>)"

definition process_sq_after_check :: "'c xcu_funcs \<Rightarrow> 'c xrt_cu \<Rightarrow> 'c xrt_cu option" where
  "process_sq_after_check F x =
     (let x = (if ready_cnt x \<noteq> 0 then (xrt_cu_put_credit F (ready_cnt x) x)\<lparr>ready_cnt := 0\<rparr> else x)
      in if num_sq x = 0 then Some x
         else map_option xrt_cu_idle_start (get_complete_loop F True (abort_submitted F x)))"

definition process_sq :: "'c xcu_funcs \<Rightarrow> 'c xrt_cu \<Rightarrow> 'c xrt_cu option" where
  "process_sq F x =
     (if num_sq x = 0 \<and> \<not> is_zero_credit F x then Some x
      else process_sq_after_check F (xrt_cu_check F x))"

text \<open>\<^verbatim>\<open>process_rq\<close> for a closing client: one command of the run queue, then all of them.\<close>

definition abort_queued :: "nat \<Rightarrow> nat \<Rightarrow> 'c xrt_cu \<Rightarrow> 'c xrt_cu" where
  "abort_queued client i x =
     (if client \<noteq> c_client (cmds x i) \<and> \<not> bad_state x then x
      else let x = x\<lparr>cmds := set_status KDS_ABORT i (cmds x)\<rparr>; x = move_to_cq i x
           in x\<lparr>num_rq := num_rq x - 1\<rparr>)"

text \<open>The end of \<^verbatim>\<open>process_rq\<close>, for a command the core has accepted.\<close>

definition start_submitted :: "'c xcu_funcs \<Rightarrow> nat \<Rightarrow> 'c xrt_cu \<Rightarrow> 'c xrt_cu" where
  "start_submitted F i x =
     (let x = xrt_cu_start F x;
          x = (if thread x
               then (let x = x\<lparr>poll_count := 0\<rparr> in
                     if force_intr x = 0 \<and> interrupt_used x \<noteq> 0 then xrt_cu_switch_to_poll F x else x)
               else x);
          x = set_xcmd_timestamp i KDS_RUNNING x;
          x = xrt_cu_circ_produce CU_LOG_STAGE_RQ i x;
          x = x\<lparr>num_sq := num_sq x + 1, num_rq := num_rq x - 1\<rparr>
      in if max_sq_length (stats x) < num_sq x
         then upd_stats (\<lambda>s. s\<lparr>max_sq_length := num_sq x\<rparr>) x else x)"

definition process_rq :: "'c xcu_funcs \<Rightarrow> 'c xrt_cu \<Rightarrow> (bool \<times> 'c xrt_cu) option" where
  "process_rq F x =
     (if num_rq x = 0 then Some (False, x)
      else case first_event_client_or_null x of
        Some client \<Rightarrow> Some (False, fold (abort_queued client) (rq x) x)
      | None \<Rightarrow> (case rq x of
          [] \<Rightarrow> None
        | i # is \<Rightarrow> (case xrt_cu_get_credit F x of (n, x) \<Rightarrow>
            if n = 0 then Some (False, x)
            else case xrt_cu_submit_config F i x of
              None \<Rightarrow> None
            | Some (r, x) \<Rightarrow>
                if r \<noteq> 0 then Some (False, xrt_cu_put_credit F 1 x)
                else Some (True, start_submitted F i (x\<lparr>rq := is\<rparr>)))))"

partial_function (option) process_rq_loop :: "'c xcu_funcs \<Rightarrow> 'c xrt_cu \<Rightarrow> 'c xrt_cu option" where
  "process_rq_loop F x =
     (case process_rq F x of
        None \<Rightarrow> None
      | Some (again, x) \<Rightarrow> if again then process_rq_loop F x else Some x)"

declare process_rq_loop.simps [code]

definition process_pq :: "'c xrt_cu \<Rightarrow> 'c xrt_cu" where
  "process_pq x =
     (if num_pq x = 0 then x
      else let x = xrt_cu_idle_end x;
               x = x\<lparr>rq := rq x @ pq x, pq := [], num_rq := num_rq x + num_pq x, num_pq := 0\<rparr>
           in if max_running x < num_rq x then x\<lparr>max_running := num_rq x\<rparr> else x)"

definition try_abort_cmd :: "'c xcu_funcs \<Rightarrow> nat \<Rightarrow> 'c xrt_cu \<Rightarrow> 'c xrt_cu option" where
  "try_abort_cmd F a x = do {
     handle \<leftarrow> word_at (c_info (cmds x a)) 0;
     case find (\<lambda>i. c_exec_bo_handle (cmds x i) = handle) (rq x) of
       Some i \<Rightarrow>
         let x = x\<lparr>cmds := set_status KDS_COMPLETED a (cmds x)\<rparr>;
             x = x\<lparr>cmds := set_status KDS_ABORT i (cmds x)\<rparr>;
             x = move_to_cq i x
         in Some (x\<lparr>num_rq := num_rq x - 1\<rparr>)
     | None \<Rightarrow>
         if num_sq x = 0 then Some x
         else case xrt_cu_cmd_abort F (abort_handle handle) x of
           (r, x) \<Rightarrow> get_complete_loop F False
             (if r \<noteq> 0 then x\<lparr>bad_state := True, cmds := set_status KDS_TIMEOUT a (cmds x)\<rparr>
              else x\<lparr>cmds := set_status KDS_COMPLETED a (cmds x)\<rparr>)
   }"

fun process_hpq_loop :: "'c xcu_funcs \<Rightarrow> nat list \<Rightarrow> 'c xrt_cu \<Rightarrow> 'c xrt_cu option" where
  "process_hpq_loop F [] x = Some x"
| "process_hpq_loop F (a # as) x =
     (case (if c_opcode (cmds x a) = OP_ABORT then try_abort_cmd F a x else Some x) of
        None \<Rightarrow> None
      | Some x \<Rightarrow> process_hpq_loop F as (x\<lparr>hpq := as, num_hpq := num_hpq x - 1\<rparr>))"

definition process_hpq :: "'c xcu_funcs \<Rightarrow> 'c xrt_cu \<Rightarrow> 'c xrt_cu option" where
  "process_hpq F x =
     (if num_hpq x = 0 then Some x
      else map_option (\<lambda>x. x\<lparr>completion := Suc (completion x)\<rparr>) (process_hpq_loop F (hpq x) x))"

definition xrt_cu_process_queues :: "'c xcu_funcs \<Rightarrow> 'c xrt_cu \<Rightarrow> (xcu_process_result \<times> 'c xrt_cu) option" where
  "xrt_cu_process_queues F x = do {
     let x = process_pq x;
     x \<leftarrow> process_rq_loop F x;
     x \<leftarrow> process_cq x;
     x \<leftarrow> process_sq F x;
     x \<leftarrow> process_hpq F x;
     Some (if num_rq x \<noteq> 0 \<or> num_sq x \<noteq> 0 \<or> num_cq x \<noteq> 0 then XCU_BUSY else XCU_IDLE, x)
   }"

section \<open>The thread of a compute unit\<close>

text \<open>
  The body of the loop is cut at the two places where the thread sleeps. \<open>pc\<close> says where it
  is; \<open>thread_tail\<close> is the end of the body, from the high priority queue on.
\<close>

definition thread_tail :: "'c xcu_funcs \<Rightarrow> 'c xrt_cu \<Rightarrow> 'c xrt_cu option" where
  "thread_tail F x = do {
     x \<leftarrow> process_hpq F x;
     let x = x\<lparr>loop_cnt := loop_cnt x + 1\<rparr>;
     let x = (if loop_cnt x = MAX_CU_LOOP then x\<lparr>loop_cnt := 0\<rparr> else x);
     if num_rq x \<noteq> 0 then Some (x\<lparr>pc := At_loop\<rparr>)
     else if num_sq x = 0 \<and> num_cq x = 0
     then (let x = x\<lparr>loop_cnt := 0\<rparr>;
               x = (if num_pq x = 0 then xrt_cu_check_force F x else x)
           in Some (x\<lparr>pc := In_sem\<rparr>))
     else Some ((process_pq x)\<lparr>pc := At_loop\<rparr>)
   }"

definition thread_start :: "'c xcu_funcs \<Rightarrow> 'c xrt_cu \<Rightarrow> 'c xrt_cu" where
  "thread_start F x =
     (let x = x\<lparr>interrupt_used := 0, loop_cnt := 0, thread_ret := 0, pc := At_loop\<rparr>
      in if force_intr x \<noteq> 0 then xrt_cu_switch_to_interrupt F (x\<lparr>interrupt_used := 1\<rparr>) else x)"

definition thread_loop :: "'c xcu_funcs \<Rightarrow> 'c xrt_cu \<Rightarrow> 'c xrt_cu option" where
  "thread_loop F x = do {
     (again, x) \<leftarrow> process_rq F x;
     if again then Some (x\<lparr>pc := At_loop\<rparr>)
     else do {
       x \<leftarrow> process_cq x;
       if num_sq x \<noteq> 0 \<or> is_zero_credit F x
       then if interrupt_used x = 0
         then do {
           x \<leftarrow> process_sq F x;
           let x = x\<lparr>poll_count := poll_count x + 1\<rparr>;
           thread_tail F (if poll_count x \<ge> poll_threshold x then xrt_cu_switch_to_interrupt F x else x)
         }
         else (let x = xrt_cu_check F x in
           if done_cnt x = 0 \<or> ready_cnt x = 0
           then Some (x\<lparr>sleep_cnt := sleep_cnt x + 1, pc := In_sem_cu\<rparr>)
           else do { x \<leftarrow> process_sq_after_check F x; thread_tail F x })
       else thread_tail F x
     }
   }"

text \<open>The two wake-ups. A flag says that the wait ended without the semaphore.\<close>

definition thread_wake_cu :: "'c xcu_funcs \<Rightarrow> bool \<Rightarrow> 'c xrt_cu \<Rightarrow> 'c xrt_cu option" where
  "thread_wake_cu F timeout x = do {
     let x = (if timeout then x\<lparr>thread_ret := - EINTR_RESTART\<rparr> else x\<lparr>sem_cu := sem_cu x - 1\<rparr>);
     x \<leftarrow> process_sq_after_check F (xrt_cu_check F x);
     thread_tail F x
   }"

definition thread_wake :: "bool \<Rightarrow> 'c xrt_cu \<Rightarrow> 'c xrt_cu" where
  "thread_wake interrupted x =
     (process_pq (if interrupted then x\<lparr>thread_ret := - EINTR_RESTART\<rparr> else x\<lparr>sem := sem x - 1\<rparr>))\<lparr>pc := At_loop\<rparr>"

definition thread_exit :: "'c xcu_funcs \<Rightarrow> 'c xrt_cu \<Rightarrow> s32 \<times> 'c xrt_cu" where
  "thread_exit F x =
     (let x = (xrt_cu_disable_intr F (CU_INTR_DONE OR CU_INTR_READY) x)\<lparr>pc := Exited\<rparr>
      in (if bad_state x then - EBUSY else thread_ret x, x))"

section \<open>Entry points\<close>

definition xrt_cu_submit :: "nat \<Rightarrow> 'c xrt_cu \<Rightarrow> 'c xrt_cu" where
  "xrt_cu_submit i x =
     (let x = x\<lparr>pq := pq x @ [i], num_pq := num_pq x + 1\<rparr>
      in if num_pq x = 1 then x\<lparr>sem := Suc (sem x)\<rparr> else x)"

text \<open>\<^verbatim>\<open>xrt_cu_hpq_submit\<close> up to the wait, and the wait, which blocks without a completion.\<close>

definition xrt_cu_hpq_submit :: "nat \<Rightarrow> 'c xrt_cu \<Rightarrow> 'c xrt_cu" where
  "xrt_cu_hpq_submit i x =
     (if protocol (cu_info x) = CTRL_NONE then x
      else x\<lparr>hpq := hpq x @ [i], num_hpq := num_hpq x + 1, sem := Suc (sem x)\<rparr>)"

definition hpq_wait :: "'c xrt_cu \<Rightarrow> 'c xrt_cu option" where
  "hpq_wait x = (if completion x = 0 then None else Some (x\<lparr>completion := completion x - 1\<rparr>))"

definition xrt_cu_abort :: "nat \<Rightarrow> 'c xrt_cu \<Rightarrow> 'c xrt_cu" where
  "xrt_cu_abort client x = (if client \<in> set (events x) then x else x\<lparr>events := events x @ [client]\<rparr>)"

definition xrt_cu_abort_done :: "nat \<Rightarrow> 'c xrt_cu \<Rightarrow> bool \<times> 'c xrt_cu" where
  "xrt_cu_abort_done client x = (bad_state x, x\<lparr>events := remove1 client (events x)\<rparr>)"

definition xrt_cu_get_protocol :: "'c xrt_cu \<Rightarrow> CU_PROTOCOL" where
  "xrt_cu_get_protocol x = protocol (cu_info x)"

definition xrt_cu_intr_supported :: "'c xrt_cu \<Rightarrow> bool" where
  "xrt_cu_intr_supported x \<longleftrightarrow>
     model (cu_info x) = XCU_XGQ \<or> intr_enable (cu_info x) \<and> xrt_cu_get_protocol x \<noteq> CTRL_NONE"

text \<open>\<open>created\<close> is whether \<^verbatim>\<open>kthread_run\<close> succeeds.\<close>

definition xrt_cu_start_thread :: "'c xcu_funcs \<Rightarrow> bool \<Rightarrow> 'c xrt_cu \<Rightarrow> s32 \<times> 'c xrt_cu" where
  "xrt_cu_start_thread F created x =
     (if thread x then (0, x)
      else let x = x\<lparr>stop := 0, sem := 0, sem_cu := 0, tick := 0\<rparr>
           in if created then (0, thread_start F (x\<lparr>thread := True\<rparr>)) else (1, x\<lparr>thread := False\<rparr>))"

text \<open>\<open>join\<close> is what the thread does until \<^verbatim>\<open>kthread_stop\<close> returns.\<close>

definition xrt_cu_stop_thread :: "('c xrt_cu \<Rightarrow> 'c xrt_cu) \<Rightarrow> 'c xrt_cu \<Rightarrow> 'c xrt_cu" where
  "xrt_cu_stop_thread join x =
     (if \<not> thread x then x
      else (join (x\<lparr>stop := 1, sem_cu := Suc (sem_cu x), sem := Suc (sem x)\<rparr>))\<lparr>thread := False, sem := 0, sem_cu := 0\<rparr>)"

definition xrt_cu_cfg_update :: "'c xcu_funcs \<Rightarrow> ('c xrt_cu \<Rightarrow> 'c xrt_cu) \<Rightarrow> bool \<Rightarrow> bool \<Rightarrow> 'c xrt_cu \<Rightarrow>
  s32 \<times> 'c xrt_cu" where
  "xrt_cu_cfg_update F join created intr x =
     (if \<not> xrt_cu_intr_supported x then (- ENOSYS, x)
      else let x = xrt_cu_stop_thread join x
           in if \<not> intr then (0, x) else xrt_cu_start_thread F created x)"

definition round_up_to_next_power2 :: "u32 \<Rightarrow> u32" where
  "round_up_to_next_power2 sz =
     (let v = sz - 1;
          v = v OR drop_bit 1 v;
          v = v OR drop_bit 2 v;
          v = v OR drop_bit 4 v;
          v = v OR drop_bit 8 v;
          v = v OR drop_bit 16 v
      in v + 1)"

definition cu_fa_get_desc_size :: "'c xrt_cu \<Rightarrow> u32" where
  "cu_fa_get_desc_size x =
     round_up_to_next_power2 (fold (\<lambda>a sz.
       if arg_name a = ''nextDescriptorAddr'' \<or> arg_size a = 0 then sz else sz + (8 + arg_size a))
       (args (cu_info x)) 20)"

definition xrt_is_fa :: "'c xrt_cu \<Rightarrow> bool \<times> u32 option" where
  "xrt_is_fa x = (if model (cu_info x) = XCU_FA then (True, Some (cu_fa_get_desc_size x)) else (False, None))"

definition regmap_max :: "xrt_cu_arg list \<Rightarrow> u32 \<times> u32" where
  "regmap_max as = fold (\<lambda>a (off, sz). if off < arg_offset a then (arg_offset a, arg_size a) else (off, sz))
     as (0, case as of [] \<Rightarrow> 0 | a # _ \<Rightarrow> arg_size a)"

definition xrt_cu_regmap_size :: "'c xrt_cu \<Rightarrow> s32" where
  "xrt_cu_regmap_size x =
     (if args (cu_info x) = [] then ucast (regs_size (cu_info x))
      else case regmap_max (args (cu_info x)) of (max_off, sz) \<Rightarrow> max_off + sz)"

definition xrt_cu_init :: "'c xrt_cu \<Rightarrow> s32 \<times> 'c xrt_cu" where
  "xrt_cu_init x =
     (if iname (cu_info x) = [] then (0, x)
      else let x = x\<lparr>pq := [], rq := [], cq := [], events := [], sem := 0, sem_cu := 0, hpq := [],
                     completion := 0, crc_head := 0, crc_tail := 0\<rparr>;
               x = xrt_cu_init_ecmd_and_sq_count x
           in (0, x\<lparr>tick := 0, start_tick := 0, thread := False,
                    poll_threshold := CU_DEFAULT_POLL_THRESHOLD, interrupt_used := 0\<rparr>))"

definition xrt_cu_fini :: "('c xrt_cu \<Rightarrow> 'c xrt_cu) \<Rightarrow> 'c xrt_cu \<Rightarrow> 'c xrt_cu" where
  "xrt_cu_fini join x =
     (if iname (cu_info x) = [] then x
      else let x = x\<lparr>stop := 1, sem_cu := Suc (sem_cu x), sem := Suc (sem x)\<rparr>
           in if thread x then join x else x)"

section \<open>Interleavings\<close>

text \<open>The interrupt handler of a compute unit, as the PCIe and the Zynq driver have it.\<close>

definition cu_isr :: "'c xcu_funcs \<Rightarrow> 'c xrt_cu \<Rightarrow> 'c xrt_cu" where
  "cu_isr F x =
     (let x = xrt_cu_circ_produce CU_LOG_STAGE_ISR 0 x;
          x = snd (xrt_cu_clear_intr F x)
      in x\<lparr>sem_cu := Suc (sem_cu x)\<rparr>)"

text \<open>
  What happens to a compute unit, in any order. A submitted command is written to an address
  that no queue holds (\<open>held\<close> are the commands inside the core); \<open>None\<close> is an event
  that is not possible in the state, or undefined behaviour. The counters are 32 bits wide, so
  fewer than $2^{32}$ commands can be outstanding.
\<close>

datatype cu_event = Submit nat kds_command | Hpq_submit nat kds_command | Hpq_wait | Abort nat | Abort_done nat
  | Timer | Stats_timer | Stats_begin | Stats_end | Poll | Interrupt | Thread_run | Wake_cu bool | Wake bool

definition fresh_cmd :: "('c \<Rightarrow> nat list) \<Rightarrow> nat \<Rightarrow> 'c xrt_cu \<Rightarrow> bool" where
  "fresh_cmd held i x \<longleftrightarrow>
     (let ids = cq x @ held (core x) @ rq x @ pq x in
      i \<notin> set ids \<and> i \<notin> set (hpq x) \<and> Suc (length ids) < 2 ^ 32 \<and> Suc (length (hpq x)) < 2 ^ 32)"

lemma fresh_cmd_code [code]:
  "fresh_cmd held i x \<longleftrightarrow>
     (let ids = cq x @ held (core x) @ rq x @ pq x in
      i \<notin> set ids \<and> i \<notin> set (hpq x) \<and> int (length ids) + 1 < 2 ^ 32 \<and> int (length (hpq x)) + 1 < 2 ^ 32)"
  by (auto simp: fresh_cmd_def Let_def)

fun cu_exec :: "'c xcu_funcs \<Rightarrow> ('c \<Rightarrow> nat list) \<Rightarrow> cu_event \<Rightarrow> 'c xrt_cu \<Rightarrow> 'c xrt_cu option" where
  "cu_exec F held (Submit i c) x =
     (if fresh_cmd held i x then Some (xrt_cu_submit i (x\<lparr>cmds := (cmds x)(i := c)\<rparr>)) else None)"
| "cu_exec F held (Hpq_submit i c) x =
     (if fresh_cmd held i x then Some (xrt_cu_hpq_submit i (x\<lparr>cmds := (cmds x)(i := c)\<rparr>)) else None)"
| "cu_exec F held Hpq_wait x = hpq_wait x"
| "cu_exec F held (Abort client) x = Some (xrt_cu_abort client x)"
| "cu_exec F held (Abort_done client) x = Some (snd (xrt_cu_abort_done client x))"
| "cu_exec F held Timer x = Some (cu_timer x)"
| "cu_exec F held Stats_timer x = Some (cu_stats_timer x)"
| "cu_exec F held Stats_begin x = Some (show_stats_begin x)"
| "cu_exec F held Stats_end x = Some (show_stats_end x)"
| "cu_exec F held Interrupt x = Some (cu_isr F x)"
| "cu_exec F held Poll x =
     (if thread x then None else map_option snd (xrt_cu_process_queues F x))"
| "cu_exec F held Thread_run x =
     (if thread x \<and> pc x = At_loop then if stop x = 0 then thread_loop F x else Some (snd (thread_exit F x)) else None)"
| "cu_exec F held (Wake_cu timeout) x =
     (if thread x \<and> pc x = In_sem_cu \<and> (timeout \<or> sem_cu x > 0) then thread_wake_cu F timeout x else None)"
| "cu_exec F held (Wake interrupted) x =
     (if thread x \<and> pc x = In_sem \<and> (interrupted \<or> sem x > 0) then Some (thread_wake interrupted x) else None)"

fun cu_run :: "'c xcu_funcs \<Rightarrow> ('c \<Rightarrow> nat list) \<Rightarrow> cu_event list \<Rightarrow> 'c xrt_cu \<Rightarrow> 'c xrt_cu option" where
  "cu_run F held [] x = Some x"
| "cu_run F held (e # es) x = (case cu_exec F held e x of None \<Rightarrow> None | Some y \<Rightarrow> cu_run F held es y)"

text \<open>The commands a run submits, in order.\<close>

fun submits :: "cu_event list \<Rightarrow> nat list" where
  "submits [] = []"
| "submits (Submit i c # es) = i # submits es"
| "submits (_ # es) = submits es"

fun is_abort :: "cu_event \<Rightarrow> bool" where
  "is_abort (Abort client) = True"
| "is_abort (Hpq_submit i c) = True"
| "is_abort _ = False"

end
