(* ===== verification/Kds_Contract.thy ===== *)
theory Kds_Contract
  imports Kds_Cu "HOL-Library.Multiset"
begin

text \<open>
  The contract between the queues of a compute unit and its core implementation, as the locale
  \<open>cu_core\<close>, and what follows from it for every core: each phase of the queue processing
  is characterised by what it does to the queues, and no phase loses, duplicates or invents a
  command. The core implementations interpret the locale in \<open>Kds_Hls\<close> and \<open>Kds_Fa\<close>.
\<close>

section \<open>Frames\<close>

text \<open>Time stamps, the log and the profiling counters change nothing the queues depend on.\<close>

lemma timestamp_frame [frame_simps]:
  "cu_info (set_xcmd_timestamp i s x) = cu_info x" "pq (set_xcmd_timestamp i s x) = pq x"
  "num_pq (set_xcmd_timestamp i s x) = num_pq x" "hpq (set_xcmd_timestamp i s x) = hpq x"
  "num_hpq (set_xcmd_timestamp i s x) = num_hpq x" "completion (set_xcmd_timestamp i s x) = completion x"
  "rq (set_xcmd_timestamp i s x) = rq x" "num_rq (set_xcmd_timestamp i s x) = num_rq x"
  "num_sq (set_xcmd_timestamp i s x) = num_sq x" "cq (set_xcmd_timestamp i s x) = cq x"
  "num_cq (set_xcmd_timestamp i s x) = num_cq x" "sem (set_xcmd_timestamp i s x) = sem x"
  "sem_cu (set_xcmd_timestamp i s x) = sem_cu x" "core (set_xcmd_timestamp i s x) = core x"
  "stop (set_xcmd_timestamp i s x) = stop x" "bad_state (set_xcmd_timestamp i s x) = bad_state x"
  "done_cnt (set_xcmd_timestamp i s x) = done_cnt x" "ready_cnt (set_xcmd_timestamp i s x) = ready_cnt x"
  "status (set_xcmd_timestamp i s x) = status x" "events (set_xcmd_timestamp i s x) = events x"
  "tick (set_xcmd_timestamp i s x) = tick x" "start_tick (set_xcmd_timestamp i s x) = start_tick x"
  "force_intr (set_xcmd_timestamp i s x) = force_intr x" "thread (set_xcmd_timestamp i s x) = thread x"
  "poll_count (set_xcmd_timestamp i s x) = poll_count x"
  "poll_threshold (set_xcmd_timestamp i s x) = poll_threshold x"
  "interrupt_used (set_xcmd_timestamp i s x) = interrupt_used x"
  "notified (set_xcmd_timestamp i s x) = notified x" "pc (set_xcmd_timestamp i s x) = pc x"
  "debug (set_xcmd_timestamp i s x) = debug x"
  "c_client (cmds (set_xcmd_timestamp i s x) j) = c_client (cmds x j)"
  "c_status (cmds (set_xcmd_timestamp i s x) j) = c_status (cmds x j)"
  "c_rcode (cmds (set_xcmd_timestamp i s x) j) = c_rcode (cmds x j)"
  "c_opcode (cmds (set_xcmd_timestamp i s x) j) = c_opcode (cmds x j)"
  "c_info (cmds (set_xcmd_timestamp i s x) j) = c_info (cmds x j)"
  "c_exec_bo_handle (cmds (set_xcmd_timestamp i s x) j) = c_exec_bo_handle (cmds x j)"
  "c_isize (cmds (set_xcmd_timestamp i s x) j) = c_isize (cmds x j)"
  "c_payload_type (cmds (set_xcmd_timestamp i s x) j) = c_payload_type (cmds x j)"
  by (simp_all add: set_xcmd_timestamp_def ktime_get_def Let_def split: prod.splits)

lemma produce_frame [frame_simps]:
  "cu_info (xrt_cu_circ_produce s i x) = cu_info x" "pq (xrt_cu_circ_produce s i x) = pq x"
  "num_pq (xrt_cu_circ_produce s i x) = num_pq x" "hpq (xrt_cu_circ_produce s i x) = hpq x"
  "num_hpq (xrt_cu_circ_produce s i x) = num_hpq x" "completion (xrt_cu_circ_produce s i x) = completion x"
  "rq (xrt_cu_circ_produce s i x) = rq x" "num_rq (xrt_cu_circ_produce s i x) = num_rq x"
  "num_sq (xrt_cu_circ_produce s i x) = num_sq x" "cq (xrt_cu_circ_produce s i x) = cq x"
  "num_cq (xrt_cu_circ_produce s i x) = num_cq x" "sem (xrt_cu_circ_produce s i x) = sem x"
  "sem_cu (xrt_cu_circ_produce s i x) = sem_cu x" "core (xrt_cu_circ_produce s i x) = core x"
  "stop (xrt_cu_circ_produce s i x) = stop x" "bad_state (xrt_cu_circ_produce s i x) = bad_state x"
  "done_cnt (xrt_cu_circ_produce s i x) = done_cnt x" "ready_cnt (xrt_cu_circ_produce s i x) = ready_cnt x"
  "status (xrt_cu_circ_produce s i x) = status x" "events (xrt_cu_circ_produce s i x) = events x"
  "tick (xrt_cu_circ_produce s i x) = tick x" "start_tick (xrt_cu_circ_produce s i x) = start_tick x"
  "force_intr (xrt_cu_circ_produce s i x) = force_intr x" "thread (xrt_cu_circ_produce s i x) = thread x"
  "poll_count (xrt_cu_circ_produce s i x) = poll_count x"
  "poll_threshold (xrt_cu_circ_produce s i x) = poll_threshold x"
  "interrupt_used (xrt_cu_circ_produce s i x) = interrupt_used x"
  "notified (xrt_cu_circ_produce s i x) = notified x" "pc (xrt_cu_circ_produce s i x) = pc x"
  "debug (xrt_cu_circ_produce s i x) = debug x" "cmds (xrt_cu_circ_produce s i x) = cmds x"
  "stats (xrt_cu_circ_produce s i x) = stats x"
  by (simp_all add: xrt_cu_circ_produce_def ktime_get_def Let_def split: prod.splits)

lemma ecmd_frame [frame_simps]:
  "cu_info (xrt_cu_incr_ecmd_count x) = cu_info x" "pq (xrt_cu_incr_ecmd_count x) = pq x"
  "num_pq (xrt_cu_incr_ecmd_count x) = num_pq x" "hpq (xrt_cu_incr_ecmd_count x) = hpq x"
  "num_hpq (xrt_cu_incr_ecmd_count x) = num_hpq x" "completion (xrt_cu_incr_ecmd_count x) = completion x"
  "rq (xrt_cu_incr_ecmd_count x) = rq x" "num_rq (xrt_cu_incr_ecmd_count x) = num_rq x"
  "num_sq (xrt_cu_incr_ecmd_count x) = num_sq x" "cq (xrt_cu_incr_ecmd_count x) = cq x"
  "num_cq (xrt_cu_incr_ecmd_count x) = num_cq x" "sem (xrt_cu_incr_ecmd_count x) = sem x"
  "sem_cu (xrt_cu_incr_ecmd_count x) = sem_cu x" "core (xrt_cu_incr_ecmd_count x) = core x"
  "stop (xrt_cu_incr_ecmd_count x) = stop x" "bad_state (xrt_cu_incr_ecmd_count x) = bad_state x"
  "done_cnt (xrt_cu_incr_ecmd_count x) = done_cnt x" "ready_cnt (xrt_cu_incr_ecmd_count x) = ready_cnt x"
  "status (xrt_cu_incr_ecmd_count x) = status x" "events (xrt_cu_incr_ecmd_count x) = events x"
  "tick (xrt_cu_incr_ecmd_count x) = tick x" "start_tick (xrt_cu_incr_ecmd_count x) = start_tick x"
  "force_intr (xrt_cu_incr_ecmd_count x) = force_intr x" "thread (xrt_cu_incr_ecmd_count x) = thread x"
  "poll_count (xrt_cu_incr_ecmd_count x) = poll_count x"
  "poll_threshold (xrt_cu_incr_ecmd_count x) = poll_threshold x"
  "interrupt_used (xrt_cu_incr_ecmd_count x) = interrupt_used x"
  "notified (xrt_cu_incr_ecmd_count x) = notified x" "pc (xrt_cu_incr_ecmd_count x) = pc x"
  "debug (xrt_cu_incr_ecmd_count x) = debug x" "cmds (xrt_cu_incr_ecmd_count x) = cmds x"
  by (simp_all add: xrt_cu_incr_ecmd_count_def Let_def split: prod.splits)

lemma idle_start_frame [frame_simps]:
  "cu_info (xrt_cu_idle_start x) = cu_info x" "pq (xrt_cu_idle_start x) = pq x"
  "num_pq (xrt_cu_idle_start x) = num_pq x" "hpq (xrt_cu_idle_start x) = hpq x"
  "num_hpq (xrt_cu_idle_start x) = num_hpq x" "completion (xrt_cu_idle_start x) = completion x"
  "rq (xrt_cu_idle_start x) = rq x" "num_rq (xrt_cu_idle_start x) = num_rq x"
  "num_sq (xrt_cu_idle_start x) = num_sq x" "cq (xrt_cu_idle_start x) = cq x"
  "num_cq (xrt_cu_idle_start x) = num_cq x" "sem (xrt_cu_idle_start x) = sem x"
  "sem_cu (xrt_cu_idle_start x) = sem_cu x" "core (xrt_cu_idle_start x) = core x"
  "stop (xrt_cu_idle_start x) = stop x" "bad_state (xrt_cu_idle_start x) = bad_state x"
  "done_cnt (xrt_cu_idle_start x) = done_cnt x" "ready_cnt (xrt_cu_idle_start x) = ready_cnt x"
  "status (xrt_cu_idle_start x) = status x" "events (xrt_cu_idle_start x) = events x"
  "tick (xrt_cu_idle_start x) = tick x" "start_tick (xrt_cu_idle_start x) = start_tick x"
  "force_intr (xrt_cu_idle_start x) = force_intr x" "thread (xrt_cu_idle_start x) = thread x"
  "poll_count (xrt_cu_idle_start x) = poll_count x"
  "poll_threshold (xrt_cu_idle_start x) = poll_threshold x"
  "interrupt_used (xrt_cu_idle_start x) = interrupt_used x" "notified (xrt_cu_idle_start x) = notified x"
  "pc (xrt_cu_idle_start x) = pc x" "debug (xrt_cu_idle_start x) = debug x"
  "cmds (xrt_cu_idle_start x) = cmds x"
  by (simp_all add: xrt_cu_idle_start_def ktime_get_def Let_def split: prod.splits)

lemma idle_end_frame [frame_simps]:
  "cu_info (xrt_cu_idle_end x) = cu_info x" "pq (xrt_cu_idle_end x) = pq x"
  "num_pq (xrt_cu_idle_end x) = num_pq x" "hpq (xrt_cu_idle_end x) = hpq x"
  "num_hpq (xrt_cu_idle_end x) = num_hpq x" "completion (xrt_cu_idle_end x) = completion x"
  "rq (xrt_cu_idle_end x) = rq x" "num_rq (xrt_cu_idle_end x) = num_rq x"
  "num_sq (xrt_cu_idle_end x) = num_sq x" "cq (xrt_cu_idle_end x) = cq x"
  "num_cq (xrt_cu_idle_end x) = num_cq x" "sem (xrt_cu_idle_end x) = sem x"
  "sem_cu (xrt_cu_idle_end x) = sem_cu x" "core (xrt_cu_idle_end x) = core x"
  "stop (xrt_cu_idle_end x) = stop x" "bad_state (xrt_cu_idle_end x) = bad_state x"
  "done_cnt (xrt_cu_idle_end x) = done_cnt x" "ready_cnt (xrt_cu_idle_end x) = ready_cnt x"
  "status (xrt_cu_idle_end x) = status x" "events (xrt_cu_idle_end x) = events x"
  "tick (xrt_cu_idle_end x) = tick x" "start_tick (xrt_cu_idle_end x) = start_tick x"
  "force_intr (xrt_cu_idle_end x) = force_intr x" "thread (xrt_cu_idle_end x) = thread x"
  "poll_count (xrt_cu_idle_end x) = poll_count x" "poll_threshold (xrt_cu_idle_end x) = poll_threshold x"
  "interrupt_used (xrt_cu_idle_end x) = interrupt_used x" "notified (xrt_cu_idle_end x) = notified x"
  "pc (xrt_cu_idle_end x) = pc x" "debug (xrt_cu_idle_end x) = debug x" "cmds (xrt_cu_idle_end x) = cmds x"
  by (simp_all add: xrt_cu_idle_end_def ktime_get_def Let_def split: prod.splits)

text \<open>
  \<open>noisy x y\<close>: the states differ only in what the queues do not depend on. A store may
  differ in time stamps.
\<close>

definition store_eq :: "cmd_store \<Rightarrow> cmd_store \<Rightarrow> bool" where
  "store_eq h h' \<longleftrightarrow> (\<forall>j. h' j = (h j)\<lparr>c_timestamp := c_timestamp (h' j)\<rparr>)"

definition noisy :: "'c xrt_cu \<Rightarrow> 'c xrt_cu \<Rightarrow> bool" where
  "noisy x y \<longleftrightarrow>
     cu_info y = cu_info x \<and> pq y = pq x \<and> num_pq y = num_pq x \<and> hpq y = hpq x \<and>
     num_hpq y = num_hpq x \<and> completion y = completion x \<and> rq y = rq x \<and>
     num_rq y = num_rq x \<and> num_sq y = num_sq x \<and> cq y = cq x \<and> num_cq y = num_cq x \<and>
     sem y = sem x \<and> sem_cu y = sem_cu x \<and> core y = core x \<and> stop y = stop x \<and>
     bad_state y = bad_state x \<and> done_cnt y = done_cnt x \<and> ready_cnt y = ready_cnt x \<and>
     status y = status x \<and> events y = events x \<and> tick y = tick x \<and>
     start_tick y = start_tick x \<and> force_intr y = force_intr x \<and> thread y = thread x \<and>
     poll_count y = poll_count x \<and> poll_threshold y = poll_threshold x \<and>
     interrupt_used y = interrupt_used x \<and> notified y = notified x \<and> pc y = pc x \<and>
     store_eq (cmds x) (cmds y)"

lemma store_eq_refl [simp]: "store_eq h h"
  by (simp add: store_eq_def)

lemma store_eq_fields:
  assumes "store_eq h h'"
  shows "c_client (h' j) = c_client (h j)" "c_status (h' j) = c_status (h j)" "c_rcode (h' j) = c_rcode (h j)"
    "c_opcode (h' j) = c_opcode (h j)" "c_info (h' j) = c_info (h j)"
    "c_exec_bo_handle (h' j) = c_exec_bo_handle (h j)" "c_isize (h' j) = c_isize (h j)"
    "c_payload_type (h' j) = c_payload_type (h j)"
proof -
  obtain t where "h' j = (h j)\<lparr>c_timestamp := t\<rparr>" using assms unfolding store_eq_def by blast
  then show "c_client (h' j) = c_client (h j)" "c_status (h' j) = c_status (h j)" "c_rcode (h' j) = c_rcode (h j)"
    "c_opcode (h' j) = c_opcode (h j)" "c_info (h' j) = c_info (h j)"
    "c_exec_bo_handle (h' j) = c_exec_bo_handle (h j)" "c_isize (h' j) = c_isize (h j)"
    "c_payload_type (h' j) = c_payload_type (h j)" by simp_all
qed

lemma store_eq_timestamp [simp]: "store_eq (cmds x) (cmds (set_xcmd_timestamp i s x))"
  by (simp add: store_eq_def set_xcmd_timestamp_def ktime_get_def)

lemma store_eq_trans: "store_eq h h' \<Longrightarrow> store_eq h' h'' \<Longrightarrow> store_eq h h''"
  unfolding store_eq_def by (metis kds_command.update_convs(12) kds_command.surjective kds_command.select_convs)

lemma noisy_trans: "noisy x y \<Longrightarrow> noisy y z \<Longrightarrow> noisy x z"
  unfolding noisy_def by (simp, blast intro: store_eq_trans)

section \<open>Queues and their counters\<close>

definition outstanding :: "('c \<Rightarrow> nat list) \<Rightarrow> ('c \<Rightarrow> nat list) \<Rightarrow> 'c xrt_cu \<Rightarrow> nat list" where
  "outstanding sub fin x = cq x @ fin (core x) @ sub (core x) @ rq x @ pq x"

definition flow :: "('c \<Rightarrow> nat list) \<Rightarrow> ('c \<Rightarrow> nat list) \<Rightarrow> 'c xrt_cu \<Rightarrow> nat list" where
  "flow sub fin x = map fst (notified x) @ outstanding sub fin x"

text \<open>The counters are the lengths of the queues, and no command is on two of them.\<close>

definition queues_ok :: "('c \<Rightarrow> nat list) \<Rightarrow> ('c \<Rightarrow> nat list) \<Rightarrow> 'c xrt_cu \<Rightarrow> bool" where
  "queues_ok sub fin x \<longleftrightarrow>
     num_pq x = word_of_nat (length (pq x)) \<and> num_rq x = word_of_nat (length (rq x)) \<and>
     num_cq x = word_of_nat (length (cq x)) \<and> num_hpq x = word_of_nat (length (hpq x)) \<and>
     num_sq x = word_of_nat (length (fin (core x)) + length (sub (core x))) \<and>
     length (outstanding sub fin x) < 2 ^ 32 \<and> length (hpq x) < 2 ^ 32 \<and>
     distinct (outstanding sub fin x)"

text \<open>No client closes, no abort is pending, and every completed command ended in one of the statuses \<open>S\<close>.\<close>

definition quiet :: "kds_status set \<Rightarrow> ('c \<Rightarrow> nat list) \<Rightarrow> ('c \<Rightarrow> nat list) \<Rightarrow> 'c xrt_cu \<Rightarrow> bool" where
  "quiet S sub fin x \<longleftrightarrow> events x = [] \<and> hpq x = [] \<and>
     (\<forall>i \<in> set (cq x @ fin (core x)). c_status (cmds x i) \<in> S) \<and> snd ` set (notified x) \<subseteq> S"

text \<open>The requests of the commands are the same; only results and time stamps may differ.\<close>

definition request :: "kds_command \<Rightarrow> nat \<times> kds_opcode \<times> u32 \<times> u32 list \<times> u64 \<times> u32" where
  "request k = (c_client k, c_opcode k, c_payload_type k, c_info k, c_isize k, c_exec_bo_handle k)"

definition same_requests :: "cmd_store \<Rightarrow> cmd_store \<Rightarrow> bool" where
  "same_requests h h' \<longleftrightarrow> (\<forall>j. request (h' j) = request (h j))"

lemma same_requests_refl [simp]: "same_requests h h"
  by (simp add: same_requests_def)

lemma store_eq_requests: "store_eq h h' \<Longrightarrow> same_requests h h'"
  by (simp add: same_requests_def request_def store_eq_fields)

lemma set_status_requests [simp]: "same_requests h (set_status s i h') \<longleftrightarrow> same_requests h h'"
  by (auto simp: same_requests_def request_def set_status_def)

lemma fold_set_status_requests [simp]: "same_requests h (fold (set_status s) is' h') \<longleftrightarrow> same_requests h h'"
  by (induction is' arbitrary: h') simp_all

definition advances :: "kds_status set \<Rightarrow> ('c \<Rightarrow> nat list) \<Rightarrow> ('c \<Rightarrow> nat list) \<Rightarrow> 'c xrt_cu \<Rightarrow> 'c xrt_cu \<Rightarrow> bool" where
  "advances S sub fin x y \<longleftrightarrow>
     queues_ok sub fin y \<and> mset (flow sub fin y) = mset (flow sub fin x) \<and> same_requests (cmds x) (cmds y) \<and>
     (quiet S sub fin x \<longrightarrow> flow sub fin y = flow sub fin x \<and> quiet S sub fin y)"

lemma advances_refl: "queues_ok sub fin x \<Longrightarrow> advances S sub fin x x"
  by (simp add: advances_def)

lemma advances_trans: "advances S sub fin x y \<Longrightarrow> advances S sub fin y z \<Longrightarrow> advances S sub fin x z"
  by (simp add: advances_def same_requests_def)

lemma noisy_advances: "queues_ok sub fin x \<Longrightarrow> noisy x y \<Longrightarrow> advances S sub fin x y"
  by (auto simp: noisy_def advances_def queues_ok_def flow_def outstanding_def quiet_def store_eq_fields store_eq_requests)

lemma advances_noisy: "advances S sub fin x y \<Longrightarrow> noisy y z \<Longrightarrow> advances S sub fin x z"
  by (meson advances_def advances_trans noisy_advances)

text \<open>Fields without a meaning for the queues.\<close>

lemma queues_ok_neutral [simp]:
  "queues_ok sub fin (x\<lparr>start_tick := v\<rparr>) \<longleftrightarrow> queues_ok sub fin x"
  "queues_ok sub fin (x\<lparr>bad_state := b\<rparr>) \<longleftrightarrow> queues_ok sub fin x"
  "queues_ok sub fin (x\<lparr>ready_cnt := v\<rparr>) \<longleftrightarrow> queues_ok sub fin x"
  "queues_ok sub fin (x\<lparr>poll_count := v\<rparr>) \<longleftrightarrow> queues_ok sub fin x"
  "queues_ok sub fin (x\<lparr>interrupt_used := v\<rparr>) \<longleftrightarrow> queues_ok sub fin x"
  "queues_ok sub fin (x\<lparr>stats := t\<rparr>) \<longleftrightarrow> queues_ok sub fin x"
  "queues_ok sub fin (x\<lparr>sem := n\<rparr>) \<longleftrightarrow> queues_ok sub fin x"
  "queues_ok sub fin (x\<lparr>sem_cu := n\<rparr>) \<longleftrightarrow> queues_ok sub fin x"
  "queues_ok sub fin (x\<lparr>tick := v\<rparr>) \<longleftrightarrow> queues_ok sub fin x"
  "queues_ok sub fin (x\<lparr>completion := n\<rparr>) \<longleftrightarrow> queues_ok sub fin x"
  "queues_ok sub fin (x\<lparr>pc := p\<rparr>) \<longleftrightarrow> queues_ok sub fin x"
  "queues_ok sub fin (x\<lparr>loop_cnt := v\<rparr>) \<longleftrightarrow> queues_ok sub fin x"
  "queues_ok sub fin (x\<lparr>sleep_cnt := v\<rparr>) \<longleftrightarrow> queues_ok sub fin x"
  "queues_ok sub fin (x\<lparr>thread_ret := v\<rparr>) \<longleftrightarrow> queues_ok sub fin x"
  "queues_ok sub fin (x\<lparr>stop := v\<rparr>) \<longleftrightarrow> queues_ok sub fin x"
  "queues_ok sub fin (x\<lparr>thread := b\<rparr>) \<longleftrightarrow> queues_ok sub fin x"
  "queues_ok sub fin (x\<lparr>done_cnt := v\<rparr>) \<longleftrightarrow> queues_ok sub fin x"
  "queues_ok sub fin (x\<lparr>debug := b\<rparr>) \<longleftrightarrow> queues_ok sub fin x"
  by (simp_all add: advances_def queues_ok_def outstanding_def flow_def quiet_def)

lemma advances_neutral [simp]:
  "advances S sub fin x (y\<lparr>start_tick := v\<rparr>) \<longleftrightarrow> advances S sub fin x y"
  "advances S sub fin x (y\<lparr>bad_state := b\<rparr>) \<longleftrightarrow> advances S sub fin x y"
  "advances S sub fin x (y\<lparr>ready_cnt := v\<rparr>) \<longleftrightarrow> advances S sub fin x y"
  "advances S sub fin x (y\<lparr>poll_count := v\<rparr>) \<longleftrightarrow> advances S sub fin x y"
  "advances S sub fin x (y\<lparr>interrupt_used := v\<rparr>) \<longleftrightarrow> advances S sub fin x y"
  "advances S sub fin x (y\<lparr>stats := t\<rparr>) \<longleftrightarrow> advances S sub fin x y"
  "advances S sub fin x (y\<lparr>sem := n\<rparr>) \<longleftrightarrow> advances S sub fin x y"
  "advances S sub fin x (y\<lparr>sem_cu := n\<rparr>) \<longleftrightarrow> advances S sub fin x y"
  "advances S sub fin x (y\<lparr>tick := v\<rparr>) \<longleftrightarrow> advances S sub fin x y"
  "advances S sub fin x (y\<lparr>completion := n\<rparr>) \<longleftrightarrow> advances S sub fin x y"
  "advances S sub fin x (y\<lparr>pc := p\<rparr>) \<longleftrightarrow> advances S sub fin x y"
  "advances S sub fin x (y\<lparr>loop_cnt := v\<rparr>) \<longleftrightarrow> advances S sub fin x y"
  "advances S sub fin x (y\<lparr>sleep_cnt := v\<rparr>) \<longleftrightarrow> advances S sub fin x y"
  "advances S sub fin x (y\<lparr>thread_ret := v\<rparr>) \<longleftrightarrow> advances S sub fin x y"
  "advances S sub fin x (y\<lparr>stop := v\<rparr>) \<longleftrightarrow> advances S sub fin x y"
  "advances S sub fin x (y\<lparr>thread := b\<rparr>) \<longleftrightarrow> advances S sub fin x y"
  "advances S sub fin x (y\<lparr>done_cnt := v\<rparr>) \<longleftrightarrow> advances S sub fin x y"
  "advances S sub fin x (y\<lparr>debug := b\<rparr>) \<longleftrightarrow> advances S sub fin x y"
  by (simp_all add: advances_def queues_ok_def outstanding_def flow_def quiet_def)

lemma counter_zero:
  assumes "n < 2 ^ 32"
  shows "(word_of_nat n :: u32) = 0 \<longleftrightarrow> n = 0"
proof
  assume "(word_of_nat n :: u32) = 0"
  then have "unat (word_of_nat n :: u32) = 0" by simp
  then show "n = 0" using unat_of_nat_small [of n, where ?'a = 32] assms by simp
qed simp

lemma counter_Suc: "Suc n < 2 ^ 32 \<Longrightarrow> (1 + word_of_nat n :: u32) \<noteq> 0"
  using counter_zero [of "Suc n"] by simp

lemma process_cq_spec:
  assumes "num_cq x = word_of_nat (length (cq x))" and "length (cq x) < 2 ^ 32"
  shows "\<exists>y. process_cq x = Some y \<and>
    noisy (x\<lparr>cq := [], num_cq := 0, notified := notified x @ map (\<lambda>i. (i, c_status (cmds x i))) (cq x),
      bad_state := (if cq x = [] then bad_state x else c_status (cmds x (last (cq x))) = KDS_SKCRASHED)\<rparr>) y"
  using assms
proof (induction "cq x" arbitrary: x)
  case Nil
  then show ?case by (simp add: process_cq.simps noisy_def)
next
  case (Cons i ks)
  let ?s = "c_status (cmds x i)"
  let ?a = "xrt_cu_circ_produce CU_LOG_STAGE_CQ i (set_xcmd_timestamp i ?s x)"
  let ?b = "xrt_cu_incr_ecmd_count (?a\<lparr>bad_state := (?s = KDS_SKCRASHED), notified := notified x @ [(i, ?s)]\<rparr>)"
  let ?c = "?b\<lparr>cq := ks, num_cq := num_cq x - 1\<rparr>"
  have n: "num_cq x \<noteq> 0" "num_cq x - 1 = word_of_nat (length ks)"
    using Cons.prems Cons.hyps(2) [symmetric] by (simp_all add: counter_Suc)
  then have "process_cq x = process_cq ?c"
    using Cons.hyps(2) [symmetric] by (subst process_cq.simps) (simp add: Let_def frame_simps)
  moreover obtain y where "process_cq ?c = Some y" and y: "noisy (?c\<lparr>cq := [], num_cq := 0,
      notified := notified ?c @ map (\<lambda>i. (i, c_status (cmds ?c i))) (cq ?c),
      bad_state := (if cq ?c = [] then bad_state ?c else c_status (cmds ?c (last (cq ?c))) = KDS_SKCRASHED)\<rparr>) y"
    using Cons.hyps(1) [of ?c] Cons.prems Cons.hyps(2) [symmetric] n by auto
  moreover have "noisy (x\<lparr>cq := [], num_cq := 0, notified := notified x @ map (\<lambda>i. (i, c_status (cmds x i))) (cq x),
      bad_state := (if cq x = [] then bad_state x else c_status (cmds x (last (cq x))) = KDS_SKCRASHED)\<rparr>)
      (?c\<lparr>cq := [], num_cq := 0,
      notified := notified ?c @ map (\<lambda>i. (i, c_status (cmds ?c i))) (cq ?c),
      bad_state := (if cq ?c = [] then bad_state ?c else c_status (cmds ?c (last (cq ?c))) = KDS_SKCRASHED)\<rparr>)"
    using Cons.hyps(2) [symmetric] by (simp add: noisy_def frame_simps)
  ultimately show ?case by (auto intro: noisy_trans)
qed

lemma process_cq_advances:
  assumes "queues_ok sub fin x" and "process_cq x = Some y"
  shows "advances S sub fin x y"
proof -
  let ?y = "x\<lparr>cq := [], num_cq := 0, notified := notified x @ map (\<lambda>i. (i, c_status (cmds x i))) (cq x),
    bad_state := (if cq x = [] then bad_state x else c_status (cmds x (last (cq x))) = KDS_SKCRASHED)\<rparr>"
  have "num_cq x = word_of_nat (length (cq x))" "length (cq x) < 2 ^ 32"
    using assms(1) by (simp_all add: queues_ok_def outstanding_def)
  from process_cq_spec [OF this] assms(2) have "noisy ?y y" by auto
  moreover have "advances S sub fin x ?y"
    using assms(1) by (auto simp: advances_def queues_ok_def outstanding_def flow_def quiet_def comp_def)
  ultimately show ?thesis using advances_noisy by blast
qed

lemma process_pq_spec:
  assumes "queues_ok sub fin x"
  shows "noisy (x\<lparr>rq := rq x @ pq x, pq := [], num_rq := num_rq x + num_pq x, num_pq := 0\<rparr>) (process_pq x)"
proof (cases "num_pq x = 0")
  case True
  then have "pq x = []" using assms counter_zero [of "length (pq x)"] by (simp add: queues_ok_def outstanding_def)
  with True show ?thesis by (simp add: process_pq_def noisy_def)
next
  case False
  then show ?thesis by (simp add: process_pq_def noisy_def Let_def frame_simps)
qed

lemma process_pq_advances:
  assumes "queues_ok sub fin x"
  shows "advances S sub fin x (process_pq x)"
proof -
  have "advances S sub fin x (x\<lparr>rq := rq x @ pq x, pq := [], num_rq := num_rq x + num_pq x, num_pq := 0\<rparr>)"
    using assms by (auto simp: advances_def queues_ok_def outstanding_def flow_def quiet_def)
  then show ?thesis using process_pq_spec [OF assms] advances_noisy by blast
qed

lemma set_status_fields [simp]:
  "c_client (set_status s i h j) = c_client (h j)" "c_opcode (set_status s i h j) = c_opcode (h j)"
  "c_info (set_status s i h j) = c_info (h j)" "c_exec_bo_handle (set_status s i h j) = c_exec_bo_handle (h j)"
  "c_status (set_status s i h j) = (if j = i then s else c_status (h j))"
  by (simp_all add: set_status_def)

lemma fold_abort_queued:
  assumes "rq x = ks' @ ks" and "distinct (rq x)"
    and "D = (\<lambda>i. c_client (cmds x i) = client \<or> bad_state x)"
  shows "fold (abort_queued client) ks x = x\<lparr>cmds := fold (set_status KDS_ABORT) (filter D ks) (cmds x),
    rq := ks' @ filter (\<lambda>i. \<not> D i) ks, cq := cq x @ filter D ks,
    num_cq := num_cq x + word_of_nat (length (filter D ks)), num_rq := num_rq x - word_of_nat (length (filter D ks))\<rparr>"
  using assms
proof (induction ks arbitrary: ks' x)
  case Nil
  then show ?case by simp
next
  case (Cons k ks)
  show ?case
  proof (cases "D k")
    case False
    then have "abort_queued client k x = x" using Cons.prems(3) by (auto simp: abort_queued_def)
    with Cons.IH [of x "ks' @ [k]"] Cons.prems False show ?thesis by simp
  next
    case True
    let ?y = "abort_queued client k x"
    have y: "?y = x\<lparr>cmds := set_status KDS_ABORT k (cmds x), rq := ks' @ ks, cq := cq x @ [k],
        num_cq := num_cq x + 1, num_rq := num_rq x - 1\<rparr>"
      using True Cons.prems by (auto simp: abort_queued_def move_to_cq_def remove1_append)
    have "distinct (rq ?y)" "rq ?y = ks' @ ks" using Cons.prems(1,2) by (simp_all add: y)
    moreover have "D = (\<lambda>i. c_client (cmds ?y i) = client \<or> bad_state ?y)" using Cons.prems(3) by (simp add: y)
    ultimately show ?thesis using Cons.IH [of ?y ks'] True by (simp add: y algebra_simps)
  qed
qed

section \<open>The contract\<close>

lemma mset_filter_split: "mset (filter P xs) + mset (filter (\<lambda>x. \<not> P x) xs) = mset xs"
  by (induction xs) auto

text \<open>Only the result fields of the commands in \<open>A\<close> change.\<close>

definition results_only :: "nat set \<Rightarrow> cmd_store \<Rightarrow> cmd_store \<Rightarrow> bool" where
  "results_only A h h' \<longleftrightarrow> (\<forall>j. j \<notin> A \<longrightarrow> h' j = h j) \<and>
     (\<forall>j. \<exists>s r. h' j = (h j)\<lparr>c_status := s, c_rcode := r\<rparr>)"

lemma results_only_requests: "results_only A h h' \<Longrightarrow> same_requests h h'"
proof -
  assume r: "results_only A h h'"
  have "request (h' j) = request (h j)" for j
  proof -
    obtain s r where "h' j = (h j)\<lparr>c_status := s, c_rcode := r\<rparr>" using r unfolding results_only_def by blast
    then show ?thesis by (simp add: request_def)
  qed
  then show ?thesis by (simp add: same_requests_def)
qed

text \<open>
  \<open>sub\<close> and \<open>fin\<close> are the commands the core runs and those it has finished, in order.
  A check finishes commands in the order of submission, with one of the statuses \<open>S\<close>; an
  abort finishes exactly the commands that match; no other function finishes or drops one.
\<close>

locale cu_core =
  fixes F :: "'c xcu_funcs" and sub fin :: "'c \<Rightarrow> nat list" and S :: "kds_status set"
  assumes alloc_keeps: "fn_alloc_credit F c = (n, c') \<Longrightarrow> sub c' = sub c \<and> fin c' = fin c"
    and free_keeps: "sub (fn_free_credit F n c) = sub c \<and> fin (fn_free_credit F n c) = fin c"
    and start_keeps: "sub (fn_start F c) = sub c \<and> fin (fn_start F c) = fin c"
    and enable_keeps: "sub (fn_enable_intr F t c) = sub c \<and> fin (fn_enable_intr F t c) = fin c"
    and disable_keeps: "sub (fn_disable_intr F t c) = sub c \<and> fin (fn_disable_intr F t c) = fin c"
    and clear_keeps: "fn_clear_intr F c = (t, c') \<Longrightarrow> sub c' = sub c \<and> fin c' = fin c"
    and check_finishes: "fn_check F force st h c = (st', h', c') \<Longrightarrow> \<exists>ks. sub c = ks @ sub c' \<and> fin c' = fin c @ ks \<and>
      results_only (set ks) h h' \<and> (\<forall>i \<in> set ks. c_status (h' i) \<in> S)"
    and submit_adds: "fn_submit_config F = Some f \<Longrightarrow> f h i c = Some (r, c') \<Longrightarrow>
      fin c' = fin c \<and> sub c' = (if r = 0 then sub c @ [i] else sub c)"
    and complete_pops: "\<exists>f. fn_get_complete F = Some f \<and> (\<forall>c i c'. f c = (i, c') \<longrightarrow> sub c' = sub c \<and>
      (case fin c of [] \<Rightarrow> i = None \<and> fin c' = [] | k # ks \<Rightarrow> i = Some k \<and> fin c' = ks))"
    and abort_finishes: "fn_abort F = Some g \<Longrightarrow> g m h c = (r, h', c') \<Longrightarrow>
      sub c' = filter (\<lambda>i. \<not> m (h i)) (sub c) \<and> fin c' = fin c @ filter (\<lambda>i. m (h i)) (sub c) \<and>
      results_only (set (filter (\<lambda>i. m (h i)) (sub c))) h h'"
begin

abbreviation ok :: "'c xrt_cu \<Rightarrow> bool" where "ok \<equiv> queues_ok sub fin"
abbreviation adv :: "'c xrt_cu \<Rightarrow> 'c xrt_cu \<Rightarrow> bool" where "adv \<equiv> advances S sub fin"

lemma get_credit_keeps:
  "xrt_cu_get_credit F x = (n, y) \<Longrightarrow> \<exists>c. y = x\<lparr>core := c\<rparr> \<and> sub c = sub (core x) \<and> fin c = fin (core x)"
  using alloc_keeps by (auto simp: xrt_cu_get_credit_def split: prod.splits)

lemma core_advances:
  assumes "ok x" and "sub c = sub (core x)" and "fin c = fin (core x)"
  shows "adv x (x\<lparr>core := c\<rparr>)"
  using assms by (auto simp: advances_def queues_ok_def outstanding_def flow_def quiet_def)

lemma check_advances: "ok x \<Longrightarrow> adv x (xrt_cu_check_with F force x)"
proof -
  assume ok: "ok x"
  obtain st h c where e: "fn_check F force \<lparr>num_done = 0, num_ready = 0, new_status = 0, st_rcode = 0\<rparr>
    (cmds x) (core x) = (st, h, c)" by (cases rule: prod_cases3)
  then obtain ks where ks: "sub (core x) = ks @ sub c" "fin c = fin (core x) @ ks" "results_only (set ks) (cmds x) h"
    "\<forall>i \<in> set ks. c_status (h i) \<in> S" using check_finishes by blast
  have "c_status (h i) \<in> S" if "i \<notin> set ks \<Longrightarrow> c_status (cmds x i) \<in> S" for i
    using that ks(3,4) unfolding results_only_def by metis
  then show ?thesis
    using ok ks(1,2) results_only_requests [OF ks(3)] unfolding xrt_cu_check_with_def e
    by (auto simp: advances_def queues_ok_def outstanding_def flow_def quiet_def ac_simps)
qed

lemma put_credit_advances: "ok x \<Longrightarrow> adv x (xrt_cu_put_credit F n x)"
  unfolding xrt_cu_put_credit_def using free_keeps by (simp add: core_advances)

lemma get_complete_loop_spec:
  assumes "set (fin (core x)) \<inter> set (rq x) = {}"
  shows "\<exists>y c. get_complete_loop F logged x = Some y \<and> fin c = [] \<and> sub c = sub (core x) \<and>
    noisy (x\<lparr>core := c, cq := cq x @ fin (core x), num_cq := num_cq x + word_of_nat (length (fin (core x))),
      num_sq := num_sq x - word_of_nat (length (fin (core x)))\<rparr>) y"
  using assms
proof (induction "fin (core x)" arbitrary: x)
  case Nil
  obtain f where f: "fn_get_complete F = Some f" and p: "\<And>c i c'. f c = (i, c') \<Longrightarrow> sub c' = sub c \<and>
      (case fin c of [] \<Rightarrow> i = None \<and> fin c' = [] | k # ks \<Rightarrow> i = Some k \<and> fin c' = ks)"
    using complete_pops by blast
  obtain i c where "f (core x) = (i, c)" by fastforce
  with p [OF this] Nil(1) [symmetric] show ?case
    by (intro exI [of _ "x\<lparr>core := c\<rparr>"] exI [of _ c])
      (simp add: get_complete_loop.simps xrt_cu_get_complete_def f noisy_def)
next
  case (Cons k ks)
  obtain f where f: "fn_get_complete F = Some f" and p: "\<And>c i c'. f c = (i, c') \<Longrightarrow> sub c' = sub c \<and>
      (case fin c of [] \<Rightarrow> i = None \<and> fin c' = [] | k # ks \<Rightarrow> i = Some k \<and> fin c' = ks)"
    using complete_pops by blast
  obtain i c where fc: "f (core x) = (i, c)" by fastforce
  with p [OF this] Cons(2) [symmetric] have c: "sub c = sub (core x)" "i = Some k" "fin c = ks" by simp_all
  let ?a = "if logged then xrt_cu_circ_produce CU_LOG_STAGE_SQ k (x\<lparr>core := c\<rparr>) else x\<lparr>core := c\<rparr>"
  let ?b = "(move_to_cq k ?a)\<lparr>num_sq := num_sq x - 1\<rparr>"
  have r: "remove1 k (rq x) = rq x" using Cons(2) [symmetric] Cons.prems by (simp add: remove1_idem)
  have e: "get_complete_loop F logged x = get_complete_loop F logged ?b"
    by (subst get_complete_loop.simps)
      (simp add: xrt_cu_get_complete_def f fc c Let_def move_to_cq_def frame_simps)
  have "core ?b = c" "rq ?b = rq x" by (simp_all add: move_to_cq_def frame_simps r)
  then obtain y c' where y: "get_complete_loop F logged ?b = Some y" "fin c' = []" "sub c' = sub c"
    "noisy (?b\<lparr>core := c', cq := cq ?b @ ks, num_cq := num_cq ?b + word_of_nat (length ks),
      num_sq := num_sq ?b - word_of_nat (length ks)\<rparr>) y"
    using Cons(1) [of ?b] c(3) Cons.prems Cons(2) [symmetric] by auto
  have "noisy (x\<lparr>core := c', cq := cq x @ fin (core x), num_cq := num_cq x + word_of_nat (length (fin (core x))),
      num_sq := num_sq x - word_of_nat (length (fin (core x)))\<rparr>)
      (?b\<lparr>core := c', cq := cq ?b @ ks, num_cq := num_cq ?b + word_of_nat (length ks),
      num_sq := num_sq ?b - word_of_nat (length ks)\<rparr>)"
    using Cons(2) [symmetric] by (simp add: noisy_def move_to_cq_def frame_simps r)
  then have "noisy (x\<lparr>core := c', cq := cq x @ fin (core x),
      num_cq := num_cq x + word_of_nat (length (fin (core x))),
      num_sq := num_sq x - word_of_nat (length (fin (core x)))\<rparr>) y" using y(4) by (rule noisy_trans)
  with y(1-3) c(1) show ?case unfolding e by (intro exI [of _ y] exI [of _ c']) simp
qed

lemma get_complete_loop_advances:
  assumes "ok x" and "get_complete_loop F logged x = Some y"
  shows "adv x y"
proof -
  have "set (fin (core x)) \<inter> set (rq x) = {}" using assms(1) by (auto simp: queues_ok_def outstanding_def)
  then obtain c where c: "fin c = []" "sub c = sub (core x)"
    "noisy (x\<lparr>core := c, cq := cq x @ fin (core x), num_cq := num_cq x + word_of_nat (length (fin (core x))),
      num_sq := num_sq x - word_of_nat (length (fin (core x)))\<rparr>) y"
    using get_complete_loop_spec [of x logged] assms(2) by auto
  have "adv x (x\<lparr>core := c, cq := cq x @ fin (core x), num_cq := num_cq x + word_of_nat (length (fin (core x))),
      num_sq := num_sq x - word_of_nat (length (fin (core x)))\<rparr>)"
    using assms(1) c(1,2) by (auto simp: advances_def queues_ok_def outstanding_def flow_def quiet_def)
  with c(3) show ?thesis using advances_noisy by blast
qed

lemma cmd_abort_advances:
  assumes "ok x" and "\<not> quiet S sub fin x" and "xrt_cu_cmd_abort F m x = (r, y)"
  shows "adv x y"
proof (cases "fn_abort F")
  case None
  with assms show ?thesis by (simp add: xrt_cu_cmd_abort_def advances_refl)
next
  case (Some g)
  then obtain h c where y: "y = x\<lparr>cmds := h, core := c\<rparr>" and g: "g m (cmds x) (core x) = (r, h, c)"
    using assms(3) by (auto simp: xrt_cu_cmd_abort_def split: prod.splits)
  let ?M = "\<lambda>i. m (cmds x i)"
  have c: "sub c = filter (\<lambda>i. \<not> ?M i) (sub (core x))" "fin c = fin (core x) @ filter ?M (sub (core x))"
    using abort_finishes [OF Some g] by simp_all
  have p: "mset (outstanding sub fin y) = mset (outstanding sub fin x)"
    using mset_filter_split [of ?M "sub (core x)"] by (simp add: outstanding_def y c)
  have "length (fin c) + length (sub c) = length (fin (core x)) + length (sub (core x))"
    using sum_length_filter_compl [of ?M "sub (core x)"] by (simp add: c)
  then have "ok y"
    using assms(1) p mset_eq_length [OF p] mset_eq_imp_distinct_iff [OF p] unfolding queues_ok_def y by simp
  moreover have "same_requests (cmds x) h" using abort_finishes [OF Some g] results_only_requests by blast
  ultimately show ?thesis using p assms(2) by (simp add: advances_def flow_def y)
qed

lemma abort_submitted_advances:
  assumes "ok x"
  shows "adv x (abort_submitted F x)"
proof (cases "first_event_client_or_null x")
  case None
  with assms show ?thesis by (simp add: abort_submitted_def advances_refl)
next
  case (Some client)
  then have "\<not> quiet S sub fin x" by (auto simp: first_event_client_or_null_def quiet_def split: list.splits)
  then have "adv x y" if "xrt_cu_cmd_abort F (abort_client client) x = (r, y)" for r y
    using cmd_abort_advances [OF assms _ that] by simp
  with assms Some show ?thesis by (auto simp: abort_submitted_def advances_refl split: prod.splits)
qed

lemma process_sq_after_check_advances:
  assumes "ok x" and "process_sq_after_check F x = Some y"
  shows "adv x y"
proof -
  define x' where "x' = (if ready_cnt x \<noteq> 0 then (xrt_cu_put_credit F (ready_cnt x) x)\<lparr>ready_cnt := 0\<rparr> else x)"
  have a: "adv x x'" using put_credit_advances assms(1) by (simp add: x'_def advances_refl)
  then have ok': "ok x'" by (simp add: advances_def)
  show ?thesis
  proof (cases "num_sq x' = 0")
    case True
    with a assms(2) show ?thesis by (simp add: process_sq_after_check_def x'_def Let_def)
  next
    case False
    then obtain z where z: "get_complete_loop F True (abort_submitted F x') = Some z" and y: "y = xrt_cu_idle_start z"
      using assms(2) unfolding process_sq_after_check_def x'_def [symmetric] by auto
    have b: "adv x' (abort_submitted F x')" using ok' by (rule abort_submitted_advances)
    then have "adv (abort_submitted F x') z" using z by (intro get_complete_loop_advances) (auto simp: advances_def)
    then have "adv x z" using a b by (blast intro: advances_trans)
    moreover have "noisy z y" by (simp add: noisy_def y frame_simps)
    ultimately show ?thesis by (rule advances_noisy)
  qed
qed

lemma process_sq_advances:
  assumes "ok x" and "process_sq F x = Some y"
  shows "adv x y"
proof (cases "num_sq x = 0 \<and> \<not> is_zero_credit F x")
  case True
  with assms show ?thesis by (simp add: process_sq_def advances_refl)
next
  case False
  have "adv x (xrt_cu_check F x)" using assms(1) unfolding xrt_cu_check_def by (rule check_advances)
  moreover have "process_sq_after_check F (xrt_cu_check F x) = Some y" using False assms(2) by (auto simp: process_sq_def)
  ultimately show ?thesis
    using process_sq_after_check_advances by (meson advances_def advances_trans)
qed

lemma abort_rq_advances:
  assumes "ok x" and "first_event_client_or_null x = Some client"
  shows "adv x (fold (abort_queued client) (rq x) x)"
proof -
  define D where "D = (\<lambda>i. c_client (cmds x i) = client \<or> bad_state x)"
  have d: "distinct (rq x)" using assms(1) by (simp add: queues_ok_def outstanding_def)
  let ?y = "x\<lparr>cmds := fold (set_status KDS_ABORT) (filter D (rq x)) (cmds x), rq := filter (\<lambda>i. \<not> D i) (rq x),
    cq := cq x @ filter D (rq x), num_cq := num_cq x + word_of_nat (length (filter D (rq x))),
    num_rq := num_rq x - word_of_nat (length (filter D (rq x)))\<rparr>"
  have y: "fold (abort_queued client) (rq x) x = ?y"
    using fold_abort_queued [OF _ d D_def, of "[]"] by simp
  have p: "mset (outstanding sub fin ?y) = mset (outstanding sub fin x)"
    using mset_filter_split [of D "rq x"] by (simp add: outstanding_def)
  have "word_of_nat (length (rq x)) - word_of_nat (length (filter D (rq x)))
    = (word_of_nat (length (filter (\<lambda>i. \<not> D i) (rq x))) :: u32)"
    using sum_length_filter_compl [of D "rq x"] by (metis add_diff_cancel_left' of_nat_add)
  then have "ok ?y"
    using assms(1) mset_eq_length [OF p] mset_eq_imp_distinct_iff [OF p] unfolding queues_ok_def by simp
  moreover have "\<not> quiet S sub fin x"
    using assms(2) by (auto simp: first_event_client_or_null_def quiet_def split: list.splits)
  ultimately show ?thesis using p unfolding y by (simp add: advances_def flow_def)
qed

lemma start_submitted_noisy:
  "\<exists>c p q. sub c = sub (core x) \<and> fin c = fin (core x) \<and>
     noisy (x\<lparr>core := c, num_sq := num_sq x + 1, num_rq := num_rq x - 1, poll_count := p, interrupt_used := q\<rparr>)
       (start_submitted F i x)"
proof -
  let ?y = "start_submitted F i x"
  have "noisy (x\<lparr>core := core ?y, num_sq := num_sq x + 1, num_rq := num_rq x - 1, poll_count := poll_count ?y,
    interrupt_used := interrupt_used ?y\<rparr>) ?y"
    by (simp add: start_submitted_def noisy_def Let_def frame_simps xrt_cu_start_def xrt_cu_switch_to_poll_def
        xrt_cu_disable_intr_def store_eq_def set_xcmd_timestamp_def ktime_get_def)
  moreover have "sub (core ?y) = sub (core x) \<and> fin (core ?y) = fin (core x)"
    using start_keeps disable_keeps
    by (simp add: start_submitted_def Let_def frame_simps xrt_cu_start_def xrt_cu_switch_to_poll_def xrt_cu_disable_intr_def)
  ultimately show ?thesis by blast
qed

lemma process_rq_submit:
  assumes "process_rq F x = Some (again, y)" and "num_rq x \<noteq> 0" and "first_event_client_or_null x = None"
    and "rq x = i # is'"
  obtains c where "sub c = sub (core x)" "fin c = fin (core x)" "y = x\<lparr>core := c\<rparr>" "\<not> again"
  | c p q where "sub c = sub (core x) @ [i]" "fin c = fin (core x)" again
    "noisy (x\<lparr>rq := is', core := c, num_sq := num_sq x + 1, num_rq := num_rq x - 1, poll_count := p, interrupt_used := q\<rparr>) y"
proof -
  obtain n c1 where c1: "xrt_cu_get_credit F x = (n, x\<lparr>core := c1\<rparr>)" "sub c1 = sub (core x)" "fin c1 = fin (core x)"
    using get_credit_keeps by (metis surj_pair)
  show thesis
  proof (cases "n = 0")
    case True
    then show thesis using assms c1 that(1) by (auto simp: process_rq_def)
  next
    case False
    then obtain r c2 where c2: "xrt_cu_submit_config F i (x\<lparr>core := c1\<rparr>) = Some (r, x\<lparr>core := c2\<rparr>)"
      "fin c2 = fin c1" "sub c2 = (if r = 0 then sub c1 @ [i] else sub c1)"
      using assms c1(1) submit_adds
      by (auto simp: process_rq_def xrt_cu_submit_config_def EINVAL_def split: option.splits)
    show thesis
    proof (cases "r = 0")
      case False
      then show thesis
        using assms c1 c2 \<open>n \<noteq> 0\<close> free_keeps
        by (intro that(1) [of "fn_free_credit F 1 c2"]) (auto simp: process_rq_def xrt_cu_put_credit_def)
    next
      case True
      let ?x = "x\<lparr>core := c2, rq := is'\<rparr>"
      have "y = start_submitted F i ?x" again using assms c1 c2 \<open>n \<noteq> 0\<close> True by (simp_all add: process_rq_def)
      then show thesis
        using start_submitted_noisy [of ?x i] c1 c2 True by (auto intro: that(2))
    qed
  qed
qed

lemma process_rq_advances:
  assumes "ok x" and "process_rq F x = Some (again, y)"
  shows "adv x y" and "again \<Longrightarrow> length (rq y) < length (rq x)"
proof -
  have "adv x y \<and> (again \<longrightarrow> length (rq y) < length (rq x))"
  proof (cases "num_rq x = 0")
    case True
    with assms show ?thesis by (simp add: process_rq_def advances_refl)
  next
    case False
    show ?thesis
    proof (cases "first_event_client_or_null x")
      case (Some client)
      with False assms abort_rq_advances [OF assms(1) Some] show ?thesis by (auto simp: process_rq_def)
    next
      case None
      obtain i is' where r: "rq x = i # is'" using False assms(1) by (cases "rq x") (auto simp: queues_ok_def)
      from assms(2) False None r show ?thesis
      proof (cases rule: process_rq_submit)
        case (1 c)
        with assms(1) core_advances show ?thesis by simp
      next
        case (2 c p q)
        have "adv x (x\<lparr>rq := is', core := c, num_sq := num_sq x + 1, num_rq := num_rq x - 1, poll_count := p,
            interrupt_used := q\<rparr>)"
          using assms(1) 2(1,2) r by (auto simp: advances_def queues_ok_def outstanding_def flow_def quiet_def)
        moreover have "rq y = is'" using 2(4) by (simp add: noisy_def)
        ultimately show ?thesis using r advances_noisy [OF _ 2(4)] by auto
      qed
    qed
  qed
  then show "adv x y" and "again \<Longrightarrow> length (rq y) < length (rq x)" by auto
qed

lemma process_rq_loop_advances:
  assumes "ok x" and "process_rq_loop F x = Some y"
  shows "adv x y"
  using assms
proof (induction "length (rq x)" arbitrary: x rule: less_induct)
  case less
  obtain again z where z: "process_rq F x = Some (again, z)"
    using less.prems(2) by (subst (asm) process_rq_loop.simps) (auto split: option.splits)
  note a = process_rq_advances [OF less.prems(1) z]
  show ?case
  proof (cases again)
    case True
    then have "process_rq_loop F z = Some y" using less.prems(2) z by (subst (asm) process_rq_loop.simps) simp
    then have "adv z y" using less.hyps [of z] a True by (auto simp: advances_def)
    with a(1) show ?thesis by (rule advances_trans)
  next
    case False
    then have "z = y" using less.prems(2) z by (subst (asm) process_rq_loop.simps) simp
    with a(1) show ?thesis by simp
  qed
qed

lemma try_abort_cmd_advances:
  assumes "ok x" and "\<not> quiet S sub fin x" and "try_abort_cmd F a x = Some y"
  shows "adv x y"
proof -
  obtain handle where w: "word_at (c_info (cmds x a)) 0 = Some handle"
    using assms(3) by (cases "word_at (c_info (cmds x a)) 0") (auto simp: try_abort_cmd_def)
  show ?thesis
  proof (cases "find (\<lambda>i. c_exec_bo_handle (cmds x i) = handle) (rq x)")
    case (Some i)
    then have i: "i \<in> set (rq x)" by (auto simp: find_Some_iff)
    let ?h = "set_status KDS_ABORT i (set_status KDS_COMPLETED a (cmds x))"
    have y: "y = x\<lparr>cmds := ?h, rq := remove1 i (rq x), cq := cq x @ [i], num_cq := num_cq x + 1, num_rq := num_rq x - 1\<rparr>"
      using assms(3) w Some by (simp add: try_abort_cmd_def move_to_cq_def Let_def)
    have p: "mset (outstanding sub fin y) = mset (outstanding sub fin x)"
      using i by (simp add: outstanding_def y)
    have "length (rq x) = Suc (length (remove1 i (rq x)))"
      using i length_pos_if_in_set [OF i] by (simp add: length_remove1)
    then have "word_of_nat (length (rq x)) - 1 = (word_of_nat (length (remove1 i (rq x))) :: u32)" by simp
    then have "ok y"
      using assms(1) mset_eq_length [OF p] mset_eq_imp_distinct_iff [OF p] unfolding queues_ok_def by (simp add: y)
    with p assms(2) show ?thesis by (simp add: advances_def flow_def y)
  next
    case None
    show ?thesis
    proof (cases "num_sq x = 0")
      case True
      with assms w None show ?thesis by (simp add: try_abort_cmd_def advances_refl)
    next
      case False
      obtain r z where z: "xrt_cu_cmd_abort F (abort_handle handle) x = (r, z)" by fastforce
      let ?z = "if r \<noteq> 0 then z\<lparr>bad_state := True, cmds := set_status KDS_TIMEOUT a (cmds z)\<rparr>
        else z\<lparr>cmds := set_status KDS_COMPLETED a (cmds z)\<rparr>"
      have "adv x z" using assms(1,2) z by (rule cmd_abort_advances)
      then have z': "adv x ?z" using assms(2) by (auto simp: advances_def queues_ok_def outstanding_def flow_def)
      moreover have "get_complete_loop F False ?z = Some y" using assms(3) w None False z by (simp add: try_abort_cmd_def)
      ultimately show ?thesis using get_complete_loop_advances by (meson advances_def advances_trans)
    qed
  qed
qed

lemma get_complete_loop_hpq:
  assumes "ok x" and "get_complete_loop F logged x = Some y"
  shows "hpq y = hpq x \<and> num_hpq y = num_hpq x \<and> completion y = completion x"
proof -
  have "set (fin (core x)) \<inter> set (rq x) = {}" using assms(1) by (auto simp: queues_ok_def outstanding_def)
  from get_complete_loop_spec [OF this, of logged] assms(2) show ?thesis by (auto simp: noisy_def)
qed

lemma try_abort_cmd_hpq:
  assumes "ok x" and "\<not> quiet S sub fin x" and "try_abort_cmd F a x = Some y"
  shows "hpq y = hpq x \<and> num_hpq y = num_hpq x \<and> completion y = completion x"
proof -
  obtain handle where w: "word_at (c_info (cmds x a)) 0 = Some handle"
    using assms(3) by (cases "word_at (c_info (cmds x a)) 0") (auto simp: try_abort_cmd_def)
  obtain r z where z: "xrt_cu_cmd_abort F (abort_handle handle) x = (r, z)" by fastforce
  let ?z = "if r \<noteq> 0 then z\<lparr>bad_state := True, cmds := set_status KDS_TIMEOUT a (cmds z)\<rparr>
    else z\<lparr>cmds := set_status KDS_COMPLETED a (cmds z)\<rparr>"
  have "ok z" using cmd_abort_advances [OF assms(1,2) z] by (simp add: advances_def)
  then have "ok ?z" by (simp add: queues_ok_def outstanding_def)
  moreover have "hpq ?z = hpq x" "num_hpq ?z = num_hpq x" "completion ?z = completion x"
    using z by (auto simp: xrt_cu_cmd_abort_def split: option.splits prod.splits)
  ultimately show ?thesis
    using assms(3) w z get_complete_loop_hpq [of ?z False y]
    by (auto simp: try_abort_cmd_def move_to_cq_def Let_def split: option.splits if_splits)
qed

lemma process_hpq_loop_advances:
  assumes "ok x" and "hpq x = as" and "process_hpq_loop F as x = Some y"
  shows "adv x y \<and> hpq y = [] \<and> completion y = completion x"
  using assms
proof (induction as arbitrary: x)
  case Nil
  then show ?case by (simp add: advances_refl)
next
  case (Cons a as)
  then have q: "\<not> quiet S sub fin x" by (simp add: quiet_def)
  obtain z where z: "(if c_opcode (cmds x a) = OP_ABORT then try_abort_cmd F a x else Some x) = Some z"
    and y: "process_hpq_loop F as (z\<lparr>hpq := as, num_hpq := num_hpq z - 1\<rparr>) = Some y"
    using Cons.prems(3) by (auto split: option.splits)
  have h: "hpq z = a # as" "num_hpq z = num_hpq x" "completion z = completion x" if "try_abort_cmd F a x = Some z"
    using try_abort_cmd_hpq [OF Cons.prems(1) q that] Cons.prems(2) by simp_all
  have "adv x z" using z try_abort_cmd_advances [OF Cons.prems(1) q] Cons.prems(1) by (auto simp: advances_refl split: if_splits)
  moreover have hz: "hpq z = a # as" "completion z = completion x" using z h Cons.prems(2) by (auto split: if_splits)
  ultimately have "adv x (z\<lparr>hpq := as, num_hpq := num_hpq z - 1\<rparr>)"
    using q by (auto simp: advances_def queues_ok_def outstanding_def flow_def)
  moreover from this have "ok (z\<lparr>hpq := as, num_hpq := num_hpq z - 1\<rparr>)" by (simp add: advances_def)
  ultimately show ?case using Cons.IH [OF _ _ y] hz(2) by (auto intro: advances_trans)
qed

lemma process_hpq_advances:
  assumes "ok x" and "process_hpq F x = Some y"
  shows "adv x y"
  using assms process_hpq_loop_advances [OF assms(1) refl]
  by (auto simp: process_hpq_def advances_refl split: if_splits)

lemma process_hpq_wakes_once:
  assumes "ok x" and "hpq x \<noteq> []" and "process_hpq F x = Some y"
  shows "hpq y = [] \<and> completion y = Suc (completion x)"
proof -
  have "num_hpq x \<noteq> 0" using assms(1,2) counter_zero [of "length (hpq x)"] by (simp add: queues_ok_def)
  then obtain z where "process_hpq_loop F (hpq x) x = Some z" "y = z\<lparr>completion := Suc (completion z)\<rparr>"
    using assms(3) by (auto simp: process_hpq_def)
  with process_hpq_loop_advances [OF assms(1) refl] show ?thesis by simp
qed

lemma process_queues_advances:
  assumes "ok x" and "xrt_cu_process_queues F x = Some (r, y)"
  shows "adv x y"
proof -
  obtain a b c where s: "process_rq_loop F (process_pq x) = Some a" "process_cq a = Some b" "process_sq F b = Some c"
    "process_hpq F c = Some y"
    using assms(2) by (auto simp: xrt_cu_process_queues_def split: Option.bind_splits)
  have 0: "adv x (process_pq x)" using assms(1) by (rule process_pq_advances)
  have 1: "adv (process_pq x) a" using 0 s(1) by (intro process_rq_loop_advances) (simp_all add: advances_def)
  have 2: "adv a b" using 1 s(2) by (intro process_cq_advances) (simp_all add: advances_def)
  have 3: "adv b c" using 2 s(3) by (intro process_sq_advances) (simp_all add: advances_def)
  have 4: "adv c y" using 3 s(4) by (intro process_hpq_advances) (simp_all add: advances_def)
  from 0 1 2 3 4 show ?thesis by (blast intro: advances_trans)
qed

lemma adv_then: "adv x y \<Longrightarrow> (ok y \<Longrightarrow> adv y z) \<Longrightarrow> adv x z"
  by (meson advances_def advances_trans)

lemma switch_to_interrupt_advances: "ok x \<Longrightarrow> adv x (xrt_cu_switch_to_interrupt F x)"
  unfolding xrt_cu_switch_to_interrupt_def xrt_cu_enable_intr_def using enable_keeps by (simp add: core_advances)

lemma thread_tail_advances:
  assumes "ok x" and "thread_tail F x = Some y"
  shows "adv x y"
proof -
  obtain a where a: "process_hpq F x = Some a" using assms(2) by (auto simp: thread_tail_def split: Option.bind_splits)
  have 1: "adv x a" using assms(1) a by (rule process_hpq_advances)
  define b where "b = (if loop_cnt a + 1 = MAX_CU_LOOP then a\<lparr>loop_cnt := 0\<rparr> else a\<lparr>loop_cnt := loop_cnt a + 1\<rparr>)"
  have y: "y = (if num_rq b \<noteq> 0 then b\<lparr>pc := At_loop\<rparr>
    else if num_sq b = 0 \<and> num_cq b = 0
    then (if num_pq b = 0 then xrt_cu_check_force F (b\<lparr>loop_cnt := 0\<rparr>) else b\<lparr>loop_cnt := 0\<rparr>)\<lparr>pc := In_sem\<rparr>
    else (process_pq b)\<lparr>pc := At_loop\<rparr>)"
    using assms(2) a by (auto simp: thread_tail_def b_def Let_def split: if_splits)
  have 2: "adv x b" using 1 by (simp add: b_def)
  then have 3: "adv x (b\<lparr>loop_cnt := 0\<rparr>)" by simp
  have "adv x (process_pq b)" using 2 process_pq_advances by (blast intro: adv_then)
  moreover have "adv x (xrt_cu_check_force F (b\<lparr>loop_cnt := 0\<rparr>))"
    unfolding xrt_cu_check_force_def using 3 check_advances by (blast intro: adv_then)
  ultimately show ?thesis using 2 3 by (simp add: y)
qed

lemma thread_loop_advances:
  assumes "ok x" and "thread_loop F x = Some y"
  shows "adv x y"
proof -
  obtain again a where a: "process_rq F x = Some (again, a)"
    using assms(2) by (auto simp: thread_loop_def split: Option.bind_splits)
  have 1: "adv x a" using assms(1) a by (rule process_rq_advances)
  show ?thesis
  proof (cases again)
    case True
    with 1 assms(2) a show ?thesis by (auto simp: thread_loop_def)
  next
    case False
    obtain b where b: "process_cq a = Some b"
      using assms(2) a False by (auto simp: thread_loop_def split: Option.bind_splits)
    have 2: "adv x b" using 1 b process_cq_advances by (blast intro: adv_then)
    then have 3: "adv x (xrt_cu_check F b)" unfolding xrt_cu_check_def using check_advances by (blast intro: adv_then)
    have poll: "adv x y" if "process_sq F b = Some c" "z = c\<lparr>poll_count := poll_count c + 1\<rparr>"
      "thread_tail F (if poll_count z \<ge> poll_threshold z then xrt_cu_switch_to_interrupt F z else z) = Some y" for c z
    proof -
      have "adv x z" using 2 that(1,2) process_sq_advances by (auto intro: adv_then)
      then have "adv x (if poll_count z \<ge> poll_threshold z then xrt_cu_switch_to_interrupt F z else z)"
        using switch_to_interrupt_advances by (auto intro: adv_then)
      then show ?thesis using that(3) thread_tail_advances by (blast intro: adv_then)
    qed
    have "adv x y" if "process_sq_after_check F (xrt_cu_check F b) = Some c" "thread_tail F c = Some y" for c
      using 3 that process_sq_after_check_advances thread_tail_advances by (blast intro: adv_then)
    moreover have "adv x y" if "thread_tail F b = Some y"
      using 2 that thread_tail_advances by (blast intro: adv_then)
    moreover have "adv x (xrt_cu_check F b\<lparr>sleep_cnt := n, pc := In_sem_cu\<rparr>)" for n using 3 by simp
    moreover have y: "(if num_sq b \<noteq> 0 \<or> is_zero_credit F b
       then if interrupt_used b = 0
         then process_sq F b \<bind> (\<lambda>c. let z = c\<lparr>poll_count := poll_count c + 1\<rparr> in
           thread_tail F (if poll_count z \<ge> poll_threshold z then xrt_cu_switch_to_interrupt F z else z))
         else let z = xrt_cu_check F b in
           if done_cnt z = 0 \<or> ready_cnt z = 0 then Some (z\<lparr>sleep_cnt := sleep_cnt z + 1, pc := In_sem_cu\<rparr>)
           else process_sq_after_check F z \<bind> thread_tail F
       else thread_tail F b) = Some y"
      using assms(2) a b False unfolding thread_loop_def by (simp add: Let_def)
    ultimately show ?thesis
      by (cases "process_sq F b"; cases "process_sq_after_check F (xrt_cu_check F b)")
        (auto simp: Let_def dest: poll [OF _ refl] split: if_splits)
  qed
qed

lemma thread_wake_cu_advances:
  assumes "ok x" and "thread_wake_cu F timeout x = Some y"
  shows "adv x y"
proof -
  let ?a = "if timeout then x\<lparr>thread_ret := - EINTR_RESTART\<rparr> else x\<lparr>sem_cu := sem_cu x - 1\<rparr>"
  obtain b where b: "process_sq_after_check F (xrt_cu_check F ?a) = Some b" "thread_tail F b = Some y"
    using assms(2) by (auto simp: thread_wake_cu_def split: Option.bind_splits if_splits)
  have "adv x ?a" using assms(1) by (simp add: advances_refl)
  then have "adv x (xrt_cu_check F ?a)" unfolding xrt_cu_check_def using check_advances by (blast intro: adv_then)
  then show ?thesis using b process_sq_after_check_advances thread_tail_advances by (blast intro: adv_then)
qed

lemma submit_spec:
  assumes "ok x" and "fresh_cmd (\<lambda>c. fin c @ sub c) i x"
  shows "ok (xrt_cu_submit i (x\<lparr>cmds := (cmds x)(i := c)\<rparr>)) \<and>
    flow sub fin (xrt_cu_submit i (x\<lparr>cmds := (cmds x)(i := c)\<rparr>)) = flow sub fin x @ [i] \<and>
    (quiet S sub fin x \<longrightarrow> quiet S sub fin (xrt_cu_submit i (x\<lparr>cmds := (cmds x)(i := c)\<rparr>)))"
  using assms
  by (auto simp: xrt_cu_submit_def Let_def queues_ok_def flow_def outstanding_def quiet_def fresh_cmd_def)

lemma hpq_submit_spec:
  assumes "ok x" and "fresh_cmd (\<lambda>c. fin c @ sub c) i x"
  shows "ok (xrt_cu_hpq_submit i (x\<lparr>cmds := (cmds x)(i := c)\<rparr>)) \<and>
    flow sub fin (xrt_cu_hpq_submit i (x\<lparr>cmds := (cmds x)(i := c)\<rparr>)) = flow sub fin x"
  using assms
  by (auto simp: xrt_cu_hpq_submit_def Let_def queues_ok_def flow_def outstanding_def fresh_cmd_def)

lemma isr_advances: "ok x \<Longrightarrow> adv x (cu_isr F x)"
proof -
  assume ok: "ok x"
  let ?x = "xrt_cu_circ_produce CU_LOG_STAGE_ISR 0 x"
  have "adv x ?x" using ok by (intro noisy_advances) (simp_all add: noisy_def frame_simps)
  moreover have "ok ?x \<Longrightarrow> adv ?x (snd (xrt_cu_clear_intr F ?x))"
    using clear_keeps by (auto simp: xrt_cu_clear_intr_def core_advances split: prod.splits)
  ultimately have "adv x (snd (xrt_cu_clear_intr F ?x))" by (rule adv_then)
  then show ?thesis by (simp add: cu_isr_def Let_def)
qed

lemma thread_exit_advances: "ok x \<Longrightarrow> adv x (snd (thread_exit F x))"
  unfolding thread_exit_def Let_def xrt_cu_disable_intr_def snd_conv advances_neutral
  using disable_keeps by (simp add: core_advances)

lemma thread_wake_advances: "ok x \<Longrightarrow> adv x (thread_wake b x)"
proof -
  assume ok: "ok x"
  let ?x = "if b then x\<lparr>thread_ret := - EINTR_RESTART\<rparr> else x\<lparr>sem := sem x - 1\<rparr>"
  have "adv x ?x" using ok by (simp add: advances_refl)
  then have "adv x (process_pq ?x)" using process_pq_advances by (rule adv_then)
  then show ?thesis by (simp add: thread_wake_def)
qed

lemma timers_advance:
  assumes "ok x"
  shows "adv x (cu_timer x)" "adv x (cu_stats_timer x)" "adv x (show_stats_begin x)" "adv x (show_stats_end x)"
  using assms by (simp_all add: cu_timer_def cu_stats_timer_def xrt_cu_incr_sq_count_def show_stats_begin_def
      show_stats_end_def advances_refl)

lemma cu_exec_spec:
  assumes "ok x" and "cu_exec F (\<lambda>c. fin c @ sub c) e x = Some y"
  shows "ok y \<and> mset (flow sub fin y) = mset (flow sub fin x) + mset (submits [e]) \<and>
    (quiet S sub fin x \<and> \<not> is_abort e \<longrightarrow> flow sub fin y = flow sub fin x @ submits [e] \<and> quiet S sub fin y)"
proof -
  have A: "adv x z \<Longrightarrow> ok z \<and> mset (flow sub fin z) = mset (flow sub fin x) \<and>
    (quiet S sub fin x \<longrightarrow> flow sub fin z = flow sub fin x \<and> quiet S sub fin z)" for z
    by (simp add: advances_def)
  show ?thesis
  proof (cases e)
    case (Submit i c)
    with assms submit_spec [OF assms(1), of i c] show ?thesis by (auto split: if_splits)
  next
    case (Hpq_submit i c)
    with assms hpq_submit_spec [OF assms(1), of i c] show ?thesis by (auto split: if_splits)
  next
    case Hpq_wait
    then have "adv x y" using assms by (auto simp: hpq_wait_def advances_refl split: if_splits)
    with Hpq_wait show ?thesis by (simp add: A)
  next
    case (Abort client)
    then have "y = x \<or> y = x\<lparr>events := events x @ [client]\<rparr>"
      using assms(2) by (auto simp: xrt_cu_abort_def split: if_splits)
    with Abort assms(1) show ?thesis by (elim disjE) (simp_all add: queues_ok_def flow_def outstanding_def)
  next
    case (Abort_done client)
    then have "y = x\<lparr>events := remove1 client (events x)\<rparr>" using assms(2) by (simp add: xrt_cu_abort_done_def)
    with Abort_done assms(1) show ?thesis by (simp add: queues_ok_def flow_def outstanding_def quiet_def)
  next
    case Poll
    then obtain r where "xrt_cu_process_queues F x = Some (r, y)" using assms(2) by (auto split: if_splits)
    with Poll process_queues_advances [OF assms(1)] show ?thesis by (simp add: A)
  next
    case Thread_run
    then have "thread_loop F x = Some y \<or> y = snd (thread_exit F x)" using assms(2) by (auto split: if_splits)
    then have "adv x y" using thread_loop_advances thread_exit_advances assms(1) by blast
    with Thread_run show ?thesis by (simp add: A)
  next
    case (Wake_cu b)
    then have "adv x y" using assms thread_wake_cu_advances by (auto split: if_splits)
    with Wake_cu show ?thesis by (simp add: A)
  qed (use assms in \<open>auto simp: A timers_advance isr_advances thread_wake_advances split: if_splits\<close>)
qed

lemma cu_run_spec:
  assumes "ok x" and "cu_run F (\<lambda>c. fin c @ sub c) es x = Some y"
  shows "ok y \<and> mset (flow sub fin y) = mset (flow sub fin x) + mset (submits es) \<and>
    (quiet S sub fin x \<and> (\<forall>e \<in> set es. \<not> is_abort e) \<longrightarrow>
       flow sub fin y = flow sub fin x @ submits es \<and> quiet S sub fin y)"
  using assms
proof (induction es arbitrary: x)
  case Nil
  then show ?case by simp
next
  case (Cons e es)
  obtain z where z: "cu_exec F (\<lambda>c. fin c @ sub c) e x = Some z" "cu_run F (\<lambda>c. fin c @ sub c) es z = Some y"
    using Cons.prems(2) by (auto split: option.splits)
  have "submits (e # es) = submits [e] @ submits es" by (cases e) simp_all
  with cu_exec_spec [OF Cons.prems(1) z(1)] Cons.IH [OF _ z(2)] show ?case by auto
qed

end

section \<open>The loops end\<close>

context cu_core
begin

lemma process_sq_after_check_returns:
  assumes "ok x"
  shows "\<exists>y. process_sq_after_check F x = Some y \<and> hpq y = hpq x"
proof -
  define x' where "x' = (if ready_cnt x \<noteq> 0 then (xrt_cu_put_credit F (ready_cnt x) x)\<lparr>ready_cnt := 0\<rparr> else x)"
  have "adv x x'" using put_credit_advances assms by (simp add: x'_def advances_refl)
  then have ok': "ok x'" by (simp add: advances_def)
  let ?z = "abort_submitted F x'"
  have "ok ?z" using abort_submitted_advances [OF ok'] by (simp add: advances_def)
  then have "set (fin (core ?z)) \<inter> set (rq ?z) = {}" by (auto simp: queues_ok_def outstanding_def)
  from get_complete_loop_spec [OF this, of True] obtain y where
    "get_complete_loop F True ?z = Some y" "hpq y = hpq ?z" by (auto simp: noisy_def)
  moreover have "hpq ?z = hpq x"
    by (auto simp: abort_submitted_def x'_def xrt_cu_put_credit_def xrt_cu_cmd_abort_def
        split: option.splits prod.splits)
  moreover have "hpq x' = hpq x" by (simp add: x'_def xrt_cu_put_credit_def)
  ultimately show ?thesis
    unfolding process_sq_after_check_def x'_def [symmetric] by (simp add: frame_simps)
qed

lemma process_sq_returns:
  assumes "ok x"
  shows "\<exists>y. process_sq F x = Some y \<and> hpq y = hpq x"
proof -
  have "adv x (xrt_cu_check F x)" using assms unfolding xrt_cu_check_def by (rule check_advances)
  then have "ok (xrt_cu_check F x)" by (simp add: advances_def)
  moreover have "hpq (xrt_cu_check F x) = hpq x"
    by (simp add: xrt_cu_check_def xrt_cu_check_with_def split: prod.splits)
  ultimately show ?thesis using process_sq_after_check_returns [of "xrt_cu_check F x"] by (simp add: process_sq_def)
qed

lemma try_abort_cmd_returns:
  assumes "ok x" and "\<not> quiet S sub fin x" and "c_info (cmds x a) \<noteq> []"
  shows "\<exists>y. try_abort_cmd F a x = Some y"
proof -
  obtain handle where w: "word_at (c_info (cmds x a)) 0 = Some handle"
    using assms(3) by (simp add: word_at_def)
  obtain r z where z: "xrt_cu_cmd_abort F (abort_handle handle) x = (r, z)" by fastforce
  let ?z = "if r \<noteq> 0 then z\<lparr>bad_state := True, cmds := set_status KDS_TIMEOUT a (cmds z)\<rparr>
    else z\<lparr>cmds := set_status KDS_COMPLETED a (cmds z)\<rparr>"
  have "ok z" using cmd_abort_advances [OF assms(1,2) z] by (simp add: advances_def)
  then have "ok ?z" by (simp add: queues_ok_def outstanding_def)
  then have "set (fin (core ?z)) \<inter> set (rq ?z) = {}" by (auto simp: queues_ok_def outstanding_def)
  from get_complete_loop_spec [OF this, of False] show ?thesis
    using w z by (auto simp: try_abort_cmd_def Let_def split: option.splits)
qed

lemma process_hpq_loop_returns:
  assumes "ok x" and "hpq x = as" and "\<forall>a \<in> set as. c_opcode (cmds x a) = OP_ABORT \<longrightarrow> c_info (cmds x a) \<noteq> []"
  shows "\<exists>y. process_hpq_loop F as x = Some y"
  using assms
proof (induction as arbitrary: x)
  case Nil
  then show ?case by simp
next
  case (Cons a as)
  then have q: "\<not> quiet S sub fin x" by (simp add: quiet_def)
  obtain z where z: "(if c_opcode (cmds x a) = OP_ABORT then try_abort_cmd F a x else Some x) = Some z"
    using try_abort_cmd_returns [OF Cons.prems(1) q] Cons.prems(3) by fastforce
  then have a: "adv x z" "hpq z = a # as"
    using try_abort_cmd_advances [OF Cons.prems(1) q] try_abort_cmd_hpq [OF Cons.prems(1) q] Cons.prems(1,2)
    by (auto simp: advances_refl split: if_splits)
  let ?z = "z\<lparr>hpq := as, num_hpq := num_hpq z - 1\<rparr>"
  have "ok ?z" using a by (auto simp: advances_def queues_ok_def outstanding_def)
  moreover have "same_requests (cmds x) (cmds ?z)" using a(1) by (simp add: advances_def)
  then have "\<forall>b \<in> set as. c_opcode (cmds ?z b) = OP_ABORT \<longrightarrow> c_info (cmds ?z b) \<noteq> []"
    using Cons.prems(3) by (auto simp: same_requests_def request_def)
  ultimately show ?case using Cons.IH [of ?z] z by simp
qed

lemma process_hpq_returns:
  assumes "ok x" and "\<forall>a \<in> set (hpq x). c_opcode (cmds x a) = OP_ABORT \<longrightarrow> c_info (cmds x a) \<noteq> []"
  shows "\<exists>y. process_hpq F x = Some y"
  using process_hpq_loop_returns [OF assms(1) refl assms(2)] by (auto simp: process_hpq_def)

end

text \<open>
  A core that accepts or refuses every well-formed payload. Which payloads are well-formed depends
  only on the request.
\<close>

locale cu_core_total = cu_core F sub fin S
  for F :: "'c xcu_funcs" and sub fin :: "'c \<Rightarrow> nat list" and S :: "kds_status set" +
  fixes payload_ok :: "kds_command \<Rightarrow> bool"
  assumes payload_request: "request k = request k' \<Longrightarrow> payload_ok k \<longleftrightarrow> payload_ok k'"
    and submit_total: "fn_submit_config F = Some f \<Longrightarrow> payload_ok (h i) \<Longrightarrow> \<exists>r c'. f h i c = Some (r, c')"
begin

lemma payload_advances: "adv x y \<Longrightarrow> payload_ok (cmds y i) \<longleftrightarrow> payload_ok (cmds x i)"
  by (rule payload_request) (simp add: advances_def same_requests_def)

lemma process_rq_returns:
  assumes "ok x" and "\<forall>i \<in> set (rq x). payload_ok (cmds x i)"
  shows "\<exists>again y. process_rq F x = Some (again, y) \<and> hpq y = hpq x \<and> (again \<longrightarrow> set (rq y) \<subseteq> set (rq x))"
proof (cases "num_rq x = 0 \<or> first_event_client_or_null x \<noteq> None")
  case True
  have "distinct (rq x)" using assms(1) by (simp add: queues_ok_def outstanding_def)
  then have "hpq (fold (abort_queued client) (rq x) x) = hpq x" for client
    using fold_abort_queued [of x "[]" "rq x", OF _ _ refl] by simp
  with True show ?thesis by (auto simp: process_rq_def)
next
  case False
  obtain i is' where r: "rq x = i # is'" using False assms(1) by (cases "rq x") (auto simp: queues_ok_def)
  obtain n c where c: "xrt_cu_get_credit F x = (n, x\<lparr>core := c\<rparr>)" using get_credit_keeps by (metis surj_pair)
  obtain s z where "xrt_cu_submit_config F i (x\<lparr>core := c\<rparr>) = Some (s, z)"
    using submit_total assms(2) r by (fastforce simp: xrt_cu_submit_config_def split: option.splits)
  then have "process_rq F x \<noteq> None" using False c r by (auto simp: process_rq_def)
  then obtain again y where y: "process_rq F x = Some (again, y)" by auto
  have "hpq y = hpq x \<and> (again \<longrightarrow> rq y = is')"
    using y False r by (elim process_rq_submit) (auto simp: noisy_def)
  with y r show ?thesis by auto
qed

lemma process_rq_loop_returns:
  assumes "ok x" and "\<forall>i \<in> set (rq x). payload_ok (cmds x i)"
  shows "\<exists>y. process_rq_loop F x = Some y \<and> hpq y = hpq x"
  using assms
proof (induction "length (rq x)" arbitrary: x rule: less_induct)
  case less
  obtain again z where z: "process_rq F x = Some (again, z)" "hpq z = hpq x" "again \<longrightarrow> set (rq z) \<subseteq> set (rq x)"
    using process_rq_returns [OF less.prems] by blast
  note a = process_rq_advances [OF less.prems(1) z(1)]
  show ?case
  proof (cases again)
    case True
    have "ok z" using a(1) by (simp add: advances_def)
    then have "\<exists>y. process_rq_loop F z = Some y \<and> hpq y = hpq z"
      using less.hyps [of z] a True z(3) less.prems(2) payload_advances [OF a(1)] by blast
    then show ?thesis using z True by (subst process_rq_loop.simps) simp
  next
    case False
    then show ?thesis using z by (subst process_rq_loop.simps) simp
  qed
qed

lemma process_queues_returns:
  assumes "ok x" and "\<forall>i \<in> set (rq x @ pq x). payload_ok (cmds x i)"
    and "\<forall>a \<in> set (hpq x). c_opcode (cmds x a) = OP_ABORT \<longrightarrow> c_info (cmds x a) \<noteq> []"
  shows "\<exists>r y. xrt_cu_process_queues F x = Some (r, y)"
proof -
  let ?x = "process_pq x"
  have 0: "adv x ?x" using assms(1) by (rule process_pq_advances)
  have q: "hpq ?x = hpq x" "rq ?x = rq x @ pq x" using process_pq_spec [OF assms(1)] by (simp_all add: noisy_def)
  obtain a where a: "process_rq_loop F ?x = Some a" "hpq a = hpq x"
    using process_rq_loop_returns [of ?x] 0 assms(2) q payload_advances [OF 0] by (auto simp: advances_def)
  have 1: "adv x a" using 0 process_rq_loop_advances a(1) by (blast intro: adv_then)
  then have "ok a" by (simp add: advances_def)
  then have "num_cq a = word_of_nat (length (cq a))" "length (cq a) < 2 ^ 32"
    by (simp_all add: queues_ok_def outstanding_def)
  from process_cq_spec [OF this] obtain b where b: "process_cq a = Some b" "hpq b = hpq x"
    using a(2) by (auto simp: noisy_def)
  have 2: "adv x b" using 1 process_cq_advances b(1) by (blast intro: adv_then)
  then obtain c where c: "process_sq F b = Some c" "hpq c = hpq x"
    using process_sq_returns [of b] b(2) by (auto simp: advances_def)
  have 3: "adv x c" using 2 process_sq_advances c(1) by (blast intro: adv_then)
  then have "\<forall>a \<in> set (hpq c). c_opcode (cmds c a) = OP_ABORT \<longrightarrow> c_info (cmds c a) \<noteq> []"
    using assms(3) c(2) by (auto simp: advances_def same_requests_def request_def)
  then obtain y where "process_hpq F c = Some y" using process_hpq_returns [of c] 3 by (auto simp: advances_def)
  with a b c show ?thesis by (simp add: xrt_cu_process_queues_def)
qed

end

end
