(* ===== verification/Kds_Live.thy ===== *)
theory Kds_Live
  imports Kds_Contract
begin

text \<open>
  Progress of the queue processing. The locale \<open>cu_core_live\<close> extends the contract by what
  a responsive core adds: it accepts well-formed commands, finishes a running command with
  every check and gives credits back. Then every pass of \<^verbatim>\<open>xrt_cu_process_queues\<close> that finds a
  command moves one closer to the host, and after boundedly many passes all are reported.
\<close>

definition distance :: "('c \<Rightarrow> nat list) \<Rightarrow> ('c \<Rightarrow> nat list) \<Rightarrow> 'c xrt_cu \<Rightarrow> nat" where
  "distance sub fin x = 4 * length (rq x @ pq x) + 3 * length (sub (core x)) + 2 * length (fin (core x)) + length (cq x)"

text \<open>\<open>n\<close> passes of \<^verbatim>\<open>xrt_cu_process_queues\<close>.\<close>

primrec cu_passes :: "'c xcu_funcs \<Rightarrow> nat \<Rightarrow> 'c xrt_cu \<Rightarrow> 'c xrt_cu option" where
  "cu_passes F 0 x = Some x"
| "cu_passes F (Suc n) x = (case xrt_cu_process_queues F x of None \<Rightarrow> None | Some (r, y) \<Rightarrow> cu_passes F n y)"

abbreviation no_status :: xcu_status where
  "no_status \<equiv> \<lparr>num_done = 0, num_ready = 0, new_status = 0, st_rcode = 0\<rparr>"

locale cu_core_live = cu_core_total F sub fin S payload_ok
  for F :: "'c xcu_funcs" and sub fin :: "'c \<Rightarrow> nat list" and S :: "kds_status set"
    and payload_ok :: "kds_command \<Rightarrow> bool" +
  fixes good :: "'c \<Rightarrow> bool"
  assumes good_alloc: "good c \<Longrightarrow> fn_alloc_credit F c = (n, c') \<Longrightarrow> n = fn_peek_credit F c \<and> good c'"
    and good_submit: "\<exists>f. fn_submit_config F = Some f \<and>
      (\<forall>c h i r c'. good c \<longrightarrow> payload_ok (h i) \<longrightarrow> f h i c = Some (r, c') \<longrightarrow> r = 0 \<and> good c')"
    and good_start: "good c \<Longrightarrow> good (fn_start F c)"
    and good_disable: "good c \<Longrightarrow> good (fn_disable_intr F t c)"
    and good_complete: "fn_get_complete F = Some g \<Longrightarrow> good c \<Longrightarrow> g c = (k, c') \<Longrightarrow>
      good c' \<and> fn_peek_credit F c' = fn_peek_credit F c"
    and good_check: "good c \<Longrightarrow> fn_check F False no_status h c = (st, h', c') \<Longrightarrow>
      num_ready st \<noteq> 0 \<and> (sub c \<noteq> [] \<longrightarrow> length (sub c') < length (sub c)) \<and>
      good (fn_free_credit F (num_ready st) c') \<and> fn_peek_credit F (fn_free_credit F (num_ready st) c') \<noteq> 0"
begin

text \<open>The state between two passes: nothing to abort, and a credit for the next command.\<close>

definition resting :: "'c xrt_cu \<Rightarrow> bool" where
  "resting x \<longleftrightarrow> ok x \<and> quiet S sub fin x \<and> good (core x) \<and> fn_peek_credit F (core x) \<noteq> 0 \<and> ready_cnt x = 0 \<and>
     (\<forall>i \<in> set (rq x @ pq x). payload_ok (cmds x i))"

lemma get_complete_loop_good:
  assumes "get_complete_loop F logged x = Some y" and "good (core x)" and "set (fin (core x)) \<inter> set (rq x) = {}"
  shows "good (core y) \<and> fn_peek_credit F (core y) = fn_peek_credit F (core x)"
  using assms
proof (induction "fin (core x)" arbitrary: x)
  case Nil
  obtain g where g: "fn_get_complete F = Some g" and p: "\<And>c k c'. g c = (k, c') \<Longrightarrow> sub c' = sub c \<and>
      (case fin c of [] \<Rightarrow> k = None \<and> fin c' = [] | j # js \<Rightarrow> k = Some j \<and> fin c' = js)"
    using complete_pops by blast
  obtain k c where c: "g (core x) = (k, c)" by fastforce
  with p [OF c] Nil(1) [symmetric] have "y = x\<lparr>core := c\<rparr>"
    using Nil.prems(1) by (simp add: get_complete_loop.simps xrt_cu_get_complete_def g)
  with good_complete [OF g Nil.prems(2) c] show ?case by simp
next
  case (Cons j js)
  obtain g where g: "fn_get_complete F = Some g" and p: "\<And>c k c'. g c = (k, c') \<Longrightarrow> sub c' = sub c \<and>
      (case fin c of [] \<Rightarrow> k = None \<and> fin c' = [] | j # js \<Rightarrow> k = Some j \<and> fin c' = js)"
    using complete_pops by blast
  obtain k c where c: "g (core x) = (k, c)" by fastforce
  with p [OF c] Cons(2) [symmetric] have k: "k = Some j" "fin c = js" by simp_all
  let ?a = "if logged then xrt_cu_circ_produce CU_LOG_STAGE_SQ j (x\<lparr>core := c\<rparr>) else x\<lparr>core := c\<rparr>"
  let ?b = "(move_to_cq j ?a)\<lparr>num_sq := num_sq x - 1\<rparr>"
  have r: "remove1 j (rq x) = rq x" using Cons(2) [symmetric] Cons.prems by (simp add: remove1_idem)
  have e: "get_complete_loop F logged x = get_complete_loop F logged ?b"
    by (subst get_complete_loop.simps)
      (simp add: xrt_cu_get_complete_def g c k Let_def move_to_cq_def frame_simps)
  have b: "core ?b = c" "rq ?b = rq x" by (simp_all add: move_to_cq_def frame_simps r)
  note gc = good_complete [OF g Cons.prems(2) c]
  have "good (core y) \<and> fn_peek_credit F (core y) = fn_peek_credit F (core ?b)"
    using Cons(1) [of ?b] b k(2) e Cons.prems Cons(2) [symmetric] gc by auto
  with b gc show ?case by simp
qed

lemma start_submitted_good: "good (core x) \<Longrightarrow> good (core (start_submitted F i x))"
  using good_start good_disable
  by (simp add: start_submitted_def Let_def frame_simps xrt_cu_start_def xrt_cu_switch_to_poll_def xrt_cu_disable_intr_def)

lemma process_rq_live:
  assumes "ok x" and "quiet S sub fin x" and "good (core x)" and "\<forall>i \<in> set (rq x). payload_ok (cmds x i)"
  shows "\<exists>again y. process_rq F x = Some (again, y) \<and> good (core y) \<and> ready_cnt y = ready_cnt x \<and> pq y = pq x \<and>
    distance sub fin y + of_bool again = distance sub fin x \<and> set (rq y) \<subseteq> set (rq x) \<and>
    (rq x \<noteq> [] \<and> fn_peek_credit F (core x) \<noteq> 0 \<longrightarrow> again)"
proof (cases "rq x")
  case Nil
  then show ?thesis using assms(1,3)
    by (intro exI [of _ False] exI [of _ x]) (simp add: process_rq_def queues_ok_def)
next
  case (Cons i is')
  have n: "num_rq x \<noteq> 0" using Cons assms(1) counter_Suc [of "length is'"]
    by (simp add: queues_ok_def outstanding_def)
  have ev: "first_event_client_or_null x = None" using assms(2) by (simp add: quiet_def first_event_client_or_null_def)
  obtain k c where c: "fn_alloc_credit F (core x) = (k, c)" by fastforce
  note a = alloc_keeps [OF c] good_alloc [OF assms(3) c]
  show ?thesis
  proof (cases "k = 0")
    case True
    then have "process_rq F x = Some (False, x\<lparr>core := c\<rparr>)"
      using n ev Cons c by (simp add: process_rq_def xrt_cu_get_credit_def)
    with a True show ?thesis by (intro exI [of _ False] exI [of _ "x\<lparr>core := c\<rparr>"]) (simp add: distance_def)
  next
    case False
    obtain f where f: "fn_submit_config F = Some f"
      and p: "\<And>c h i r c'. good c \<Longrightarrow> payload_ok (h i) \<Longrightarrow> f h i c = Some (r, c') \<Longrightarrow> r = 0 \<and> good c'"
      using good_submit by blast
    obtain r c' where s: "f (cmds x) i c = Some (r, c')" using submit_total [OF f] assms(4) Cons by fastforce
    have r: "r = 0" "good c'" using p [OF _ _ s] a assms(4) Cons by auto
    let ?x = "x\<lparr>core := c', rq := is'\<rparr>" and ?y = "start_submitted F i (x\<lparr>core := c', rq := is'\<rparr>)"
    have y: "process_rq F x = Some (True, ?y)"
      using n ev Cons c f s r(1) False by (simp add: process_rq_def xrt_cu_get_credit_def xrt_cu_submit_config_def)
    obtain c2 p q where c2: "sub c2 = sub (core ?x)" "fin c2 = fin (core ?x)"
      "noisy (?x\<lparr>core := c2, num_sq := num_sq ?x + 1, num_rq := num_rq ?x - 1, poll_count := p, interrupt_used := q\<rparr>) ?y"
      using start_submitted_noisy [of ?x i] by blast
    then have "core ?y = c2" "rq ?y = is'" "pq ?y = pq x" "cq ?y = cq x" "ready_cnt ?y = ready_cnt x"
      by (simp_all add: noisy_def)
    moreover have "good (core ?y)" using start_submitted_good [of ?x i] r(2) by simp
    ultimately show ?thesis
      using y Cons c2 submit_adds [OF f s] r(1) a
      by (intro exI [of _ True] exI [of _ ?y]) (auto simp: distance_def)
  qed
qed

lemma process_rq_loop_live:
  assumes "ok x" and "quiet S sub fin x" and "good (core x)" and "\<forall>i \<in> set (rq x). payload_ok (cmds x i)"
  shows "\<exists>y. process_rq_loop F x = Some y \<and> good (core y) \<and> ready_cnt y = ready_cnt x \<and> pq y = pq x \<and>
    distance sub fin y \<le> distance sub fin x \<and> set (rq y) \<subseteq> set (rq x) \<and>
    (rq x \<noteq> [] \<and> fn_peek_credit F (core x) \<noteq> 0 \<longrightarrow> distance sub fin y < distance sub fin x)"
  using assms
proof (induction "length (rq x)" arbitrary: x rule: less_induct)
  case less
  obtain again z where z: "process_rq F x = Some (again, z)" "good (core z)" "ready_cnt z = ready_cnt x" "pq z = pq x"
    "distance sub fin z + of_bool again = distance sub fin x" "set (rq z) \<subseteq> set (rq x)"
    "rq x \<noteq> [] \<and> fn_peek_credit F (core x) \<noteq> 0 \<longrightarrow> again"
    using process_rq_live [OF less.prems] by blast
  note a = process_rq_advances [OF less.prems(1) z(1)]
  show ?case
  proof (cases again)
    case True
    have "ok z" "quiet S sub fin z" using a(1) less.prems(2) by (auto simp: advances_def)
    moreover have "\<forall>i \<in> set (rq z). payload_ok (cmds z i)"
      using z(6) less.prems(4) payload_advances [OF a(1)] by blast
    ultimately obtain y where y: "process_rq_loop F z = Some y" "good (core y)" "ready_cnt y = ready_cnt z" "pq y = pq z"
      "distance sub fin y \<le> distance sub fin z" "set (rq y) \<subseteq> set (rq z)"
      using less.hyps [of z] a(2) True z(2) by blast
    have "process_rq_loop F x = Some y" using z(1) True y(1) by (subst process_rq_loop.simps) simp
    with y z True show ?thesis by auto
  next
    case False
    then have "process_rq_loop F x = Some z" using z(1) by (subst process_rq_loop.simps) simp
    with z False show ?thesis by auto
  qed
qed

lemma process_sq_live:
  assumes "ok x" and "quiet S sub fin x" and "good (core x)" and "ready_cnt x = 0"
  shows "\<exists>y. process_sq F x = Some y \<and> good (core y) \<and> fn_peek_credit F (core y) \<noteq> 0 \<and> ready_cnt y = 0 \<and>
    pq y = pq x \<and> rq y = rq x \<and> distance sub fin y \<le> distance sub fin x \<and>
    (sub (core x) @ fin (core x) \<noteq> [] \<longrightarrow> distance sub fin y < distance sub fin x)"
proof (cases "num_sq x = 0 \<and> \<not> is_zero_credit F x")
  case True
  then have "sub (core x) = [] \<and> fin (core x) = []"
    using assms(1) counter_zero [of "length (fin (core x)) + length (sub (core x))"]
    by (auto simp: queues_ok_def outstanding_def)
  with True assms show ?thesis by (intro exI [of _ x]) (simp add: process_sq_def is_zero_credit_def)
next
  case False
  let ?x = "xrt_cu_check F x"
  obtain st h c where e: "fn_check F False no_status (cmds x) (core x) = (st, h, c)" by (cases rule: prod_cases3)
  note g = good_check [OF assms(3) e]
  obtain ks where ks: "sub (core x) = ks @ sub c" "fin c = fin (core x) @ ks" using check_finishes [OF e] by blast
  have x: "core ?x = c" "ready_cnt ?x = num_ready st" "rq ?x = rq x" "pq ?x = pq x" "cq ?x = cq x" "num_sq ?x = num_sq x"
    "events ?x = events x"
    using assms(4) by (simp_all add: xrt_cu_check_def xrt_cu_check_with_def e)
  have "adv x ?x" unfolding xrt_cu_check_def using assms(1) by (rule check_advances)
  then have okx: "ok ?x" by (simp add: advances_def)
  define z where "z = (xrt_cu_put_credit F (ready_cnt ?x) ?x)\<lparr>ready_cnt := 0\<rparr>"
  have cz: "core z = fn_free_credit F (num_ready st) c" by (simp add: z_def xrt_cu_put_credit_def x)
  have zf: "rq z = rq x" "pq z = pq x" "cq z = cq x" "num_sq z = num_sq x" "ready_cnt z = 0" "events z = []"
    using x assms(2) by (simp_all add: z_def xrt_cu_put_credit_def quiet_def)
  have kz: "sub (core z) = sub c" "fin (core z) = fin c" using free_keeps by (simp_all add: cz)
  have ab: "abort_submitted F z = z" using zf(6) by (simp add: abort_submitted_def first_event_client_or_null_def)
  have ps: "process_sq F x = (if num_sq x = 0 then Some z else map_option xrt_cu_idle_start (get_complete_loop F True z))"
  proof -
    have "ready_cnt ?x \<noteq> 0" using g x(2) by simp
    then have "process_sq_after_check F ?x =
      (if num_sq z = 0 then Some z else map_option xrt_cu_idle_start (get_complete_loop F True (abort_submitted F z)))"
      by (simp add: process_sq_after_check_def Let_def z_def)
    then show ?thesis using False zf(4) ab by (auto simp: process_sq_def)
  qed
  have okz: "ok z" using put_credit_advances [OF okx] by (simp add: z_def advances_def)
  show ?thesis
  proof (cases "num_sq x = 0")
    case True
    then have "sub (core x) = [] \<and> fin (core x) = []"
      using assms(1) counter_zero [of "length (fin (core x)) + length (sub (core x))"]
      by (auto simp: queues_ok_def outstanding_def)
    with True ps g ks kz zf cz show ?thesis by (intro exI [of _ z]) (simp add: distance_def)
  next
    case False
    have dj: "set (fin (core z)) \<inter> set (rq z) = {}" using okz by (auto simp: queues_ok_def outstanding_def)
    then obtain y d where y: "get_complete_loop F True z = Some y" "fin d = []" "sub d = sub (core z)"
      "noisy (z\<lparr>core := d, cq := cq z @ fin (core z), num_cq := num_cq z + word_of_nat (length (fin (core z))),
        num_sq := num_sq z - word_of_nat (length (fin (core z)))\<rparr>) y"
      using get_complete_loop_spec [of z True] by blast
    have yf: "core y = d" "rq y = rq x" "pq y = pq x" "cq y = cq x @ fin (core z)" "ready_cnt y = 0"
      using y(4) zf by (simp_all add: noisy_def)
    have gy: "good (core y) \<and> fn_peek_credit F (core y) = fn_peek_credit F (core z)"
      using get_complete_loop_good [OF y(1) _ dj] g cz by simp
    have "sub c = [] \<or> length (sub c) < length (sub (core x))" using g ks by (cases "sub (core x)") auto
    then have "distance sub fin y \<le> distance sub fin x"
      "sub (core x) @ fin (core x) \<noteq> [] \<longrightarrow> distance sub fin y < distance sub fin x"
      using y(2,3) yf kz ks g by (auto simp: distance_def)
    with False ps y(1) yf gy g cz show ?thesis
      by (intro exI [of _ "xrt_cu_idle_start y"]) (simp add: frame_simps distance_def)
  qed
qed

lemma process_queues_live:
  assumes "resting x"
  shows "\<exists>r y. xrt_cu_process_queues F x = Some (r, y) \<and> resting y \<and> flow sub fin y = flow sub fin x \<and>
    distance sub fin y \<le> distance sub fin x \<and>
    (outstanding sub fin x \<noteq> [] \<longrightarrow> distance sub fin y < distance sub fin x) \<and>
    (outstanding sub fin x = [] \<longrightarrow> r = XCU_IDLE)"
proof -
  have ok: "ok x" and q: "quiet S sub fin x" and g: "good (core x)" and cr: "fn_peek_credit F (core x) \<noteq> 0"
    and rd: "ready_cnt x = 0" and pl: "\<forall>i \<in> set (rq x @ pq x). payload_ok (cmds x i)"
    using assms by (simp_all add: resting_def)
  let ?x = "process_pq x"
  have 0: "adv x ?x" using ok by (rule process_pq_advances)
  have x: "core ?x = core x" "rq ?x = rq x @ pq x" "pq ?x = []" "cq ?x = cq x" "ready_cnt ?x = 0"
    using process_pq_spec [OF ok] rd by (simp_all add: noisy_def)
  have dx: "distance sub fin ?x = distance sub fin x" by (simp add: distance_def x)
  obtain a where a: "process_rq_loop F ?x = Some a" "good (core a)" "ready_cnt a = 0" "pq a = []"
    "distance sub fin a \<le> distance sub fin x" "set (rq a) \<subseteq> set (rq x @ pq x)"
    "rq x @ pq x \<noteq> [] \<longrightarrow> distance sub fin a < distance sub fin x"
    using process_rq_loop_live [of ?x] 0 q g cr pl x dx payload_advances [OF 0] by (auto simp: advances_def)
  have 1: "adv x a" using 0 process_rq_loop_advances a(1) by (blast intro: adv_then)
  then have oka: "ok a" "quiet S sub fin a" using q by (simp_all add: advances_def)
  then have "num_cq a = word_of_nat (length (cq a))" "length (cq a) < 2 ^ 32"
    by (simp_all add: queues_ok_def outstanding_def)
  from process_cq_spec [OF this] obtain b where b: "process_cq a = Some b" "core b = core a" "rq b = rq a" "pq b = []"
    "cq b = []" "ready_cnt b = 0" using a(3,4) by (auto simp: noisy_def)
  have 2: "adv x b" using 1 process_cq_advances b(1) by (blast intro: adv_then)
  then have okb: "ok b" "quiet S sub fin b" using q by (simp_all add: advances_def)
  obtain c where c: "process_sq F b = Some c" "good (core c)" "fn_peek_credit F (core c) \<noteq> 0" "ready_cnt c = 0"
    "pq c = []" "rq c = rq b" "distance sub fin c \<le> distance sub fin b"
    "sub (core b) @ fin (core b) \<noteq> [] \<longrightarrow> distance sub fin c < distance sub fin b"
    using process_sq_live [OF okb] a(2) b by auto
  have 3: "adv x c" using 2 process_sq_advances c(1) by (blast intro: adv_then)
  then have fc: "flow sub fin c = flow sub fin x" "ok c" "quiet S sub fin c" using q by (simp_all add: advances_def)
  have h: "process_hpq F c = Some c" using fc(2,3) by (simp add: process_hpq_def queues_ok_def quiet_def)
  have "\<forall>i \<in> set (rq c @ pq c). payload_ok (cmds c i)"
    using pl payload_advances [OF 3] a(6) b(3) c(5,6) by auto
  then have "resting c" using fc c by (simp add: resting_def)
  moreover have dc: "distance sub fin c \<le> distance sub fin x" using c(7) b a(4,5) by (simp add: distance_def)
  moreover have "distance sub fin c < distance sub fin x" if "outstanding sub fin x \<noteq> []"
  proof (cases "rq x @ pq x = []")
    case False
    have "distance sub fin b \<le> distance sub fin a" using b a(4) by (simp add: distance_def)
    with False a(7) c(7) show ?thesis by simp
  next
    case True
    have e: "a = ?x" using True ok 0 x a(1) by (subst (asm) process_rq_loop.simps)
        (simp add: process_rq_def advances_def queues_ok_def)
    have "distance sub fin b + length (cq x) = distance sub fin x" using True b e x by (simp add: distance_def)
    then show ?thesis
      using that True c(7,8) b(2) e x length_greater_0_conv [of "cq x"]
      by (cases "cq x = []") (auto simp: outstanding_def simp del: length_greater_0_conv)
  qed
  moreover have "num_rq c = 0 \<and> num_sq c = 0 \<and> num_cq c = 0" if "outstanding sub fin x = []"
  proof -
    have "distance sub fin x = 0" using that by (simp add: distance_def outstanding_def)
    with dc have "outstanding sub fin c = []" by (simp add: distance_def outstanding_def)
    then show ?thesis using fc(2) by (simp add: queues_ok_def outstanding_def)
  qed
  ultimately show ?thesis
    using a(1) b(1) c(1) h fc(1) by (auto simp: xrt_cu_process_queues_def)
qed

lemma passes_drain:
  assumes "resting x" and "distance sub fin x \<le> n"
  shows "\<exists>y. cu_passes F n x = Some y \<and> resting y \<and> outstanding sub fin y = [] \<and> flow sub fin y = flow sub fin x"
  using assms
proof (induction n arbitrary: x)
  case 0
  then show ?case by (simp add: distance_def outstanding_def)
next
  case (Suc n)
  obtain r y where y: "xrt_cu_process_queues F x = Some (r, y)" "resting y" "flow sub fin y = flow sub fin x"
    "distance sub fin y \<le> distance sub fin x"
    "outstanding sub fin x \<noteq> [] \<longrightarrow> distance sub fin y < distance sub fin x"
    using process_queues_live [OF Suc.prems(1)] by blast
  have "outstanding sub fin x = [] \<Longrightarrow> distance sub fin x = 0" by (simp add: distance_def outstanding_def)
  then have "distance sub fin y \<le> n" using y(4,5) Suc.prems(2) by linarith
  with Suc.IH [OF y(2)] y(1,3) show ?case by simp
qed

lemma passes_report_all:
  assumes "resting x" and "4 * length (outstanding sub fin x) \<le> n"
  shows "\<exists>y. cu_passes F n x = Some y \<and> outstanding sub fin y = [] \<and>
    map fst (notified y) = map fst (notified x) @ outstanding sub fin x \<and> snd ` set (notified y) \<subseteq> S \<and>
    (\<exists>z. xrt_cu_process_queues F y = Some (XCU_IDLE, z))"
proof -
  have "distance sub fin x \<le> n" using assms(2) by (simp add: distance_def outstanding_def)
  from passes_drain [OF assms(1) this] obtain y where y: "cu_passes F n x = Some y" "resting y"
    "outstanding sub fin y = []" "flow sub fin y = flow sub fin x" by blast
  obtain z where "xrt_cu_process_queues F y = Some (XCU_IDLE, z)" using process_queues_live [OF y(2)] y(3) by blast
  moreover have "snd ` set (notified y) \<subseteq> S" using y(2) by (simp add: resting_def quiet_def)
  ultimately show ?thesis using y by (auto simp: flow_def)
qed

lemma submit_resting:
  assumes "resting x" and "fresh_cmd (\<lambda>c. fin c @ sub c) i x" and "payload_ok k"
  shows "resting (xrt_cu_submit i (x\<lparr>cmds := (cmds x)(i := k)\<rparr>))"
  using assms submit_spec [of x i k] by (auto simp: resting_def xrt_cu_submit_def Let_def fresh_cmd_def)

lemma polled_run_resting:
  assumes "resting x" and "cu_run F (\<lambda>c. fin c @ sub c) es x = Some y"
    and "\<forall>e \<in> set es. e = Poll \<or> (\<exists>i k. e = Submit i k \<and> payload_ok k)"
  shows "resting y"
  using assms
proof (induction es arbitrary: x)
  case Nil
  then show ?case by simp
next
  case (Cons e es)
  obtain z where z: "cu_exec F (\<lambda>c. fin c @ sub c) e x = Some z" "cu_run F (\<lambda>c. fin c @ sub c) es z = Some y"
    using Cons.prems(2) by (auto split: option.splits)
  have "resting z"
  proof (cases "e = Poll")
    case True
    with z(1) process_queues_live [OF Cons.prems(1)] show ?thesis by (auto split: if_splits)
  next
    case False
    then obtain i k where "e = Submit i k" "payload_ok k" using Cons.prems(3) by auto
    with z(1) submit_resting [OF Cons.prems(1)] show ?thesis by (auto split: if_splits)
  qed
  with Cons.IH z(2) Cons.prems(3) show ?case by auto
qed

end

end
