(* ===== verification/Kds_Hls.thy ===== *)
theory Kds_Hls
  imports Kds_Live
begin

text \<open>
  The core implementation for HLS compute units, \<^verbatim>\<open>core/common/drv/cu_hls.c\<close>, and its
  interpretations of the contract. The registers of the unit are a parameter: a device state
  \<open>'d\<close> with a read, which may change the state (the done bit is cleared by reading it), and
  a write. \<open>echo\<close> is the module parameter \<^verbatim>\<open>kds_echo\<close>.
\<close>

section \<open>The HLS core\<close>

record 'd io =
  io_read :: "u32 \<Rightarrow> 'd \<Rightarrow> u32 \<times> 'd"
  io_write :: "u32 \<Rightarrow> u32 \<Rightarrow> 'd \<Rightarrow> 'd"

definition HLS_CTRL :: u32 where "HLS_CTRL = 0x0"
definition HLS_GIE :: u32 where "HLS_GIE = 0x4"
definition HLS_IER :: u32 where "HLS_IER = 0x8"
definition HLS_ISR :: u32 where "HLS_ISR = 0xC"
definition HLS_ARGS :: u32 where "HLS_ARGS = 0x10"

definition CU_AP_START :: u32 where "CU_AP_START = 0x1"
definition CU_AP_DONE :: u32 where "CU_AP_DONE = 0x2"
definition CU_AP_IDLE :: u32 where "CU_AP_IDLE = 0x4"
definition CU_AP_CONTINUE :: u32 where "CU_AP_CONTINUE = 0x10"
definition CU_AP_SW_RESET :: u32 where "CU_AP_SW_RESET = 0x100"

definition XGQ_CMD_OP_START_CUIDX :: u32 where "XGQ_CMD_OP_START_CUIDX = 0x100"
definition XGQ_CMD_OP_START_CUIDX_KV :: u32 where "XGQ_CMD_OP_START_CUIDX_KV = 0x102"

record 'd xrt_cu_hls =
  hls_vaddr :: 'd
  hls_max_credits :: s32
  hls_credits :: s32
  hls_run_cnts :: s32
  hls_ctrl_chain :: bool
  hls_sw_reset :: bool
  hls_done :: u32
  hls_submitted :: "nat list"
  hls_completed :: "nat list"

definition hls_read32 :: "'d io \<Rightarrow> u32 \<Rightarrow> 'd xrt_cu_hls \<Rightarrow> u32 \<times> 'd xrt_cu_hls" where
  "hls_read32 io reg c = (case io_read io reg (hls_vaddr c) of (v, d) \<Rightarrow> (v, c\<lparr>hls_vaddr := d\<rparr>))"

definition hls_write32 :: "'d io \<Rightarrow> u32 \<Rightarrow> u32 \<Rightarrow> 'd xrt_cu_hls \<Rightarrow> 'd xrt_cu_hls" where
  "hls_write32 io reg v c = c\<lparr>hls_vaddr := io_write io reg v (hls_vaddr c)\<rparr>"

fun hls_move_to_complete :: "kds_status \<Rightarrow> cmd_store \<times> 'd xrt_cu_hls \<Rightarrow> cmd_store \<times> 'd xrt_cu_hls" where
  "hls_move_to_complete s (h, c) =
     (case hls_submitted c of
        [] \<Rightarrow> (h, c)
      | i # is \<Rightarrow> (set_status s i h, c\<lparr>hls_run_cnts := hls_run_cnts c - 1, hls_submitted := is,
                   hls_completed := hls_completed c @ [i]\<rparr>))"

definition cu_hls_alloc_credit :: "'d xrt_cu_hls \<Rightarrow> s32 \<times> 'd xrt_cu_hls" where
  "cu_hls_alloc_credit c =
     (if hls_credits c \<noteq> 0 then (hls_credits c, c\<lparr>hls_credits := hls_credits c - 1\<rparr>) else (0, c))"

definition cu_hls_free_credit :: "u32 \<Rightarrow> 'd xrt_cu_hls \<Rightarrow> 'd xrt_cu_hls" where
  "cu_hls_free_credit cnt c =
     (let c = c\<lparr>hls_credits := hls_credits c + cnt\<rparr>
      in if sint (hls_credits c) > sint (hls_max_credits c) then c\<lparr>hls_credits := hls_max_credits c\<rparr> else c)"

definition cu_hls_peek_credit :: "'d xrt_cu_hls \<Rightarrow> s32" where
  "cu_hls_peek_credit c = hls_credits c"

text \<open>
  The configuration loops, from index \<open>i\<close>. The index is 32 bits wide, the bound 64 bits in
  \<^verbatim>\<open>cu_hls_configure\<close>; a bound above the range of the index makes the loop endless, and reading
  behind the payload is undefined.
\<close>

partial_function (option) write_regmap :: "'d io \<Rightarrow> u32 list \<Rightarrow> u64 \<Rightarrow> u32 \<Rightarrow> 'd xrt_cu_hls \<Rightarrow> 'd xrt_cu_hls option" where
  "write_regmap io data n i c =
     (if ucast i < n
      then case word_at data (unat i) of
        None \<Rightarrow> None
      | Some v \<Rightarrow> write_regmap io data n (i + 1) (hls_write32 io (HLS_ARGS + i * 4) v c)
      else Some c)"

partial_function (option) write_pairs :: "'d io \<Rightarrow> u32 list \<Rightarrow> u64 \<Rightarrow> u32 \<Rightarrow> 'd xrt_cu_hls \<Rightarrow> 'd xrt_cu_hls option" where
  "write_pairs io data n i c =
     (if ucast i < n
      then case word_at data (unat i) of
        None \<Rightarrow> None
      | Some reg \<Rightarrow> (case word_at data (unat (i + 1)) of
          None \<Rightarrow> None
        | Some v \<Rightarrow> write_pairs io data n (i + 2) (hls_write32 io reg v c))
      else Some c)"

declare write_regmap.simps [code] write_pairs.simps [code]

text \<open>The header of an XGQ command is two words; the count is a 15-bit field of the first.\<close>

definition xgq_opcode :: "u32 \<Rightarrow> u32" where "xgq_opcode w = bits 0 16 w"
definition xgq_count :: "u32 \<Rightarrow> u32" where "xgq_count w = bits 16 15 w"

definition cu_hls_xgq_start :: "'d io \<Rightarrow> u32 list \<Rightarrow> 'd xrt_cu_hls \<Rightarrow> 'd xrt_cu_hls option" where
  "cu_hls_xgq_start io data c = do {
     w \<leftarrow> word_at data 0;
     let num_reg = (ucast ((ucast (xgq_count w) - (8 - 8) :: u64) div 4) :: u32);
     write_regmap io (drop 2 data) (ucast num_reg) 0 c
   }"

definition cu_hls_xgq_start_kv :: "'d io \<Rightarrow> u32 list \<Rightarrow> 'd xrt_cu_hls \<Rightarrow> 'd xrt_cu_hls option" where
  "cu_hls_xgq_start_kv io data c = do {
     w \<leftarrow> word_at data 0;
     let num_reg = (ucast ((ucast (xgq_count w) - (12 - 8) :: u64) div 4) :: u32);
     write_pairs io (drop 2 data) (ucast num_reg) 0 c
   }"

definition cu_hls_configure :: "'d io \<Rightarrow> bool \<Rightarrow> u32 list \<Rightarrow> u64 \<Rightarrow> u32 \<Rightarrow> 'd xrt_cu_hls \<Rightarrow>
  (s32 \<times> 'd xrt_cu_hls) option" where
  "cu_hls_configure io echo data sz ty c =
     (if echo then Some (0, c)
      else let num_reg = sz div 4 in
        if ty = REGMAP then map_option (Pair 0) (write_regmap io data num_reg 0 c)
        else if ty = KEY_VAL then map_option (Pair 0) (write_pairs io data num_reg 0 c)
        else if ty = XGQ_CMD
        then do {
          w \<leftarrow> word_at data 0;
          if xgq_opcode w = XGQ_CMD_OP_START_CUIDX then map_option (Pair 0) (cu_hls_xgq_start io data c)
          else if xgq_opcode w = XGQ_CMD_OP_START_CUIDX_KV then map_option (Pair 0) (cu_hls_xgq_start_kv io data c)
          else Some (- EINVAL, c)
        }
        else Some (0, c))"

definition cu_hls_start :: "'d io \<Rightarrow> bool \<Rightarrow> 'd xrt_cu_hls \<Rightarrow> 'd xrt_cu_hls" where
  "cu_hls_start io echo c =
     (let c = c\<lparr>hls_run_cnts := hls_run_cnts c + 1\<rparr>
      in if echo then c else hls_write32 io HLS_CTRL CU_AP_START c)"

definition cu_hls_ctrl_hs_check :: "'d io \<Rightarrow> bool \<Rightarrow> xcu_status \<Rightarrow> cmd_store \<Rightarrow> 'd xrt_cu_hls \<Rightarrow>
  xcu_status \<times> cmd_store \<times> 'd xrt_cu_hls" where
  "cu_hls_ctrl_hs_check io force st h c =
     (if \<not> force \<and> hls_run_cnts c = 0 then (st, h, c)
      else case hls_read32 io HLS_CTRL c of (ctrl_reg, c) \<Rightarrow>
        let fin = (ctrl_reg AND CU_AP_DONE \<noteq> 0);
            (h, c) = (if fin then hls_move_to_complete KDS_COMPLETED (h, c) else (h, c))
        in (st\<lparr>num_done := of_bool fin, num_ready := of_bool fin, new_status := ctrl_reg\<rparr>, h, c))"

definition cu_hls_ctrl_chain_check :: "'d io \<Rightarrow> bool \<Rightarrow> xcu_status \<Rightarrow> cmd_store \<Rightarrow> 'd xrt_cu_hls \<Rightarrow>
  xcu_status \<times> cmd_store \<times> 'd xrt_cu_hls" where
  "cu_hls_ctrl_chain_check io force st h c =
     (let used_credit = hls_max_credits c - hls_credits c in
      if \<not> force \<and> used_credit = 0 \<and> hls_run_cnts c = 0 then (st, h, c)
      else let done_reg = hls_done c;
               c = c\<lparr>hls_done := 0\<rparr>;
               (ctrl_reg, c) = hls_read32 io HLS_CTRL c;
               ready_reg = (if used_credit \<noteq> 0 \<and> ctrl_reg AND CU_AP_START = 0 then 1 else 0);
               (done_reg, c) = (if ctrl_reg AND CU_AP_DONE \<noteq> 0
                                then (done_reg + 1, hls_write32 io HLS_CTRL CU_AP_CONTINUE c) else (done_reg, c));
               (h, c) = (hls_move_to_complete KDS_COMPLETED ^^ unat done_reg) (h, c)
           in (st\<lparr>num_done := done_reg, num_ready := ready_reg, new_status := ctrl_reg\<rparr>, h, c))"

definition cu_hls_check :: "'d io \<Rightarrow> bool \<Rightarrow> bool \<Rightarrow> xcu_status \<Rightarrow> cmd_store \<Rightarrow> 'd xrt_cu_hls \<Rightarrow>
  xcu_status \<times> cmd_store \<times> 'd xrt_cu_hls" where
  "cu_hls_check io echo force st h c =
     (if echo
      then (st\<lparr>num_done := 1, num_ready := 1, new_status := CU_AP_IDLE\<rparr>, hls_move_to_complete KDS_COMPLETED (h, c))
      else if hls_ctrl_chain c then cu_hls_ctrl_chain_check io force st h c
      else cu_hls_ctrl_hs_check io force st h c)"

definition cu_hls_enable_intr :: "'d io \<Rightarrow> u32 \<Rightarrow> 'd xrt_cu_hls \<Rightarrow> 'd xrt_cu_hls" where
  "cu_hls_enable_intr io t c = hls_write32 io HLS_IER t (hls_write32 io HLS_GIE 1 c)"

definition cu_hls_disable_intr :: "'d io \<Rightarrow> u32 \<Rightarrow> 'd xrt_cu_hls \<Rightarrow> 'd xrt_cu_hls" where
  "cu_hls_disable_intr io t c =
     (case hls_read32 io HLS_IER c of (orig, c) \<Rightarrow>
        hls_write32 io HLS_IER (orig AND NOT t) (hls_write32 io HLS_GIE 0 c))"

definition cu_hls_clear_intr :: "'d io \<Rightarrow> 'd xrt_cu_hls \<Rightarrow> u32 \<times> 'd xrt_cu_hls" where
  "cu_hls_clear_intr io c =
     (if hls_max_credits c = 1
      then case hls_read32 io HLS_ISR c of (isr, c) \<Rightarrow>
        let c = (if hls_ctrl_chain c \<and> isr AND CU_INTR_DONE \<noteq> 0
                 then (case hls_read32 io HLS_CTRL c of (ctrl_reg, c) \<Rightarrow>
                         if ctrl_reg AND CU_AP_DONE \<noteq> 0
                         then hls_write32 io HLS_CTRL CU_AP_CONTINUE (c\<lparr>hls_done := hls_done c + 1\<rparr>) else c)
                 else c)
        in (isr, hls_write32 io HLS_ISR isr c)
      else hls_read32 io HLS_ISR c)"

definition cu_hls_reset :: "'d io \<Rightarrow> 'd xrt_cu_hls \<Rightarrow> 'd xrt_cu_hls" where
  "cu_hls_reset io c = hls_write32 io HLS_CTRL CU_AP_SW_RESET c"

definition cu_hls_reset_done :: "'d io \<Rightarrow> 'd xrt_cu_hls \<Rightarrow> bool \<times> 'd xrt_cu_hls" where
  "cu_hls_reset_done io c = (case hls_read32 io HLS_CTRL c of (r, c) \<Rightarrow> (r AND CU_AP_SW_RESET = 0, c))"

definition cu_hls_submit_config :: "'d io \<Rightarrow> bool \<Rightarrow> cmd_store \<Rightarrow> nat \<Rightarrow> 'd xrt_cu_hls \<Rightarrow> (s32 \<times> 'd xrt_cu_hls) option" where
  "cu_hls_submit_config io echo h i c =
     (case cu_hls_configure io echo (c_info (h i)) (c_isize (h i)) (c_payload_type (h i)) c of
        None \<Rightarrow> None
      | Some (ret, c) \<Rightarrow>
          if ret \<noteq> 0 then Some (ret, c) else Some (ret, c\<lparr>hls_submitted := hls_submitted c @ [i]\<rparr>))"

definition cu_hls_get_complete :: "'d xrt_cu_hls \<Rightarrow> nat option \<times> 'd xrt_cu_hls" where
  "cu_hls_get_complete c =
     (case hls_completed c of [] \<Rightarrow> (None, c) | i # is \<Rightarrow> (Some i, c\<lparr>hls_completed := is\<rparr>))"

text \<open>The polling loop of \<^verbatim>\<open>cu_hls_abort\<close>: the time left when it ends.\<close>

function hls_reset_wait :: "'d io \<Rightarrow> int \<Rightarrow> 'd xrt_cu_hls \<Rightarrow> int \<times> 'd xrt_cu_hls" where
  "hls_reset_wait io time c =
     (let time = time - 1000; (fin, c) = cu_hls_reset_done io c in
      if fin then (time, c) else if time > 0 then hls_reset_wait io time c else (time, c))"
  by pat_completeness auto

termination hls_reset_wait
  by (relation "measure (\<lambda>(io, time, c). nat time)") auto

declare hls_reset_wait.simps [simp del]

text \<open>A command is on the list once, so matching all of them first is the same as one after the other.\<close>

definition cu_hls_abort :: "'d io \<Rightarrow> (kds_command \<Rightarrow> bool) \<Rightarrow> cmd_store \<Rightarrow> 'd xrt_cu_hls \<Rightarrow>
  s32 \<times> cmd_store \<times> 'd xrt_cu_hls" where
  "cu_hls_abort io match h c =
     (let (ret, c) =
        (if hls_sw_reset c
         then (case hls_reset_wait io 10000000 (cu_hls_reset io c) of (time, c) \<Rightarrow>
                 if time \<ge> 0 then (0, c\<lparr>hls_credits := hls_max_credits c\<rparr>) else (- EBUSY, c))
         else (- EBUSY, c));
          ks = filter (\<lambda>i. match (h i)) (hls_submitted c)
      in (ret, fold (set_status KDS_TIMEOUT) ks h,
          c\<lparr>hls_submitted := filter (\<lambda>i. \<not> match (h i)) (hls_submitted c), hls_completed := hls_completed c @ ks\<rparr>))"

definition xrt_cu_hls_funcs :: "'d io \<Rightarrow> bool \<Rightarrow> 'd xrt_cu_hls xcu_funcs" where
  "xrt_cu_hls_funcs io echo = \<lparr>
     fn_alloc_credit = cu_hls_alloc_credit,
     fn_free_credit = cu_hls_free_credit,
     fn_peek_credit = cu_hls_peek_credit,
     fn_configure = cu_hls_configure io echo,
     fn_start = cu_hls_start io echo,
     fn_check = cu_hls_check io echo,
     fn_submit_config = Some (cu_hls_submit_config io echo),
     fn_get_complete = Some cu_hls_get_complete,
     fn_abort = Some (cu_hls_abort io),
     fn_reset = cu_hls_reset io,
     fn_reset_done = cu_hls_reset_done io,
     fn_enable_intr = cu_hls_enable_intr io,
     fn_disable_intr = cu_hls_disable_intr io,
     fn_clear_intr = cu_hls_clear_intr io\<rparr>"

text \<open>
  Initialisation. \<open>mem\<close> says whether the allocation succeeds and \<open>regs\<close> is the mapped
  register space, if mapping succeeds.
\<close>

definition xrt_cu_hls_init :: "'d io \<Rightarrow> bool \<Rightarrow> 'd option \<Rightarrow> 'd xrt_cu_hls xrt_cu \<Rightarrow> s32 \<times> 'd xrt_cu_hls xrt_cu" where
  "xrt_cu_hls_init io mem regs x =
     (if \<not> mem then (- ENOMEM, x)
      else case regs of
        None \<Rightarrow> (- ENOMEM, x)
      | Some d \<Rightarrow>
          let x = x\<lparr>core := \<lparr>hls_vaddr = d, hls_max_credits = 1, hls_credits = 1, hls_run_cnts = 0,
                hls_ctrl_chain = (protocol (cu_info x) = CTRL_CHAIN), hls_sw_reset = sw_reset (cu_info x),
                hls_done = 0, hls_submitted = [], hls_completed = []\<rparr>\<rparr>
          in if protocol (cu_info x) = CTRL_NONE then (0, x)
             else case hls_read32 io HLS_CTRL (core x) of (v, c) \<Rightarrow> xrt_cu_init (x\<lparr>status := v, core := c\<rparr>))"

section \<open>The contract\<close>

lemma results_only_refl [simp]: "results_only A h h"
  unfolding results_only_def by (metis kds_command.surjective kds_command.update_convs(2,3))

lemma results_only_set_status:
  assumes "results_only A h h'"
  shows "results_only (insert i A) h (set_status s i h')"
proof -
  have "\<exists>t r. set_status s i h' j = (h j)\<lparr>c_status := t, c_rcode := r\<rparr>" for j
  proof -
    obtain t r where "h' j = (h j)\<lparr>c_status := t, c_rcode := r\<rparr>" using assms unfolding results_only_def by blast
    then have "set_status s i h' j = (h j)\<lparr>c_status := (if j = i then s else t), c_rcode := r\<rparr>"
      by (auto simp: set_status_def)
    then show ?thesis by blast
  qed
  with assms show ?thesis by (simp add: results_only_def set_status_def)
qed

lemma results_only_mono: "results_only A h h' \<Longrightarrow> A \<subseteq> B \<Longrightarrow> results_only B h h'"
  by (auto simp: results_only_def)

lemma results_only_fold: "results_only (set ks) h (fold (set_status s) ks h)"
proof (induction ks rule: rev_induct)
  case (snoc k ks)
  then show ?case using results_only_set_status [of "set ks" h _ k s] by simp
qed simp

lemma hls_move_finishes:
  assumes "(hls_move_to_complete s ^^ n) (h, c) = (h', c')"
  shows "\<exists>ks. hls_submitted c = ks @ hls_submitted c' \<and> hls_completed c' = hls_completed c @ ks \<and>
    results_only (set ks) h h' \<and> (\<forall>i \<in> set ks. c_status (h' i) = s) \<and> length ks = min n (length (hls_submitted c))"
  using assms
proof (induction n arbitrary: h' c')
  case 0
  then show ?case by simp
next
  case (Suc n)
  obtain g d where d: "(hls_move_to_complete s ^^ n) (h, c) = (g, d)" by fastforce
  from Suc.IH [OF d] obtain ks where ks: "hls_submitted c = ks @ hls_submitted d" "hls_completed d = hls_completed c @ ks"
    "results_only (set ks) h g" "\<forall>i \<in> set ks. c_status (g i) = s" "length ks = min n (length (hls_submitted c))" by blast
  show ?case
  proof (cases "hls_submitted d")
    case Nil
    with Suc.prems d ks show ?thesis by (intro exI [of _ ks]) auto
  next
    case (Cons i is')
    with Suc.prems d ks results_only_set_status [OF ks(3), of i s] show ?thesis
      by (intro exI [of _ "ks @ [i]"]) auto
  qed
qed

lemma write_regmap_keeps:
  assumes "write_regmap io data n i c = Some c'"
  shows "\<exists>d. c' = c\<lparr>hls_vaddr := d\<rparr>"
proof (rule write_regmap.raw_induct [OF _ assms])
  fix loop :: "'b io \<Rightarrow> u32 list \<Rightarrow> u64 \<Rightarrow> u32 \<Rightarrow> 'b xrt_cu_hls \<Rightarrow> 'b xrt_cu_hls option"
    and io data n i and c c' :: "'b xrt_cu_hls"
  assume "\<And>io data n i c c'. loop io data n i c = Some c' \<Longrightarrow> \<exists>d. c' = c\<lparr>hls_vaddr := d\<rparr>"
    and "(if ucast i < n then case word_at data (unat i) of None \<Rightarrow> None
      | Some v \<Rightarrow> loop io data n (i + 1) (hls_write32 io (HLS_ARGS + i * 4) v c) else Some c) = Some c'"
  then show "\<exists>d. c' = c\<lparr>hls_vaddr := d\<rparr>"
    by (fastforce simp: hls_write32_def split: if_splits option.splits intro: exI [of _ "hls_vaddr c"])
qed

lemma write_pairs_keeps:
  assumes "write_pairs io data n i c = Some c'"
  shows "\<exists>d. c' = c\<lparr>hls_vaddr := d\<rparr>"
proof (rule write_pairs.raw_induct [OF _ assms])
  fix loop :: "'b io \<Rightarrow> u32 list \<Rightarrow> u64 \<Rightarrow> u32 \<Rightarrow> 'b xrt_cu_hls \<Rightarrow> 'b xrt_cu_hls option"
    and io data n i and c c' :: "'b xrt_cu_hls"
  assume "\<And>io data n i c c'. loop io data n i c = Some c' \<Longrightarrow> \<exists>d. c' = c\<lparr>hls_vaddr := d\<rparr>"
    and "(if ucast i < n then case word_at data (unat i) of None \<Rightarrow> None
      | Some reg \<Rightarrow> (case word_at data (unat (i + 1)) of None \<Rightarrow> None
          | Some v \<Rightarrow> loop io data n (i + 2) (hls_write32 io reg v c)) else Some c) = Some c'"
  then show "\<exists>d. c' = c\<lparr>hls_vaddr := d\<rparr>"
    by (fastforce simp: hls_write32_def split: if_splits option.splits intro: exI [of _ "hls_vaddr c"])
qed

lemma configure_keeps:
  "cu_hls_configure io echo data sz ty c = Some (r, c') \<Longrightarrow> \<exists>d. c' = c\<lparr>hls_vaddr := d\<rparr>"
  by (auto simp: cu_hls_configure_def cu_hls_xgq_start_def cu_hls_xgq_start_kv_def Let_def
      dest: write_regmap_keeps write_pairs_keeps intro: exI [of _ "hls_vaddr c"] split: if_splits Option.bind_splits)

lemma reset_wait_keeps:
  "hls_reset_wait io time c = (t, c') \<Longrightarrow> \<exists>d. c' = c\<lparr>hls_vaddr := d\<rparr>"
proof (induction io time c rule: hls_reset_wait.induct)
  case (1 io time c)
  obtain v d where "io_read io HLS_CTRL (hls_vaddr c) = (v, d)" by fastforce
  then have "cu_hls_reset_done io c = (v AND CU_AP_SW_RESET = 0, c\<lparr>hls_vaddr := d\<rparr>)"
    by (simp add: cu_hls_reset_done_def hls_read32_def)
  with 1 show ?case
    by (subst (asm) (2) hls_reset_wait.simps) (fastforce simp: Let_def split: if_splits)
qed

lemma check_finishes_hls:
  assumes "cu_hls_check io echo force st h c = (st', h', c')"
  shows "\<exists>ks. hls_submitted c = ks @ hls_submitted c' \<and> hls_completed c' = hls_completed c @ ks \<and>
    results_only (set ks) h h' \<and> (\<forall>i \<in> set ks. c_status (h' i) \<in> {KDS_COMPLETED})"
proof -
  have "\<exists>n d k. (hls_move_to_complete KDS_COMPLETED ^^ n) (h, c\<lparr>hls_done := k, hls_vaddr := d\<rparr>) = (h', c')"
  proof (cases "echo")
    case True
    then have "(hls_move_to_complete KDS_COMPLETED ^^ 1) (h, c\<lparr>hls_done := hls_done c, hls_vaddr := hls_vaddr c\<rparr>) = (h', c')"
      using assms by (simp add: cu_hls_check_def)
    then show ?thesis by blast
  next
    case False
    obtain v d where r: "io_read io HLS_CTRL (hls_vaddr c) = (v, d)" by fastforce
    have id: "(hls_move_to_complete KDS_COMPLETED ^^ 0) (h, c\<lparr>hls_done := hls_done c, hls_vaddr := hls_vaddr c\<rparr>) = (h, c)"
      by simp
    show ?thesis
    proof (cases "hls_ctrl_chain c")
      case True
      let ?w = "if v AND CU_AP_DONE \<noteq> 0 then io_write io HLS_CTRL CU_AP_CONTINUE d else d"
      let ?n = "if v AND CU_AP_DONE \<noteq> 0 then hls_done c + 1 else hls_done c"
      have "(h', c') = (h, c) \<or>
        (h', c') = (hls_move_to_complete KDS_COMPLETED ^^ unat ?n) (h, c\<lparr>hls_done := 0, hls_vaddr := ?w\<rparr>)"
        using assms False True r
        by (auto simp: cu_hls_check_def cu_hls_ctrl_chain_check_def hls_read32_def hls_write32_def Let_def
            split: if_splits prod.splits)
      then show ?thesis using id by metis
    next
      case False
      have "(h', c') = (h, c) \<or> (h', c') = (hls_move_to_complete KDS_COMPLETED ^^ of_bool (v AND CU_AP_DONE \<noteq> 0))
          (h, c\<lparr>hls_done := hls_done c, hls_vaddr := d\<rparr>)"
        using assms \<open>\<not> echo\<close> False r
        by (auto simp: cu_hls_check_def cu_hls_ctrl_hs_check_def hls_read32_def Let_def
            split: if_splits prod.splits)
      then show ?thesis using id by metis
    qed
  qed
  then obtain n d k where "(hls_move_to_complete KDS_COMPLETED ^^ n) (h, c\<lparr>hls_done := k, hls_vaddr := d\<rparr>) = (h', c')"
    by blast
  from hls_move_finishes [OF this] show ?thesis by auto
qed

lemma abort_finishes_hls:
  assumes "cu_hls_abort io m h c = (r, h', c')"
  shows "hls_submitted c' = filter (\<lambda>i. \<not> m (h i)) (hls_submitted c) \<and>
    hls_completed c' = hls_completed c @ filter (\<lambda>i. m (h i)) (hls_submitted c) \<and>
    results_only (set (filter (\<lambda>i. m (h i)) (hls_submitted c))) h h'"
proof -
  obtain t d where "hls_reset_wait io 10000000 (cu_hls_reset io c) = (t, (cu_hls_reset io c)\<lparr>hls_vaddr := d\<rparr>)"
    using reset_wait_keeps by (metis surj_pair)
  with assms show ?thesis
    using results_only_fold [of "filter (\<lambda>i. m (h i)) (hls_submitted c)" h KDS_TIMEOUT]
    by (auto simp: cu_hls_abort_def cu_hls_reset_def hls_write32_def Let_def split: if_splits)
qed

interpretation hls: cu_core "xrt_cu_hls_funcs io echo" hls_submitted hls_completed "{KDS_COMPLETED}"
  for io :: "'d io" and echo
proof
  fix c c' :: "'d xrt_cu_hls" and n t r and h h' :: cmd_store and st st' force i f m g
  let ?F = "xrt_cu_hls_funcs io echo"
  show "fn_alloc_credit ?F c = (r, c') \<Longrightarrow> hls_submitted c' = hls_submitted c \<and> hls_completed c' = hls_completed c"
    by (auto simp: xrt_cu_hls_funcs_def cu_hls_alloc_credit_def split: if_splits)
  show "hls_submitted (fn_free_credit ?F n c) = hls_submitted c \<and> hls_completed (fn_free_credit ?F n c) = hls_completed c"
    by (simp add: xrt_cu_hls_funcs_def cu_hls_free_credit_def Let_def)
  show "hls_submitted (fn_start ?F c) = hls_submitted c \<and> hls_completed (fn_start ?F c) = hls_completed c"
    by (simp add: xrt_cu_hls_funcs_def cu_hls_start_def hls_write32_def Let_def)
  show "hls_submitted (fn_enable_intr ?F t c) = hls_submitted c \<and> hls_completed (fn_enable_intr ?F t c) = hls_completed c"
    by (simp add: xrt_cu_hls_funcs_def cu_hls_enable_intr_def hls_write32_def)
  show "hls_submitted (fn_disable_intr ?F t c) = hls_submitted c \<and> hls_completed (fn_disable_intr ?F t c) = hls_completed c"
    by (simp add: xrt_cu_hls_funcs_def cu_hls_disable_intr_def hls_write32_def hls_read32_def split: prod.splits)
  show "fn_clear_intr ?F c = (t, c') \<Longrightarrow> hls_submitted c' = hls_submitted c \<and> hls_completed c' = hls_completed c"
    by (auto simp: xrt_cu_hls_funcs_def cu_hls_clear_intr_def hls_write32_def hls_read32_def Let_def
        split: prod.splits if_splits)
  show "fn_check ?F force st h c = (st', h', c') \<Longrightarrow> \<exists>ks. hls_submitted c = ks @ hls_submitted c' \<and>
      hls_completed c' = hls_completed c @ ks \<and> results_only (set ks) h h' \<and> (\<forall>i \<in> set ks. c_status (h' i) \<in> {KDS_COMPLETED})"
    using check_finishes_hls by (simp add: xrt_cu_hls_funcs_def)
  show "fn_submit_config ?F = Some f \<Longrightarrow> f h i c = Some (r, c') \<Longrightarrow> hls_completed c' = hls_completed c \<and>
      hls_submitted c' = (if r = 0 then hls_submitted c @ [i] else hls_submitted c)"
    by (auto simp: xrt_cu_hls_funcs_def cu_hls_submit_config_def dest!: configure_keeps split: option.splits if_splits)
  show "\<exists>f. fn_get_complete ?F = Some f \<and> (\<forall>c i c'. f c = (i, c') \<longrightarrow> hls_submitted c' = hls_submitted c \<and>
      (case hls_completed c of [] \<Rightarrow> i = None \<and> hls_completed c' = [] | k # ks \<Rightarrow> i = Some k \<and> hls_completed c' = ks))"
    by (auto simp: xrt_cu_hls_funcs_def cu_hls_get_complete_def split: list.splits)
  show "fn_abort ?F = Some g \<Longrightarrow> g m h c = (r, h', c') \<Longrightarrow>
      hls_submitted c' = filter (\<lambda>i. \<not> m (h i)) (hls_submitted c) \<and>
      hls_completed c' = hls_completed c @ filter (\<lambda>i. m (h i)) (hls_submitted c) \<and>
      results_only (set (filter (\<lambda>i. m (h i)) (hls_submitted c))) h h'"
    using abort_finishes_hls [of io m h c r h' c'] by (auto simp: xrt_cu_hls_funcs_def)
qed

section \<open>Configuration\<close>

lemma write_regmap_spec:
  assumes "unat n \<le> length data" and "unat n < 2 ^ 32" and "unat i \<le> unat n"
  shows "write_regmap io data n i c = Some (c\<lparr>hls_vaddr :=
    fold (\<lambda>k. io_write io (HLS_ARGS + word_of_nat k * 4) (data ! k)) [unat i..<unat n] (hls_vaddr c)\<rparr>)"
  using assms(3)
proof (induction "unat n - unat i" arbitrary: i c)
  case 0
  then have "\<not> ucast i < n" by (simp add: word_less_nat_alt unat_ucast_up)
  with 0 show ?case by (subst write_regmap.simps) simp
next
  case (Suc k)
  then have l: "unat i < unat n" by linarith
  then have i: "ucast i < n" by (simp add: word_less_nat_alt unat_ucast_up)
  have s: "unat (i + 1) = unat i + 1"
    using l assms(2) by (intro trans [OF unat_add_small]) simp_all
  have "write_regmap io data n i c = write_regmap io data n (i + 1) (hls_write32 io (HLS_ARGS + i * 4) (data ! unat i) c)"
    using i l assms(1) by (subst write_regmap.simps) (simp add: word_at_def)
  also have "\<dots> = Some ((hls_write32 io (HLS_ARGS + i * 4) (data ! unat i) c)\<lparr>hls_vaddr :=
    fold (\<lambda>k. io_write io (HLS_ARGS + word_of_nat k * 4) (data ! k)) [unat (i + 1)..<unat n]
      (hls_vaddr (hls_write32 io (HLS_ARGS + i * 4) (data ! unat i) c))\<rparr>)"
    using Suc.hyps(1) [of "i + 1"] Suc.hyps(2) s l by simp
  finally show ?case using l s by (simp add: hls_write32_def upt_conv_Cons)
qed

text \<open>The register and value of each pair among the first \<open>n\<close> words.\<close>

definition pairs_below :: "u32 list \<Rightarrow> nat \<Rightarrow> (u32 \<times> u32) list" where
  "pairs_below data n = map (\<lambda>k. (data ! (2 * k), data ! (2 * k + 1))) [0..<(n + 1) div 2]"

lemma write_pairs_from:
  assumes "unat n + unat n mod 2 \<le> length data" and "unat n + 1 < 2 ^ 32" and "unat i = 2 * j" and "j \<le> (unat n + 1) div 2"
  shows "write_pairs io data n i c = Some (c\<lparr>hls_vaddr :=
    fold (\<lambda>k. io_write io (data ! (2 * k)) (data ! (2 * k + 1))) [j..<(unat n + 1) div 2] (hls_vaddr c)\<rparr>)"
  using assms(3,4)
proof (induction "(unat n + 1) div 2 - j" arbitrary: i j c)
  case 0
  then have "\<not> ucast i < n" by (simp add: word_less_nat_alt unat_ucast_up)
  with 0 show ?case by (subst write_pairs.simps) simp
next
  case (Suc k)
  then have l: "2 * j < unat n" by linarith
  then have i: "ucast i < n" using Suc.prems(1) by (simp add: word_less_nat_alt unat_ucast_up)
  have d: "2 * j + 1 < length data" using l assms(1) by presburger
  have s: "unat (i + 1) = 2 * j + 1" "unat (i + 2) = 2 * Suc j"
    using l assms(2) Suc.prems(1) by (auto intro!: trans [OF unat_add_small])
  let ?c = "hls_write32 io (data ! (2 * j)) (data ! (2 * j + 1)) c"
  have "write_pairs io data n i c = write_pairs io data n (i + 2) ?c"
    using i d s Suc.prems(1) by (subst write_pairs.simps) (simp add: word_at_def)
  also have "\<dots> = Some (?c\<lparr>hls_vaddr :=
    fold (\<lambda>k. io_write io (data ! (2 * k)) (data ! (2 * k + 1))) [Suc j..<(unat n + 1) div 2] (hls_vaddr ?c)\<rparr>)"
    using Suc.hyps(1) [of "Suc j" "i + 2" ?c] Suc.hyps(2) s(2) l by simp
  finally show ?case using l by (simp add: hls_write32_def upt_conv_Cons)
qed

lemma write_pairs_spec:
  assumes "unat n + unat n mod 2 \<le> length data" and "unat n + 1 < 2 ^ 32"
  shows "write_pairs io data n 0 c = Some (c\<lparr>hls_vaddr :=
    fold (\<lambda>(reg, v). io_write io reg v) (pairs_below data (unat n)) (hls_vaddr c)\<rparr>)"
  using write_pairs_from [OF assms, of 0 0] by (simp add: pairs_below_def fold_map comp_def)

lemma unat_ucast_down: "unat (ucast a :: u32) = unat a mod 2 ^ 32" for a :: u64
  by (simp add: unsigned_ucast_eq take_bit_eq_mod)

lemma xgq_count_less: "unat (xgq_count w) < 2 ^ 15"
  unfolding xgq_count_def by (rule unat_bits_less)

lemma xgq_num_reg:
  "unat (ucast (ucast ((ucast (xgq_count w) - (8 - 8) :: u64) div 4) :: u32) :: u64) = unat (xgq_count w) div 4"
  using xgq_count_less [of w] by (simp add: unat_ucast_up unat_ucast_down unat_div)

lemma xgq_num_reg_kv:
  assumes "4 \<le> unat (xgq_count w)"
  shows "unat (ucast (ucast ((ucast (xgq_count w) - (12 - 8) :: u64) div 4) :: u32) :: u64) = (unat (xgq_count w) - 4) div 4"
proof -
  have "unat (ucast (xgq_count w) - (12 - 8) :: u64) = unat (xgq_count w) - 4"
    using assms by (subst unat_sub) (simp_all add: word_le_nat_alt unat_ucast_up)
  with xgq_count_less [of w] show ?thesis by (simp add: unat_ucast_up unat_ucast_down unat_div)
qed

text \<open>Payloads that hold all the words their size or count field announces.\<close>

definition xgq_payload_ok :: "u32 list \<Rightarrow> bool" where
  "xgq_payload_ok d \<longleftrightarrow> d \<noteq> [] \<and>
     (let m = unat (xgq_count (d ! 0)); q = (m - 4) div 4 in
      (xgq_opcode (d ! 0) = XGQ_CMD_OP_START_CUIDX \<longrightarrow> m div 4 + 2 \<le> length d) \<and>
      (xgq_opcode (d ! 0) = XGQ_CMD_OP_START_CUIDX_KV \<longrightarrow> 4 \<le> m \<and> q + q mod 2 + 2 \<le> length d))"

definition hls_payload_ok :: "bool \<Rightarrow> kds_command \<Rightarrow> bool" where
  "hls_payload_ok echo k \<longleftrightarrow> echo \<or>
     (let n = unat (c_isize k div 4) in
      (c_payload_type k = REGMAP \<longrightarrow> n \<le> length (c_info k) \<and> n < 2 ^ 32) \<and>
      (c_payload_type k = KEY_VAL \<longrightarrow> n + n mod 2 \<le> length (c_info k) \<and> n + 1 < 2 ^ 32) \<and>
      (c_payload_type k = XGQ_CMD \<longrightarrow> xgq_payload_ok (c_info k)))"

lemma xgq_start_returns:
  assumes "unat (xgq_count (d ! 0)) div 4 + 2 \<le> length d"
  shows "\<exists>c'. cu_hls_xgq_start io d c = Some c'"
proof -
  let ?n = "ucast (ucast ((ucast (xgq_count (d ! 0)) - (8 - 8) :: u64) div 4) :: u32) :: u64"
  have "unat ?n \<le> length (drop 2 d)" "unat ?n < 2 ^ 32"
    using assms xgq_count_less [of "d ! 0"] unfolding xgq_num_reg by (simp_all add: less_mult_imp_div_less)
  then have "\<exists>c'. write_regmap io (drop 2 d) ?n 0 c = Some c'" using write_regmap_spec [of ?n "drop 2 d" 0 io c] by simp
  moreover have "word_at d 0 = Some (d ! 0)" using assms by (cases d) (simp_all add: word_at_def)
  ultimately show ?thesis by (simp add: cu_hls_xgq_start_def Let_def)
qed

lemma xgq_start_kv_returns:
  assumes "4 \<le> unat (xgq_count (d ! 0))" and "q = (unat (xgq_count (d ! 0)) - 4) div 4" and "q + q mod 2 + 2 \<le> length d"
  shows "\<exists>c'. cu_hls_xgq_start_kv io d c = Some c'"
proof -
  let ?n = "ucast (ucast ((ucast (xgq_count (d ! 0)) - (12 - 8) :: u64) div 4) :: u32) :: u64"
  have n: "unat ?n = q" unfolding xgq_num_reg_kv [OF assms(1)] assms(2) ..
  have "q < 2 ^ 15" using xgq_count_less [of "d ! 0"] assms(2) by simp
  then have "unat ?n + 1 < 2 ^ 32" unfolding n by simp
  moreover have "unat ?n + unat ?n mod 2 \<le> length (drop 2 d)" using assms(3) unfolding n length_drop by linarith
  ultimately have "\<exists>c'. write_pairs io (drop 2 d) ?n 0 c = Some c'" using write_pairs_spec [of ?n "drop 2 d" io c] by simp
  moreover have "word_at d 0 = Some (d ! 0)" using assms(3) by (cases d) (simp_all add: word_at_def)
  ultimately show ?thesis by (simp add: cu_hls_xgq_start_kv_def Let_def)
qed

lemma configure_returns:
  assumes "hls_payload_ok echo k"
  shows "\<exists>r c'. cu_hls_configure io echo (c_info k) (c_isize k) (c_payload_type k) c = Some (r, c')"
proof -
  have "\<exists>c'. write_regmap io (c_info k) (c_isize k div 4) 0 c = Some c'" if "\<not> echo" "c_payload_type k = REGMAP"
    using that assms write_regmap_spec [of "c_isize k div 4" "c_info k" 0 io c] by (simp add: hls_payload_ok_def Let_def)
  moreover have "\<exists>c'. write_pairs io (c_info k) (c_isize k div 4) 0 c = Some c'" if "\<not> echo" "c_payload_type k = KEY_VAL"
    using that assms write_pairs_spec [of "c_isize k div 4" "c_info k" io c] by (simp add: hls_payload_ok_def Let_def)
  moreover have "\<exists>r c'. (do {
      w \<leftarrow> word_at (c_info k) 0;
      if xgq_opcode w = XGQ_CMD_OP_START_CUIDX then map_option (Pair 0) (cu_hls_xgq_start io (c_info k) c)
      else if xgq_opcode w = XGQ_CMD_OP_START_CUIDX_KV then map_option (Pair 0) (cu_hls_xgq_start_kv io (c_info k) c)
      else Some (- EINVAL, c) }) = Some (r, c')" if "\<not> echo" "c_payload_type k = XGQ_CMD"
  proof -
    have x: "xgq_payload_ok (c_info k)" using that assms by (simp add: hls_payload_ok_def Let_def)
    then have "word_at (c_info k) 0 = Some (c_info k ! 0)" by (simp add: xgq_payload_ok_def word_at_def)
    with x show ?thesis
      using xgq_start_returns [of "c_info k" io c] xgq_start_kv_returns [of "c_info k" _ io c]
      by (auto simp: xgq_payload_ok_def Let_def)
  qed
  ultimately show ?thesis by (auto simp: cu_hls_configure_def Let_def)
qed

interpretation hls: cu_core_total "xrt_cu_hls_funcs io echo" hls_submitted hls_completed "{KDS_COMPLETED}" "hls_payload_ok echo"
  for io :: "'d io" and echo
proof
  fix k k' h i f and c :: "'d xrt_cu_hls"
  show "request k = request k' \<Longrightarrow> hls_payload_ok echo k \<longleftrightarrow> hls_payload_ok echo k'"
    by (simp add: request_def hls_payload_ok_def)
  show "fn_submit_config (xrt_cu_hls_funcs io echo) = Some f \<Longrightarrow> hls_payload_ok echo (h i) \<Longrightarrow> \<exists>r c'. f h i c = Some (r, c')"
    using configure_returns [of echo "h i" io c] by (auto simp: xrt_cu_hls_funcs_def cu_hls_submit_config_def)
qed

text \<open>In echo mode the core completes a command with each check.\<close>

interpretation hls_echo: cu_core_live "xrt_cu_hls_funcs io True" hls_submitted hls_completed "{KDS_COMPLETED}"
  "hls_payload_ok True" "\<lambda>c. hls_max_credits c = 1 \<and> hls_credits c \<in> {0, 1}"
  for io :: "'d io"
proof
  fix c c' :: "'d xrt_cu_hls" and n k st t and h h' :: cmd_store and g
  let ?F = "xrt_cu_hls_funcs io True" and ?good = "\<lambda>c. hls_max_credits c = 1 \<and> hls_credits c \<in> {0, 1}"
  show "?good c \<Longrightarrow> fn_alloc_credit ?F c = (n, c') \<Longrightarrow> n = fn_peek_credit ?F c \<and> ?good c'"
    by (auto simp: xrt_cu_hls_funcs_def cu_hls_alloc_credit_def cu_hls_peek_credit_def split: if_splits)
  show "\<exists>f. fn_submit_config ?F = Some f \<and> (\<forall>c h i r c'. ?good c \<longrightarrow> hls_payload_ok True (h i) \<longrightarrow>
      f h i c = Some (r, c') \<longrightarrow> r = 0 \<and> ?good c')"
    by (auto simp: xrt_cu_hls_funcs_def cu_hls_submit_config_def cu_hls_configure_def)
  show "?good c \<Longrightarrow> ?good (fn_start ?F c)"
    by (simp add: xrt_cu_hls_funcs_def cu_hls_start_def Let_def)
  show "?good c \<Longrightarrow> ?good (fn_disable_intr ?F t c)"
    by (simp add: xrt_cu_hls_funcs_def cu_hls_disable_intr_def hls_read32_def hls_write32_def split: prod.splits)
  show "fn_get_complete ?F = Some g \<Longrightarrow> ?good c \<Longrightarrow> g c = (k, c') \<Longrightarrow> ?good c' \<and> fn_peek_credit ?F c' = fn_peek_credit ?F c"
    by (auto simp: xrt_cu_hls_funcs_def cu_hls_get_complete_def cu_hls_peek_credit_def split: list.splits)
  show "?good c \<Longrightarrow> fn_check ?F False no_status h c = (st, h', c') \<Longrightarrow>
      num_ready st \<noteq> 0 \<and> (hls_submitted c \<noteq> [] \<longrightarrow> length (hls_submitted c') < length (hls_submitted c)) \<and>
      ?good (fn_free_credit ?F (num_ready st) c') \<and> fn_peek_credit ?F (fn_free_credit ?F (num_ready st) c') \<noteq> 0"
    by (auto simp: xrt_cu_hls_funcs_def cu_hls_check_def cu_hls_free_credit_def cu_hls_peek_credit_def Let_def
        split: list.splits)
qed

end
