(* ===== verification/Kds_Convert.thy ===== *)
theory Kds_Convert
  imports Kds_Hls Ert_Packet "HOL-Library.Product_Lexorder"
begin

text \<open>
  What the kernel driver scheduler makes of its inputs, from the end of
  \<^verbatim>\<open>core/common/drv/kds_core.c\<close> and from \<^verbatim>\<open>xgq_execbuf.c\<close>: commands from the packets of
  user space, lists of compute units from bit masks and from the IP layout of an xclbin.

  A packet is the kernel's copy of it, a sequence of words as in \<open>Ert_Packet\<close>. The payload
  of a command is a buffer of the size it was allocated with; copying more words into it than
  it has is undefined, as is writing to a null payload, which is the empty list.
\<close>

section \<open>Masks of compute units\<close>

function mask_bits :: "nat \<Rightarrow> nat \<Rightarrow> u32 \<Rightarrow> nat list" where
  "mask_bits i j m =
     (if m = 0 then []
      else if m AND 1 = 0 then mask_bits i (Suc j) (drop_bit 1 m)
      else (i * 32 + j) # mask_bits i (Suc j) (drop_bit 1 m))"
  by pat_completeness auto
termination
proof (relation "measure (\<lambda>(i, j, m). unat m)")
  have "unat (drop_bit 1 m) < unat m" if "m \<noteq> 0" for m :: u32
    using that by (simp add: unat_drop_bit_eq drop_bit_eq_div unat_div unat_gt_0)
  then show "m \<noteq> 0 \<Longrightarrow> m AND 1 = 0 \<Longrightarrow> ((i, Suc j, drop_bit 1 m), i, j, m) \<in> measure (\<lambda>(i, j, m). unat m)"
    "m \<noteq> 0 \<Longrightarrow> m AND 1 \<noteq> 0 \<Longrightarrow> ((i, Suc j, drop_bit 1 m), i, j, m) \<in> measure (\<lambda>(i, j, m). unat m)"
    for i j :: nat and m :: u32 by auto
qed simp

declare mask_bits.simps [simp del]

text \<open>The indices go to an array of bytes; four masks of 32 bits give indices below 128.\<close>

fun mask_list :: "u32 list \<Rightarrow> nat \<Rightarrow> nat \<Rightarrow> nat list option" where
  "mask_list masks i 0 = Some []"
| "mask_list masks i (Suc n) =
     do {
       m \<leftarrow> word_at masks i;
       rest \<leftarrow> mask_list masks (Suc i) n;
       Some ((if m = 0 then [] else mask_bits i 0 m) @ rest)
     }"

definition cu_mask_to_cu_idx :: "kds_command \<Rightarrow> nat list option" where
  "cu_mask_to_cu_idx xcmd = mask_list (c_cu_mask xcmd) 0 (unat (c_num_mask xcmd))"

section \<open>Commands from packets\<close>

text \<open>The allocations succeed; a failed one ends the submission before a command exists.\<close>

definition NO_INDEX :: s32 where "NO_INDEX = - 1"

definition kds_alloc_command :: "nat \<Rightarrow> u32 \<Rightarrow> kds_command" where
  "kds_alloc_command client sz =
     \<lparr>c_client = client, c_status = KDS_NEW, c_rcode = 0, c_cu_idx = NO_INDEX, c_hw_ctx_id = 0, c_type = 0,
      c_opcode = OP_NONE, c_payload_type = 0, c_info = replicate (unat (sz div 4)) 0, c_isize = ucast sz,
      c_timestamp_enabled = 0, c_timestamp = (\<lambda>_. 0), c_cu_mask = [0, 0, 0, 0], c_num_mask = 0, c_exec_bo_handle = 0\<rparr>"

definition copy_payload :: "pkt_words \<Rightarrow> nat \<Rightarrow> u64 \<Rightarrow> kds_command \<Rightarrow> kds_command option" where
  "copy_payload p start sz xcmd =
     (if sz \<le> 4 * word_of_nat (length (c_info xcmd))
      then let n = unat (sz div 4)
           in Some (xcmd\<lparr>c_info := map p [start..<start + n] @ drop n (c_info xcmd), c_isize := sz\<rparr>)
      else None)"

text \<open>The beginning that the conversions of start packets share: time stamp and masks.\<close>

definition start_ecmd :: "kds_opcode \<Rightarrow> u64 \<Rightarrow> pkt_words \<Rightarrow> kds_command \<Rightarrow> kds_command" where
  "start_ecmd op now p xcmd =
     (let xcmd = xcmd\<lparr>c_opcode := op\<rparr>;
          xcmd = (if pkt_stat_enabled (p 0) \<noteq> 0
                  then xcmd\<lparr>c_timestamp_enabled := 1, c_timestamp := (c_timestamp xcmd)(KDS_NEW := now)\<rparr> else xcmd);
          extra = hdr_extra p
      in xcmd\<lparr>c_cu_mask := map p [1..<2 + extra] @ drop (1 + extra) (c_cu_mask xcmd),
              c_num_mask := 1 + pkt_extra_cu_masks (p 0)\<rparr>)"

definition set_type :: "ert_cmd_type \<Rightarrow> pkt_words \<Rightarrow> pkt_words" where
  "set_type t p = p(0 := put_bits 28 4 (type_val t) (p 0))"

text \<open>
  The sizes are computed with 32 bits unsigned, as the number of masks is, and multiplied with
  the word size as 64 bits.
\<close>

definition start_skrnl_ecmd2xcmd :: "u64 \<Rightarrow> pkt_words \<Rightarrow> kds_command \<Rightarrow> (pkt_words \<times> kds_command) option" where
  "start_skrnl_ecmd2xcmd now p xcmd =
     (let xcmd = start_ecmd OP_START_SK now p xcmd;
          sz = ucast (pkt_count (p 0) - c_num_mask xcmd) * 4
      in map_option (\<lambda>xcmd. (set_type ERT_SCU p, xcmd)) (copy_payload p (2 + hdr_extra p) sz xcmd))"

definition start_krnl_ecmd2xcmd :: "u64 \<Rightarrow> pkt_words \<Rightarrow> kds_command \<Rightarrow> (pkt_words \<times> kds_command) option" where
  "start_krnl_ecmd2xcmd now p xcmd =
     (let xcmd = start_ecmd OP_START now p xcmd;
          sz = ucast (pkt_count (p 0) - c_num_mask xcmd - 4) * 4
      in map_option (\<lambda>xcmd. (set_type ERT_CU p, xcmd\<lparr>c_payload_type := REGMAP\<rparr>))
           (copy_payload p (2 + (4 + hdr_extra p)) sz xcmd))"

definition start_krnl_kv_ecmd2xcmd :: "u64 \<Rightarrow> pkt_words \<Rightarrow> kds_command \<Rightarrow> (pkt_words \<times> kds_command) option" where
  "start_krnl_kv_ecmd2xcmd now p xcmd =
     (let xcmd = start_ecmd OP_START now p xcmd;
          sz = ucast (pkt_count (p 0) - c_num_mask xcmd) * 4
      in map_option (\<lambda>xcmd. (set_type ERT_CU p, xcmd\<lparr>c_payload_type := KEY_VAL\<rparr>))
           (copy_payload p (2 + hdr_extra p) sz xcmd))"

definition start_fa_ecmd2xcmd :: "u64 \<Rightarrow> pkt_words \<Rightarrow> kds_command \<Rightarrow> (pkt_words \<times> kds_command) option" where
  "start_fa_ecmd2xcmd now p xcmd =
     (let xcmd = start_ecmd OP_START now p xcmd;
          sz = ucast (pkt_count (p 0) - c_num_mask xcmd) * 4
      in map_option (\<lambda>xcmd. (set_type ERT_CTRL p, xcmd)) (copy_payload p (2 + hdr_extra p) sz xcmd))"

text \<open>
  The configure packet: word 2 is the number of compute units, word 5 the features with
  \<^verbatim>\<open>kds_30\<close> as bit 8, and the addresses of the units begin at word 6.
\<close>

definition cfg_ecmd2xcmd :: "pkt_words \<Rightarrow> kds_command \<Rightarrow> (pkt_words \<times> kds_command) option" where
  "cfg_ecmd2xcmd p xcmd =
     (let p = p(5 := put_bits 8 1 1 (p 5));
          xcmd = xcmd\<lparr>c_opcode := OP_CONFIG\<rparr>;
          p = (\<lambda>k. if 6 \<le> k \<and> k < 6 + unat (p 2) then p k AND NOT 0xFF else p k)
      in map_option (\<lambda>xcmd. (p, xcmd)) (copy_payload p 6 (ucast (p 2) * 4) xcmd))"

text \<open>The handle is a 64-bit field, aligned to word 2; its low word is kept.\<close>

definition abort_ecmd2xcmd :: "pkt_words \<Rightarrow> kds_command \<Rightarrow> kds_command option" where
  "abort_ecmd2xcmd p xcmd =
     (case c_info xcmd of [] \<Rightarrow> None | w # ws \<Rightarrow> Some (xcmd\<lparr>c_opcode := OP_ABORT, c_info := p 2 # ws\<rparr>))"

section \<open>Commands for an XGQ device\<close>

definition XGQ_CMD_OP_CLOCK_CALIB :: u32 where "XGQ_CMD_OP_CLOCK_CALIB = 0x10c"
definition XGQ_CMD_OP_ACCESS_VALID :: u32 where "XGQ_CMD_OP_ACCESS_VALID = 0x10d"
definition XGQ_CMD_OP_DATA_INTEGRITY :: u32 where "XGQ_CMD_OP_DATA_INTEGRITY = 0x10e"
definition DOMAIN_PL :: u32 where "DOMAIN_PL = 0"
definition DOMAIN_PS :: u32 where "DOMAIN_PS = 1"
definition DOMAIN_VIRT :: u32 where "DOMAIN_VIRT = 0xFFFF"

definition wr_words :: "nat \<Rightarrow> u32 list \<Rightarrow> u32 list \<Rightarrow> u32 list option" where
  "wr_words k ws buf =
     (if k + length ws \<le> length buf then Some (take k buf @ ws @ drop (k + length ws) buf) else None)"

text \<open>
  The two words of the header in front of the buffer: opcode, state 1 and a count of 15 bits in
  the first, the domain in the upper four bits of the second.
\<close>

definition xgq_put_hdr :: "u32 \<Rightarrow> u32 \<Rightarrow> u32 option \<Rightarrow> u32 list \<Rightarrow> u32 list option" where
  "xgq_put_hdr op cnt domain buf =
     do {
       w0 \<leftarrow> word_at buf 0;
       w1 \<leftarrow> word_at buf 1;
       wr_words 0 [put_bits 0 16 op (put_bits 31 1 1 (put_bits 16 15 cnt w0)),
                   case domain of None \<Rightarrow> w1 | Some d \<Rightarrow> put_bits 28 4 d w1] buf
     }"

text \<open>The size of the payload is a signed number; copying a negative size is undefined.\<close>

definition xgq_start :: "u32 \<Rightarrow> u32 option \<Rightarrow> pkt_words \<Rightarrow> nat \<Rightarrow> int \<Rightarrow> u32 list \<Rightarrow> (int \<times> u32 list) option" where
  "xgq_start op domain p start payload_size buf =
     (if payload_size < 0 then None
      else do {
        buf \<leftarrow> wr_words 2 (map p [start..<start + nat (payload_size div 4)]) buf;
        buf \<leftarrow> xgq_put_hdr op (word_of_int payload_size) domain buf;
        Some (8 + payload_size, buf)
      })"

definition xgq_exec_convert_start_cu_cmd :: "pkt_words \<Rightarrow> u32 list \<Rightarrow> (int \<times> u32 list) option" where
  "xgq_exec_convert_start_cu_cmd p buf =
     (let num_mask = 1 + hdr_extra p
      in xgq_start XGQ_CMD_OP_START_CUIDX (Some DOMAIN_PL) p (2 + (4 + hdr_extra p))
           ((int (hdr_count p) - int num_mask - 4) * 4) buf)"

definition xgq_exec_convert_start_scu_cmd :: "pkt_words \<Rightarrow> u32 list \<Rightarrow> (int \<times> u32 list) option" where
  "xgq_exec_convert_start_scu_cmd p buf =
     (let num_mask = 1 + hdr_extra p
      in xgq_start XGQ_CMD_OP_START_CUIDX (Some DOMAIN_PS) p (2 + hdr_extra p)
           ((int (hdr_count p) - int num_mask) * 4) buf)"

definition xgq_exec_convert_start_kv_cu_cmd :: "pkt_words \<Rightarrow> u32 list \<Rightarrow> (int \<times> u32 list) option" where
  "xgq_exec_convert_start_kv_cu_cmd p buf =
     (let num_mask = 1 + hdr_extra p
      in xgq_start XGQ_CMD_OP_START_CUIDX_KV None p (2 + hdr_extra p)
           ((int (hdr_count p) - int num_mask) * 4) buf)"

definition xgq_exec_convert_clock_calib_cmd :: "pkt_words \<Rightarrow> u32 list \<Rightarrow> (int \<times> u32 list) option" where
  "xgq_exec_convert_clock_calib_cmd p buf =
     map_option (\<lambda>buf. (8 + int (hdr_count p) * 4, buf))
       (xgq_put_hdr XGQ_CMD_OP_CLOCK_CALIB (pkt_count (p 0) * 4) None buf)"

definition xgq_exec_convert_accessible_cmd :: "pkt_words \<Rightarrow> u32 list \<Rightarrow> (int \<times> u32 list) option" where
  "xgq_exec_convert_accessible_cmd p buf =
     map_option (\<lambda>buf. (8 + int (hdr_count p) * 4, buf))
       (xgq_put_hdr XGQ_CMD_OP_ACCESS_VALID (pkt_count (p 0) * 4) None buf)"

definition xgq_exec_convert_data_integrity_cmd :: "pkt_words \<Rightarrow> u32 list \<Rightarrow> (int \<times> u32 list) option" where
  "xgq_exec_convert_data_integrity_cmd p buf =
     map_option (\<lambda>buf. (16, buf))
       (xgq_put_hdr XGQ_CMD_OP_DATA_INTEGRITY (pkt_count (p 0) * 4) None buf)"

section \<open>Compute units from an IP layout\<close>

definition IP_KERNEL :: u32 where "IP_KERNEL = 1"
definition IP_PS_KERNEL :: u32 where "IP_PS_KERNEL = 7"

record ip_data =
  m_type :: u32
  properties :: u32
  m_base_address :: u64
  m_name :: string

fun protocol_of :: "u32 \<Rightarrow> CU_PROTOCOL" where
  "protocol_of v = (if v = 0 then CTRL_HS else if v = 1 then CTRL_CHAIN else if v = 2 then CTRL_NONE
     else if v = 3 then CTRL_ME else if v = 4 then CTRL_ACC else if v = 5 then CTRL_FA else CTRL_OTHER v)"

text \<open>
  Kernel and instance name: the name, cut to 63 characters, up to the first colon and from there
  up to the next one. Without a colon the second \<^verbatim>\<open>strsep\<close> gives a null pointer.
\<close>

definition split_name :: "string \<Rightarrow> (string \<times> string) option" where
  "split_name nm =
     (let s = take 63 nm in
      case dropWhile (\<lambda>c. c \<noteq> CHR '':'') s of
        [] \<Rightarrow> None
      | c # rest \<Rightarrow> Some (takeWhile (\<lambda>c. c \<noteq> CHR '':'') s, takeWhile (\<lambda>c. c \<noteq> CHR '':'') rest))"

definition zero_info :: xrt_cu_info where
  "zero_info = \<lparr>model = XCU_HLS, cu_idx = 0, addr = 0, regs_size = 0, protocol = CTRL_HS, intr_id = 0,
     intr_enable = False, sw_reset = False, args = [], iname = [], kname = []\<rparr>"

definition ip_to_info :: "ip_data \<Rightarrow> xrt_cu_info option" where
  "ip_to_info ip =
     map_option (\<lambda>(k, i). zero_info\<lparr>kname := k, iname := i, addr := m_base_address ip,
         intr_enable := (properties ip AND 0x1 \<noteq> 0),
         protocol := protocol_of (drop_bit 8 (properties ip AND 0xFF00)),
         intr_id := drop_bit 1 (properties ip AND 0xFE)\<rparr>)
       (split_name (m_name ip))"

text \<open>Storing an entry in the table of the caller; its index is its position.\<close>

definition put_info :: "nat \<Rightarrow> xrt_cu_info \<Rightarrow> xrt_cu_info list \<Rightarrow> xrt_cu_info list option" where
  "put_info j info tab = (if j < length tab then Some (tab[j := info\<lparr>cu_idx := word_of_nat j\<rparr>]) else None)"

text \<open>
  The insertion loop from position \<open>j\<close> down. The result tells whether the entry was added:
  an entry of the same interrupt and address ends the loop without adding it.
\<close>

fun insert_info :: "xrt_cu_info \<Rightarrow> nat \<Rightarrow> xrt_cu_info list \<Rightarrow> (bool \<times> xrt_cu_info list) option" where
  "insert_info info 0 tab = map_option (Pair True) (put_info 0 info tab)"
| "insert_info info (Suc j) tab =
     (let prev = tab ! j in
      if intr_id prev < intr_id info then map_option (Pair True) (put_info (Suc j) info tab)
      else if intr_id prev > intr_id info
      then case put_info (Suc j) prev tab of None \<Rightarrow> None | Some tab \<Rightarrow> insert_info info j tab
      else if addr prev < addr info then map_option (Pair True) (put_info (Suc j) info tab)
      else if addr prev > addr info
      then case put_info (Suc j) prev tab of None \<Rightarrow> None | Some tab \<Rightarrow> insert_info info j tab
      else Some (False, tab))"

fun layout_loop :: "ip_data list \<Rightarrow> nat \<Rightarrow> xrt_cu_info list \<Rightarrow> (nat \<times> xrt_cu_info list) option" where
  "layout_loop [] num_cus tab = Some (num_cus, tab)"
| "layout_loop (ip # ips) num_cus tab =
     (if m_type ip \<noteq> IP_KERNEL \<or> NOT (m_base_address ip) = 0 then layout_loop ips num_cus tab
      else do {
        info \<leftarrow> ip_to_info ip;
        (added, tab) \<leftarrow> insert_info info num_cus tab;
        layout_loop ips (if added then Suc num_cus else num_cus) tab
      })"

definition kds_ip_layout2cu_info :: "ip_data list \<Rightarrow> xrt_cu_info list \<Rightarrow> (nat \<times> xrt_cu_info list) option" where
  "kds_ip_layout2cu_info layout tab = layout_loop layout 0 tab"

fun kds_ip_layout2scu_info :: "ip_data list \<Rightarrow> nat \<Rightarrow> xrt_cu_info list \<Rightarrow> (nat \<times> xrt_cu_info list) option" where
  "kds_ip_layout2scu_info [] num_cus tab = Some (num_cus, tab)"
| "kds_ip_layout2scu_info (ip # ips) num_cus tab =
     (if m_type ip \<noteq> IP_PS_KERNEL then kds_ip_layout2scu_info ips num_cus tab
      else do {
        (k, i) \<leftarrow> split_name (m_name ip);
        tab \<leftarrow> put_info num_cus (zero_info\<lparr>kname := k, iname := i\<rparr>) tab;
        kds_ip_layout2scu_info ips (Suc num_cus) tab
      })"

section \<open>Masks\<close>

lemma filter_bit_step:
  fixes m :: u32
  shows "filter (bit m) [0..<32] = (if m AND 1 = 0 then [] else [0]) @ map Suc (filter (bit (drop_bit 1 m)) [0..<32])"
proof -
  have "\<not> bit m 32" using bit_imp_le_length [of m 32] by auto
  then have "filter (bit m) [0..<32] = filter (bit m) [0..<Suc 32]" unfolding upt_Suc by simp
  also have "\<dots> = filter (bit m) (0 # map Suc [0..<32])" by (simp only: map_Suc_upt upt_conv_Cons [of 0 "Suc 32"] zero_less_Suc)
  also have "\<dots> = (if m AND 1 = 0 then [] else [0]) @ map Suc (filter (bit (drop_bit 1 m)) [0..<32])"
    by (simp only: filter.simps filter_map comp_def bit_drop_bit_eq)
      (simp add: and_one_eq bit_0 even_iff_mod_2_eq_zero)
  finally show ?thesis .
qed

lemma mask_bits_spec: "mask_bits i j m = map (\<lambda>k. i * 32 + (j + k)) (filter (bit m) [0..<32])"
proof (induction i j m rule: mask_bits.induct)
  case (1 i j m)
  have r: "mask_bits i j m = (if m AND 1 = 0 then [] else [i * 32 + j]) @ mask_bits i (Suc j) (drop_bit 1 m)"
    if "m \<noteq> 0" using that by (simp add: mask_bits.simps [of i j m])
  have "mask_bits i (Suc j) (drop_bit 1 m) = map (\<lambda>k. i * 32 + (Suc j + k)) (filter (bit (drop_bit 1 m)) [0..<32])"
    if "m \<noteq> 0" using that 1 by (cases "m AND 1 = 0") auto
  with r show ?case
    by (cases "m = 0") (simp_all add: mask_bits.simps [of i j 0] filter_bit_step [of m] comp_def)
qed

lemma mask_list_spec:
  "mask_list masks i n = (if n = 0 \<or> i + n \<le> length masks
     then Some (filter (\<lambda>k. bit (masks ! (k div 32)) (k mod 32)) [32 * i..<32 * (i + n)]) else None)"
proof (induction n arbitrary: i)
  case (Suc n)
  let ?P = "\<lambda>k. bit (masks ! (k div 32)) (k mod 32)"
  have "[32 * i..<32 * (i + Suc n)] = [32 * i..<32 * i + 32] @ [32 * Suc i..<32 * (Suc i + n)]"
    using upt_add_eq_append [of "32 * i" "32 * i + 32" "32 * n"] by (simp add: algebra_simps)
  moreover have "filter ?P [32 * i..<32 * i + 32] = mask_bits i 0 (masks ! i)"
  proof -
    have "[32 * i..<32 * i + 32] = map (\<lambda>k. i * 32 + k) [0..<32]"
      using map_add_upt [of "32 * i" 32] by (simp add: algebra_simps)
    moreover have "filter ?P (map (\<lambda>k. i * 32 + k) [0..<32]) = map (\<lambda>k. i * 32 + k) (filter (bit (masks ! i)) [0..<32])"
      unfolding filter_map comp_def by (intro arg_cong [of _ _ "map _"] filter_cong) auto
    ultimately show ?thesis by (simp add: mask_bits_spec)
  qed
  moreover have "(if m = 0 then [] else mask_bits i 0 m) = mask_bits i 0 m" for m
    by (simp add: mask_bits.simps)
  ultimately show ?case using Suc [of "Suc i"] by (auto simp: word_at_def)
qed simp

text \<open>
  A mask of compute units selects the units whose bits are set, in ascending order and each
  once. Nothing is read behind the four mask words of a command.
\<close>

theorem cu_mask_indices:
  assumes "unat (c_num_mask xcmd) \<le> length (c_cu_mask xcmd)"
  shows "cu_mask_to_cu_idx xcmd = Some (filter (\<lambda>k. bit (c_cu_mask xcmd ! (k div 32)) (k mod 32))
    [0..<32 * unat (c_num_mask xcmd)])"
  using assms by (simp add: cu_mask_to_cu_idx_def mask_list_spec)

theorem cu_mask_indices_witness:
  "cu_mask_to_cu_idx ((kds_alloc_command 0 0)\<lparr>c_cu_mask := [6, 1, 0, 0], c_num_mask := 2\<rparr>) = Some [1, 2, 32] \<and>
   filter (\<lambda>k. bit ([6, 1, 0, 0] ! (k div 32) :: u32) (k mod 32)) [0..<64] = [1, 2, 32]"
proof -
  have "filter (\<lambda>k. bit ([6, 1, 0, 0] ! (k div 32) :: u32) (k mod 32)) [0..<64] = [1, 2, 32]" by code_simp
  then show ?thesis using cu_mask_indices [of "(kds_alloc_command 0 0)\<lparr>c_cu_mask := [6, 1, 0, 0], c_num_mask := 2\<rparr>"] by simp
qed

section \<open>Packets\<close>

lemma payload_size:
  assumes "k + hdr_extra p + 1 \<le> hdr_count p" and "k < 2 ^ 32"
  shows "unat (ucast (pkt_count (p 0) - (1 + pkt_extra_cu_masks (p 0)) - word_of_nat k) * 4 :: u64) =
    4 * (hdr_count p - hdr_extra p - 1 - k)"
proof -
  have c: "hdr_count p < 2048" and e: "hdr_extra p < 4" by (rule hdr_count_less hdr_extra_less)+
  have "unat (1 + pkt_extra_cu_masks (p 0)) = 1 + hdr_extra p" using e by (intro trans [OF unat_add_small]) simp_all
  then have "unat (pkt_count (p 0) - (1 + pkt_extra_cu_masks (p 0)) - word_of_nat k) = hdr_count p - hdr_extra p - 1 - k"
    using assms by (simp add: unat_sub word_le_nat_alt unat_of_nat_small)
  then show ?thesis using c by (intro trans [OF unat_mult_small]) (simp_all add: unat_ucast_up)
qed

lemma copy_payload_spec:
  assumes "unat sz = 4 * n" and "n \<le> length (c_info xcmd)" and "length (c_info xcmd) < 2 ^ 32"
  shows "copy_payload p start sz xcmd =
    Some (xcmd\<lparr>c_info := map p [start..<start + n] @ drop n (c_info xcmd), c_isize := sz\<rparr>)"
proof -
  have "unat (4 * word_of_nat (length (c_info xcmd)) :: u64) = 4 * length (c_info xcmd)"
    using assms(3) by (intro trans [OF unat_mult_small]) (simp_all add: unat_of_nat_small)
  moreover have "unat (sz div 4) = n" using assms(1) by (simp add: unat_div)
  ultimately show ?thesis using assms(1,2) by (simp add: copy_payload_def word_le_nat_alt Let_def)
qed

lemma alloc_info_length: "length (c_info (kds_alloc_command client (4 * pkt_count (p 0)))) = hdr_count p"
proof -
  have "unat (4 * pkt_count (p 0)) = 4 * hdr_count p"
    using hdr_count_less [of p] by (intro trans [OF unat_mult_small]) simp_all
  then show ?thesis by (simp add: kds_alloc_command_def unat_div)
qed

lemma start_ecmd_info [simp]:
  "c_info (start_ecmd op now p xcmd) = c_info xcmd" "c_opcode (start_ecmd op now p xcmd) = op"
  "c_num_mask (start_ecmd op now p xcmd) = 1 + pkt_extra_cu_masks (p 0)"
  "c_cu_mask (start_ecmd op now p xcmd) = map p [1..<2 + hdr_extra p] @ drop (1 + hdr_extra p) (c_cu_mask xcmd)"
  by (simp_all add: start_ecmd_def Let_def)

lemma packet_cus:
  assumes "c_num_mask xcmd = 1 + pkt_extra_cu_masks (p 0)" and "c_cu_mask xcmd = map p [1..<2 + hdr_extra p] @ ms"
  shows "cu_mask_to_cu_idx xcmd = Some (filter (\<lambda>k. bit (p (1 + k div 32)) (k mod 32)) [0..<32 * (1 + hdr_extra p)])"
proof -
  have n: "unat (c_num_mask xcmd) = 1 + hdr_extra p"
    unfolding assms(1) using hdr_extra_less [of p] by (intro trans [OF unat_add_small]) simp_all
  have "c_cu_mask xcmd ! q = p (1 + q)" if "q < 1 + hdr_extra p" for q
    using that by (simp add: assms(2) nth_append del: upt_Suc)
  moreover have "k div 32 < 1 + hdr_extra p" if "k < 32 * (1 + hdr_extra p)" for k using that by (simp add: div_less_iff_less_mult)
  ultimately have "filter (\<lambda>k. bit (c_cu_mask xcmd ! (k div 32)) (k mod 32)) [0..<32 * (1 + hdr_extra p)] =
    filter (\<lambda>k. bit (p (1 + k div 32)) (k mod 32)) [0..<32 * (1 + hdr_extra p)]"
    by (intro filter_cong) auto
  moreover have "length (map p [1..<2 + hdr_extra p]) = 1 + hdr_extra p" by simp
  ultimately show ?thesis
    unfolding cu_mask_to_cu_idx_def mask_list_spec n by (simp add: assms(2))
qed

lemma start_krnl_converts:
  assumes "ert_valid_opcode p" and "hdr_opcode p = opcode_val ERT_START_CU"
    and "n = hdr_count p - hdr_extra p - 5"
  obtains xcmd where "start_krnl_ecmd2xcmd now p (kds_alloc_command client (4 * pkt_count (p 0))) = Some (set_type ERT_CU p, xcmd)"
    "take n (c_info xcmd) = map p [get_ert_regmap_begin p + 4..<get_ert_regmap_end p]" "unat (c_isize xcmd) = 4 * n"
    "cu_mask_to_cu_idx xcmd = Some (filter (\<lambda>k. bit (p (1 + k div 32)) (k mod 32)) [0..<32 * (1 + hdr_extra p)])"
    "hls_payload_ok False xcmd" "c_payload_type xcmd = REGMAP"
proof -
  let ?x = "start_ecmd OP_START now p (kds_alloc_command client (4 * pkt_count (p 0)))"
  define sz :: u64 where "sz = ucast (pkt_count (p 0) - (1 + pkt_extra_cu_masks (p 0)) - 4) * 4"
  have c: "hdr_extra p + 5 \<le> hdr_count p" using assms(1,2) by (simp add: ert_valid_opcode_def Let_def)
  then have sz: "unat sz = 4 * n" using payload_size [of 4 p] assms(3) by (simp add: sz_def)
  have l: "length (c_info ?x) = hdr_count p" by (simp add: alloc_info_length)
  define y where "y = ?x\<lparr>c_info := map p [6 + hdr_extra p..<6 + hdr_extra p + n] @ drop n (c_info ?x), c_isize := sz, c_payload_type := REGMAP\<rparr>"
  have "copy_payload p (2 + (4 + hdr_extra p)) sz ?x =
      Some (?x\<lparr>c_info := map p [6 + hdr_extra p..<6 + hdr_extra p + n] @ drop n (c_info ?x), c_isize := sz\<rparr>)"
    using copy_payload_spec [OF sz, of ?x p "6 + hdr_extra p"] l c assms(3) hdr_count_less [of p] by simp
  then have r: "start_krnl_ecmd2xcmd now p (kds_alloc_command client (4 * pkt_count (p 0))) = Some (set_type ERT_CU p, y)"
    by (simp add: start_krnl_ecmd2xcmd_def Let_def sz_def y_def)
  have e: "get_ert_regmap_begin p + 4 = 6 + hdr_extra p" "get_ert_regmap_end p = 6 + hdr_extra p + n"
    using assms(2,3) c by (simp_all add: get_ert_regmap_begin_def get_ert_regmap_end_def)
  have ok: "hls_payload_ok False y"
    using sz hdr_count_less [of p] assms(3) by (simp add: y_def hls_payload_ok_def unat_div REGMAP_def KEY_VAL_def XGQ_CMD_def)
  have cus: "cu_mask_to_cu_idx y = Some (filter (\<lambda>k. bit (p (1 + k div 32)) (k mod 32)) [0..<32 * (1 + hdr_extra p)])"
    by (rule packet_cus) (simp_all add: y_def)
  show thesis by (rule that [OF r _ _ cus ok]) (simp_all add: y_def e sz)
qed

text \<open>
  C19: A valid start packet becomes a command whose payload is the register map of the packet
  without its four control registers, for the compute units of the packet's masks. The payload
  buffer that was allocated for the packet is large enough, and the command is one that a compute
  unit can be configured with.
\<close>

theorem start_packet_converted:
  assumes "ert_valid_opcode p" and "hdr_opcode p = opcode_val ERT_START_CU"
    and "n = hdr_count p - hdr_extra p - 5"
  shows "\<exists>xcmd. start_krnl_ecmd2xcmd now p (kds_alloc_command client (4 * pkt_count (p 0))) = Some (set_type ERT_CU p, xcmd) \<and>
    take n (c_info xcmd) = map p [get_ert_regmap_begin p + 4..<get_ert_regmap_end p] \<and> unat (c_isize xcmd) = 4 * n \<and>
    cu_mask_to_cu_idx xcmd = Some (filter (\<lambda>k. bit (p (1 + k div 32)) (k mod 32)) [0..<32 * (1 + hdr_extra p)]) \<and>
    hls_payload_ok False xcmd"
  by (rule start_krnl_converts [OF assms, of now client]) blast

theorem start_packet_converted_witness:
  "\<exists>xcmd. start_krnl_ecmd2xcmd 0 (\<lambda>_. 0x7001) (kds_alloc_command 1 (4 * pkt_count 0x7001)) =
       Some (set_type ERT_CU (\<lambda>_. 0x7001), xcmd) \<and>
     take 2 (c_info xcmd) = [0x7001, 0x7001] \<and> unat (c_isize xcmd) = 8 \<and> hls_payload_ok False xcmd"
proof -
  have v: "ert_valid_opcode (\<lambda>_. 0x7001)" "pkt_opcode 0x7001 = opcode_val ERT_START_CU" by code_simp+
  have f: "unat (pkt_count 0x7001) = 7" "unat (pkt_extra_cu_masks 0x7001) = 0" by code_simp+
  have "get_ert_regmap_begin (\<lambda>_. 0x7001) + 4 = 6" "get_ert_regmap_end (\<lambda>_. 0x7001) = 8" by code_simp+
  then have "map (\<lambda>_. 0x7001 :: u32) [get_ert_regmap_begin (\<lambda>_. 0x7001) + 4..<get_ert_regmap_end (\<lambda>_. 0x7001)] = [0x7001, 0x7001]"
    by (simp add: upt_rec)
  with start_packet_converted [of "\<lambda>_. 0x7001" 2 0 1] v f show ?thesis by auto
qed


lemma xgq_start_None:
  assumes "0 \<le> k"
  shows "xgq_start op d p start (k * 4) buf = None \<longleftrightarrow> int (length buf) < 2 + k"
proof -
  have "xgq_put_hdr op c d ws = None \<longleftrightarrow> length ws < 2" for c ws
    by (auto simp: xgq_put_hdr_def word_at_def wr_words_def)
  then show ?thesis using assms by (auto simp: xgq_start_def wr_words_def bind_eq_None_conv)
qed



section \<open>IP layouts\<close>

definition cu_key :: "xrt_cu_info \<Rightarrow> u32 \<times> u64" where
  "cu_key info = (intr_id info, addr info)"

text \<open>Entries numbered by their positions.\<close>

fun number_from :: "nat \<Rightarrow> xrt_cu_info list \<Rightarrow> xrt_cu_info list" where
  "number_from k [] = []"
| "number_from k (i # is) = i\<lparr>cu_idx := word_of_nat k\<rparr> # number_from (Suc k) is"

lemma cu_key_upd [simp]: "cu_key (info\<lparr>cu_idx := v\<rparr>) = cu_key info"
  by (simp add: cu_key_def)

lemma number_from_simps [simp]:
  "length (number_from k xs) = length xs" "map cu_key (number_from k xs) = map cu_key xs"
  "number_from k (xs @ ys) = number_from k xs @ number_from (k + length xs) ys"
  "number_from k (number_from j xs) = number_from k xs"
  by (induction xs arbitrary: k j) auto

lemma number_insort [simp]: "number_from k (insort_key cu_key x (number_from j xs)) = number_from k (insort_key cu_key x xs)"
  by (induction xs arbitrary: k j) auto

lemma insort_below: "\<forall>y \<in> set xs. cu_key y < cu_key x \<Longrightarrow> insort_key cu_key x xs = xs @ [x]"
  by (induction xs) auto

lemma insort_snoc: "cu_key x < cu_key y \<Longrightarrow> insort_key cu_key x (xs @ [y]) = insort_key cu_key x xs @ [y]"
  by (induction xs) auto

lemma insert_info_step:
  "insert_info info (Suc j) tab =
     (if cu_key (tab ! j) < cu_key info then map_option (Pair True) (put_info (Suc j) info tab)
      else if cu_key info < cu_key (tab ! j)
      then case put_info (Suc j) (tab ! j) tab of None \<Rightarrow> None | Some tab \<Rightarrow> insert_info info j tab
      else Some (False, tab))"
  by (auto simp: cu_key_def Let_def)

lemma insert_info_sorts:
  assumes "n < length tab" and "sorted (map cu_key (take n tab))" and "cu_key info \<notin> cu_key ` set (take n tab)"
    and "number_from 0 (take n tab) = take n tab"
  shows "\<exists>tab'. insert_info info n tab = Some (True, tab') \<and> length tab' = length tab \<and>
    take (Suc n) tab' = number_from 0 (insort_key cu_key info (take n tab)) \<and> drop (Suc n) tab' = drop (Suc n) tab"
  using assms
proof (induction n arbitrary: tab)
  case 0
  then show ?case by (cases tab) (auto simp: put_info_def)
next
  case (Suc j)
  have t: "take (Suc j) tab = take j tab @ [tab ! j]" using Suc.prems(1) by (simp add: take_Suc_conv_app_nth)
  have s: "sorted (map cu_key (take j tab))" "\<forall>y \<in> set (take j tab). cu_key y \<le> cu_key (tab ! j)"
    using Suc.prems(2) by (auto simp: t sorted_append)
  have nm: "number_from 0 (take j tab) = take j tab" "cu_idx (tab ! j) = word_of_nat j"
    using Suc.prems(1,4) by (auto simp: t dest: arg_cong [of _ _ cu_idx])
  have ne: "cu_key (tab ! j) \<noteq> cu_key info" "cu_key info \<notin> cu_key ` set (take j tab)"
    using Suc.prems(3) by (auto simp: t)
  show ?case
  proof (cases "cu_key (tab ! j) < cu_key info")
    case True
    then have "\<forall>y \<in> set (take (Suc j) tab). cu_key y < cu_key info" using s(2) by (auto simp: t)
    then have "insort_key cu_key info (take (Suc j) tab) = take (Suc j) tab @ [info]" by (rule insort_below)
    moreover have "take (Suc (Suc j)) (tab[Suc j := v]) = take (Suc j) tab @ [v]" for v
      using Suc.prems(1) by (simp add: take_Suc_conv_app_nth)
    ultimately show ?thesis using True Suc.prems(1,4) by (simp add: insert_info_step put_info_def del: insert_info.simps)
  next
    case False
    then have lt: "cu_key info < cu_key (tab ! j)" using ne(1) by (simp add: not_less_iff_gr_or_eq)
    let ?t = "tab[Suc j := (tab ! j)\<lparr>cu_idx := word_of_nat (Suc j)\<rparr>]"
    have tj: "take j ?t = take j tab" by simp
    obtain tab' where r: "insert_info info j ?t = Some (True, tab')" "length tab' = length tab"
      "take (Suc j) tab' = number_from 0 (insort_key cu_key info (take j tab))" "drop (Suc j) tab' = drop (Suc j) ?t"
      using Suc.IH [of ?t] Suc.prems(1) s(1) ne(2) nm(1) unfolding tj by auto
    have "drop (Suc j) tab' = (tab ! j)\<lparr>cu_idx := word_of_nat (Suc j)\<rparr> # drop (Suc (Suc j)) tab"
      using r(4) Suc.prems(1) by (simp add: Cons_nth_drop_Suc [symmetric] drop_update_cancel)
    then have "take (Suc (Suc j)) tab' = take (Suc j) tab' @ [(tab ! j)\<lparr>cu_idx := word_of_nat (Suc j)\<rparr>]"
      and "drop (Suc (Suc j)) tab' = drop (Suc (Suc j)) tab"
      using take_add [of "Suc j" 1 tab'] drop_drop [of 1 "Suc j" tab'] by simp_all
    moreover have "insert_info info (Suc j) tab = Some (True, tab')"
      using r(1) lt False Suc.prems(1) by (simp add: insert_info_step put_info_def del: insert_info.simps)
    moreover have "insort_key cu_key info (take (Suc j) tab) = insort_key cu_key info (take j tab) @ [tab ! j]"
      unfolding t by (rule insort_snoc [OF lt])
    ultimately show ?thesis using r(2,3) Suc.prems(1) by simp
  qed
qed

definition kernel_ips :: "ip_data list \<Rightarrow> ip_data list" where
  "kernel_ips = filter (\<lambda>ip. m_type ip = IP_KERNEL \<and> NOT (m_base_address ip) \<noteq> 0)"

lemma sort_snoc:
  assumes "distinct (map cu_key (xs @ [x]))"
  shows "sort_key cu_key (xs @ [x]) = insort_key cu_key x (sort_key cu_key xs)"
proof (rule sort_key_inj_key_eq)
  show "inj_on cu_key (set (xs @ [x]))" using assms by (simp only: distinct_map)
qed (simp_all add: sorted_insort_key)

lemma layout_loop_sorts:
  assumes "map ip_to_info (kernel_ips layout) = map Some infos" and "distinct (map cu_key (old @ infos))"
    and "length (old @ infos) \<le> length tab" and "take (length old) tab = number_from 0 (sort_key cu_key old)"
  shows "\<exists>tab'. layout_loop layout (length old) tab = Some (length (old @ infos), tab') \<and>
    take (length (old @ infos)) tab' = number_from 0 (sort_key cu_key (old @ infos))"
  using assms
proof (induction layout arbitrary: infos old tab)
  case Nil
  then show ?case by (simp add: kernel_ips_def)
next
  case (Cons ip ips)
  show ?case
  proof (cases "m_type ip = IP_KERNEL \<and> NOT (m_base_address ip) \<noteq> 0")
    case False
    then have "layout_loop (ip # ips) n t = layout_loop ips n t" for n t by auto
    moreover have "kernel_ips (ip # ips) = kernel_ips ips" using False by (simp add: kernel_ips_def)
    ultimately show ?thesis using Cons.IH [of infos old tab] Cons.prems by presburger
  next
    case True
    then obtain info infos' where i: "infos = info # infos'" "ip_to_info ip = Some info"
      "map ip_to_info (kernel_ips ips) = map Some infos'"
      using Cons.prems(1) by (cases infos) (auto simp: kernel_ips_def)
    have d: "distinct (map cu_key (old @ [info]))" using Cons.prems(2) i(1) by auto
    let ?t = "take (length old) tab"
    have k: "map cu_key ?t = map cu_key (sort_key cu_key old)" using Cons.prems(4) by simp
    then have "cu_key ` set ?t = cu_key ` set old" by (metis list.set_map set_sort)
    then have "cu_key info \<notin> cu_key ` set ?t" using d by auto
    moreover have "sorted (map cu_key ?t)" unfolding k by simp
    ultimately obtain tab' where r: "insert_info info (length old) tab = Some (True, tab')" "length tab' = length tab"
      "take (Suc (length old)) tab' = number_from 0 (insort_key cu_key info ?t)"
      using insert_info_sorts [of "length old" tab info] Cons.prems(3,4) i(1) by auto
    have "take (length (old @ [info])) tab' = number_from 0 (sort_key cu_key (old @ [info]))"
      using r(3) Cons.prems(4) by (simp add: sort_snoc [OF d])
    from Cons.IH [OF i(3) _ _ this] Cons.prems(2,3) i(1,2) r(1,2) True show ?thesis by auto
  qed
qed

text \<open>
  C20: The table of compute units that is built from an IP layout in which no two kernels have the
  same interrupt and address holds exactly the kernels of the layout, sorted by interrupt and then
  by address, and each entry carries its position as index.
\<close>

theorem layout_sorted:
  assumes "map ip_to_info (kernel_ips layout) = map Some infos" and "distinct (map cu_key infos)"
    and "length infos \<le> length tab"
  shows "\<exists>tab'. kds_ip_layout2cu_info layout tab = Some (length infos, tab') \<and>
    take (length infos) tab' = number_from 0 (sort_key cu_key infos)"
  using layout_loop_sorts [OF assms(1), of "[]" tab] assms(2,3) by (simp add: kds_ip_layout2cu_info_def)

theorem layout_sorted_witness:
  "\<exists>infos tab. kds_ip_layout2cu_info
       [\<lparr>m_type = 1, properties = 0, m_base_address = 9, m_name = ''k:b''\<rparr>,
        \<lparr>m_type = 0, properties = 0, m_base_address = 3, m_name = ''mb''\<rparr>,
        \<lparr>m_type = 1, properties = 0, m_base_address = 5, m_name = ''k:a''\<rparr>] (replicate 4 zero_info) = Some (2, tab) \<and>
     take 2 tab = number_from 0 (sort_key cu_key infos) \<and> map iname (take 2 tab) = [''a'', ''b'']"
proof -
  let ?l = "[\<lparr>m_type = 1, properties = 0, m_base_address = 9, m_name = ''k:b''\<rparr>,
    \<lparr>m_type = 0, properties = 0, m_base_address = 3, m_name = ''mb''\<rparr>,
    \<lparr>m_type = 1, properties = 0, m_base_address = 5, m_name = ''k:a''\<rparr>]"
  let ?i = "[zero_info\<lparr>kname := ''k'', iname := ''b'', addr := 9\<rparr>, zero_info\<lparr>kname := ''k'', iname := ''a'', addr := 5\<rparr>]"
  have "map ip_to_info (kernel_ips ?l) = map Some ?i"
    by (simp add: kernel_ips_def IP_KERNEL_def ip_to_info_def split_name_def zero_info_def)
  moreover have "distinct (map cu_key ?i)" by (simp add: cu_key_def)
  moreover have "length ?i \<le> length (replicate 4 zero_info)" by simp
  ultimately obtain tab where "kds_ip_layout2cu_info ?l (replicate 4 zero_info) = Some (length ?i, tab)"
    "take (length ?i) tab = number_from 0 (sort_key cu_key ?i)" using layout_sorted by blast
  moreover have "length ?i = 2" by simp
  ultimately have t: "kds_ip_layout2cu_info ?l (replicate 4 zero_info) = Some (2, tab)"
    "take 2 tab = number_from 0 (sort_key cu_key ?i)" by (simp_all only:)
  have "map iname (number_from 0 (sort_key cu_key ?i)) = [''a'', ''b'']" by (simp add: cu_key_def)
  with t show ?thesis by (metis (no_types))
qed

lemma insert_info_duplicate:
  assumes "p < n" and "n < length tab" and "cu_key info = cu_key (tab ! p)"
    and "\<forall>k. p < k \<and> k < n \<longrightarrow> cu_key info < cu_key (tab ! k)"
  shows "\<exists>tab'. insert_info info n tab = Some (False, tab') \<and> length tab' = length tab \<and>
    (\<forall>k < length tab. cu_key (tab' ! k) = cu_key (tab ! (if p + 1 < k \<and> k \<le> n then k - 1 else k)))"
  using assms
proof (induction n arbitrary: tab)
  case (Suc j)
  show ?case
  proof (cases "j = p")
    case True
    then have "insert_info info (Suc j) tab = Some (False, tab)"
      using Suc.prems(3) by (simp add: insert_info_step del: insert_info.simps)
    then show ?thesis using True by auto
  next
    case False
    let ?t = "tab[Suc j := (tab ! j)\<lparr>cu_idx := word_of_nat (Suc j)\<rparr>]"
    have "cu_key info < cu_key (tab ! j)" "p < j" using Suc.prems(1,4) False by auto
    then have e: "insert_info info (Suc j) tab = insert_info info j ?t"
      using Suc.prems(2) by (subst insert_info_step) (auto simp: put_info_def)
    from \<open>p < j\<close> Suc.prems Suc.IH [of ?t] obtain tab' where r: "insert_info info j ?t = Some (False, tab')"
      "length tab' = length tab"
      "\<forall>k < length tab. cu_key (tab' ! k) = cu_key (?t ! (if p + 1 < k \<and> k \<le> j then k - 1 else k))" by auto
    have "cu_key (tab' ! k) = cu_key (tab ! (if p + 1 < k \<and> k \<le> Suc j then k - 1 else k))" if "k < length tab" for k
      using that r(3) \<open>p < j\<close> Suc.prems(2) by (cases "k = Suc j") (auto simp: nth_list_update)
    with e r(1,2) show ?thesis by auto
  qed
qed simp



end
