(* ===== verification/Driver_Firmware.thy ===== *)
theory Driver_Firmware
  imports Ert_Correct Kds_Convert
begin

text \<open>
  The driver and the embedded firmware are two ways to run a start packet: either the driver
  converts it to a command and writes the registers of the compute unit itself, or the firmware
  reads it from the command queue and copies its register map. Both leave the same arguments in the
  unit.
\<close>

unbundle bit_operations_syntax

lemma times4_inj:
  assumes "4 * word_of_nat i = (4 * word_of_nat j :: u32)" and "i < 2 ^ 30" and "j < 2 ^ 30"
  shows "i = j"
proof -
  have "unat (4 * word_of_nat k :: u32) = 4 * k" if "k < 2 ^ 30" for k
    using that by (intro trans [OF unat_mult_small]) (simp_all add: unat_of_nat_small)
  then show ?thesis using assms by (metis mult_left_cancel zero_neq_numeral)
qed

lemma configure_cu_args:
  assumes B: "flat_bus B peek" and n: "n \<le> 0x40000000" and apart: "\<forall>k < n. \<forall>j < n. ca + push_bit 2 k \<noteq> ra + push_bit 2 j"
    and k: "4 \<le> k" "k < unat n"
  shows "peek (bus (configure_cu B ca ra n s)) (ca + 4 * word_of_nat k) = peek (bus s) (ra + 4 * word_of_nat k)"
proof -
  have f: "(\<lambda>idx s. case read_reg B (ra + push_bit 2 idx) s of
      (v, s) \<Rightarrow> write_reg B (ca + push_bit 2 idx) v s) = copy_word B ca ra"
    by (intro ext) (simp only: copy_word_def)
  have p: "push_bit 2 (word_of_nat k :: u32) = 4 * word_of_nat k" by (simp add: push_bit_eq_mult)
  have l: "k < 2 ^ 30" using k(2) n by (simp add: word_le_nat_alt)
  then have u: "unat (word_of_nat k :: u32) = k" by (simp add: unat_of_nat_small)
  have "4 * word_of_nat k \<noteq> (0 :: u32)" using times4_inj [of k 0] l k(1) by auto
  moreover have "word_of_nat k \<in> set (upto_u32 4 n)" using k by (simp add: word_le_nat_alt word_less_nat_alt u)
  then have "ca + 4 * word_of_nat k \<in> (\<lambda>k. ca + push_bit 2 k) ` set (upto_u32 4 n)" unfolding p [symmetric] by (rule imageI)
  ultimately show ?thesis
    unfolding configure_cu_def f flat_bus_simps(2) [OF B] by (simp add: copy_loop [OF B n _ _ apart] add.commute)
qed

text \<open>The registers of a compute unit as plain memory cells after the driver's writes.\<close>

lemma args_register: "HLS_ARGS + word_of_nat k * 4 = 4 * word_of_nat (k + 4)"
  by (simp add: HLS_ARGS_def)

lemma fold_write_other:
  assumes "io_write io = (\<lambda>r v d. d(r := v))" and "\<And>k. k < n \<Longrightarrow> r \<noteq> 4 * word_of_nat (k + 4)"
  shows "fold (\<lambda>k. io_write io (4 * word_of_nat (k + 4)) (f k)) [0..<n] d r = d r"
  using assms(2) by (induction n) (simp_all add: assms(1))

lemma fold_write_at:
  assumes io: "io_write io = (\<lambda>r v d. d(r := v))" and "k < n" and "n < 2 ^ 29"
  shows "fold (\<lambda>k. io_write io (4 * word_of_nat (k + 4)) (f k)) [0..<n] d (4 * word_of_nat (k + 4)) = f k"
  using assms(2,3)
proof (induction n)
  case (Suc n)
  show ?case
  proof (cases "k = n")
    case True
    then show ?thesis by (simp add: io)
  next
    case False
    have "k + 4 < 2 ^ 30" "n + 4 < 2 ^ 30" using Suc.prems by simp_all
    with False have "4 * word_of_nat (k + 4) \<noteq> (4 * word_of_nat (n + 4) :: u32)" using times4_inj [of "k + 4" "n + 4"] by linarith
    then show ?thesis using Suc False by (simp add: io)
  qed
qed simp

text \<open>
  C4: Driver and firmware start a compute unit alike. Take any start packet the driver
  accepts, stored at an address of the firmware's bus: the driver's conversion and configuration
  of an HLS unit whose registers are plain cells succeed; then every argument register of the unit
  holds what the firmware's \<open>configure_cu\<close> leaves in the same register of a unit on its bus, and
  the driver has changed no other register.
\<close>

theorem driver_matches_firmware:
  assumes valid: "ert_valid_opcode p" "hdr_opcode p = opcode_val ERT_START_CU" and io: "io_write io = (\<lambda>r v d. d(r := v))"
    and B: "flat_bus B peek" and pkt: "\<forall>i \<le> hdr_count p. peek (bus s) (a + 4 * word_of_nat i) = p i"
    and apart: "\<forall>k < regmap_size (p 0). \<forall>j < regmap_size (p 0). ca + push_bit 2 k \<noteq> regmap_section_addr (p 0) a + push_bit 2 j"
  shows "\<exists>q xcmd c'. start_krnl_ecmd2xcmd now p (kds_alloc_command client (4 * pkt_count (p 0))) = Some (q, xcmd) \<and>
    cu_hls_configure io False (c_info xcmd) (c_isize xcmd) (c_payload_type xcmd) c = Some (0, c') \<and>
    (\<forall>k. 4 \<le> k \<and> k < get_ert_regmap_end p - get_ert_regmap_begin p \<longrightarrow> hls_vaddr c' (4 * word_of_nat k) =
       peek (bus (configure_cu B ca (regmap_section_addr (p 0) a) (regmap_size (p 0)) s)) (ca + 4 * word_of_nat k)) \<and>
    (\<forall>r. (\<forall>k. 4 \<le> k \<and> k < get_ert_regmap_end p - get_ert_regmap_begin p \<longrightarrow> r \<noteq> 4 * word_of_nat k) \<longrightarrow> hls_vaddr c' r = hls_vaddr c r)"
proof -
  define n where "n = hdr_count p - hdr_extra p - 5"
  have ct: "hdr_extra p + 5 \<le> hdr_count p" "hdr_count p < 2048"
    using valid hdr_count_less [of p] by (simp_all add: ert_valid_opcode_def Let_def)
  obtain xcmd where x: "start_krnl_ecmd2xcmd now p (kds_alloc_command client (4 * pkt_count (p 0))) = Some (set_type ERT_CU p, xcmd)"
    "take n (c_info xcmd) = map p [get_ert_regmap_begin p + 4..<get_ert_regmap_end p]" "unat (c_isize xcmd) = 4 * n" "c_payload_type xcmd = REGMAP"
    by (rule start_krnl_converts [OF valid n_def, of now client])
  have be: "get_ert_regmap_begin p = 2 + hdr_extra p" "get_ert_regmap_end p - get_ert_regmap_begin p = n + 4"
      "get_ert_regmap_end p = get_ert_regmap_begin p + 4 + n"
    using valid(2) ct by (simp_all add: get_ert_regmap_begin_def get_ert_regmap_end_def n_def)
  have len: "n \<le> length (c_info xcmd)" using arg_cong [OF x(2), of length] be by simp
  have info: "c_info xcmd ! k = p (get_ert_regmap_begin p + 4 + k)" if "k < n" for k
    using arg_cong [OF x(2), of "\<lambda>l. l ! k"] that be by simp
  let ?f = "\<lambda>k. c_info xcmd ! k"
  define c' where "c' = c\<lparr>hls_vaddr := fold (\<lambda>k. io_write io (4 * word_of_nat (k + 4)) (?f k)) [0..<n] (hls_vaddr c)\<rparr>"
  have u: "unat (c_isize xcmd div 4) = n" by (simp add: unat_div x(3))
  have conf: "cu_hls_configure io False (c_info xcmd) (c_isize xcmd) (c_payload_type xcmd) c = Some (0, c')"
    using write_regmap_spec [of "c_isize xcmd div 4" "c_info xcmd" 0 io c] len ct(2)
    by (simp add: u cu_hls_configure_def x(4) c'_def args_register n_def Let_def)
  have sz: "unat (regmap_size (p 0)) = n + 4" using unat_regmap_size [of p] ct by (simp add: n_def)
  have "hls_vaddr c' (4 * word_of_nat k) =
      peek (bus (configure_cu B ca (regmap_section_addr (p 0) a) (regmap_size (p 0)) s)) (ca + 4 * word_of_nat k)"
    if k: "4 \<le> k" "k < n + 4" for k
  proof -
    have le: "get_ert_regmap_begin p + k \<le> hdr_count p" using k be(1) ct(1) by (simp add: n_def)
    have "hls_vaddr c' (4 * word_of_nat k) = p (get_ert_regmap_begin p + k)"
      using fold_write_at [OF io, of "k - 4" n ?f "hls_vaddr c"] info [of "k - 4"] k ct by (simp add: c'_def n_def)
    also have "\<dots> = peek (bus s) (a + 4 * word_of_nat (get_ert_regmap_begin p + k))"
      using pkt [rule_format, of "get_ert_regmap_begin p + k"] le by simp
    also have "a + 4 * word_of_nat (get_ert_regmap_begin p + k) = regmap_section_addr (p 0) a + 4 * word_of_nat k"
      by (simp add: be regmap_section_addr_def cu_section_addr_def decode_fields)
    also have "peek (bus s) \<dots> = peek (bus (configure_cu B ca (regmap_section_addr (p 0) a) (regmap_size (p 0)) s)) (ca + 4 * word_of_nat k)"
      using sz ct k by (intro configure_cu_args [OF B _ apart, symmetric]) (simp_all add: word_le_nat_alt n_def)
    finally show ?thesis .
  qed
  moreover have "hls_vaddr c' r = hls_vaddr c r" if "\<forall>k. 4 \<le> k \<and> k < n + 4 \<longrightarrow> r \<noteq> 4 * word_of_nat k" for r
  proof -
    have "r \<noteq> 4 * word_of_nat (k + 4)" if "k < n" for k
      using that spec [OF \<open>\<forall>k. 4 \<le> k \<and> k < n + 4 \<longrightarrow> r \<noteq> 4 * word_of_nat k\<close>, of "k + 4"] by simp
    from fold_write_other [OF io, of n r ?f "hls_vaddr c", OF this] show ?thesis by (simp add: c'_def)
  qed
  ultimately show ?thesis using x(1) conf unfolding be(2) by blast
qed

text \<open>A packet of seven words behind its header, in the memory of a flat bus, and a unit of plain cells.\<close>

definition seven_words :: pkt_words where
  "seven_words i = (if i = 0 then 0x7001 else word_of_nat i)"

definition packet_mem :: "u32 \<Rightarrow> u32" where
  "packet_mem a = seven_words (unat (a - 0x190000) div 4)"

definition ram_io :: "(u32 \<Rightarrow> u32) io" where
  "ram_io = \<lparr>io_read = (\<lambda>r d. (d r, d)), io_write = (\<lambda>r v d. d(r := v))\<rparr>"

definition ram_core :: "(u32 \<Rightarrow> u32) xrt_cu_hls" where
  "ram_core = \<lparr>hls_vaddr = (\<lambda>_. 0), hls_max_credits = 1, hls_credits = 1, hls_run_cnts = 0, hls_ctrl_chain = False,
     hls_sw_reset = False, hls_done = 0, hls_submitted = [], hls_completed = []\<rparr>"

theorem driver_matches_firmware_witness:
  "\<exists>q xcmd c. start_krnl_ecmd2xcmd 0 seven_words (kds_alloc_command 5 (4 * pkt_count (seven_words 0))) = Some (q, xcmd) \<and>
     cu_hls_configure ram_io False (c_info xcmd) (c_isize xcmd) (c_payload_type xcmd) ram_core = Some (0, c) \<and>
     hls_vaddr c 0x14 = bus (configure_cu ram_hw 0x1000 (regmap_section_addr (seven_words 0) 0x190000) (regmap_size (seven_words 0)) (ert_boot packet_mem)) 0x1014"
proof -
  have v: "ert_valid_opcode seven_words" "hdr_opcode seven_words = opcode_val ERT_START_CU" by code_simp+
  have r: "regmap_size (seven_words 0) = 6" "regmap_section_addr (seven_words 0) 0x190000 = 0x190008" by code_simp+
  have e: "get_ert_regmap_end seven_words - get_ert_regmap_begin seven_words = 6" by code_simp
  have B: "flat_bus ram_hw (\<lambda>b. b)" by (simp add: flat_bus_def ram_hw_def)
  have io: "io_write ram_io = (\<lambda>r v d. d(r := v))" by (simp add: ram_io_def)
  have m: "\<forall>i \<le> hdr_count seven_words. bus (ert_boot packet_mem) (0x190000 + 4 * word_of_nat i) = seven_words i"
  proof (intro allI impI)
    fix i assume "i \<le> hdr_count seven_words"
    then have "unat (4 * word_of_nat i :: u32) = 4 * i"
      using hdr_count_less [of seven_words] by (intro trans [OF unat_mult_small]) (simp_all add: unat_of_nat_small)
    then show "bus (ert_boot packet_mem) (0x190000 + 4 * word_of_nat i) = seven_words i" by (simp add: ert_boot_def packet_mem_def)
  qed
  have lt: "unat (push_bit 2 k) < 24" if "k < 6" for k :: u32
    using that by (simp add: push_bit_eq_mult unat_word_ariths word_less_nat_alt)
  have "\<forall>k < 6. \<forall>j < 6. 0x1000 + push_bit 2 k \<noteq> 0x190008 + push_bit 2 (j :: u32)"
  proof (intro allI impI notI)
    fix k j :: u32 assume kj: "k < 6" "j < 6" "0x1000 + push_bit 2 k = 0x190008 + push_bit 2 j"
    have "unat (0x1000 + push_bit 2 k) = 0x1000 + unat (push_bit 2 k)" "unat (0x190008 + push_bit 2 j) = 0x190008 + unat (push_bit 2 j)"
      using lt [OF kj(1)] lt [OF kj(2)] by (simp_all add: unat_word_ariths)
    with kj(3) lt [OF kj(1)] show False by simp
  qed
  then have apart: "\<forall>k < regmap_size (seven_words 0). \<forall>j < regmap_size (seven_words 0).
      0x1000 + push_bit 2 k \<noteq> regmap_section_addr (seven_words 0) 0x190000 + push_bit 2 j" unfolding r .
  obtain q xcmd c where c: "start_krnl_ecmd2xcmd 0 seven_words (kds_alloc_command 5 (4 * pkt_count (seven_words 0))) = Some (q, xcmd)"
      "cu_hls_configure ram_io False (c_info xcmd) (c_isize xcmd) (c_payload_type xcmd) ram_core = Some (0, c)"
      "\<forall>k. 4 \<le> k \<and> k < 6 \<longrightarrow> hls_vaddr c (4 * word_of_nat k) = bus (configure_cu ram_hw 0x1000
         (regmap_section_addr (seven_words 0) 0x190000) (regmap_size (seven_words 0)) (ert_boot packet_mem)) (0x1000 + 4 * word_of_nat k)"
    using driver_matches_firmware [where peek = "\<lambda>b. b" and s = "ert_boot packet_mem", OF v io B m apart, of 0 5 ram_core] unfolding e by blast
  from c(1,2) spec [OF c(3), of 5] show ?thesis by auto
qed

end
