(* ===== verification/Emu_Memory.thy ===== *)
theory Emu_Memory
  imports XRT_Prelude "HOL-Library.Product_Lexorder" "HOL-Library.Multiset"
begin

text \<open>
  The device memory allocator of the emulation shims, \<^verbatim>\<open>xclemulation::MemoryManager\<close> in
  \<^verbatim>\<open>core/pcie/emulation/common_em/memorymanager.cxx\<close>: a first-fit allocator over a free list and
  a busy list of (address, length) pairs. A manager may have child memories, which are other
  managers of the device; the managers live in a store indexed by their position in the list of
  the device, so that a child shared by several groups is one object. Tags and locking are left
  out. Arithmetic is 64-bit.
\<close>

section \<open>The allocator\<close>

type_synonym block = "u64 \<times> u64"
type_synonym chunks = "u64 \<rightharpoonup> u64"

record mm =
  mFreeBufferList :: "block list"
  mBusyBufferList :: "block list"
  mSize :: u64
  mStart :: u64
  mAlignment :: u64
  mFreeSize :: u64
  mChildMemories :: "nat list"

type_synonym mm_store = "nat \<Rightarrow> mm"

definition mNull :: u64 where "mNull = 0xffffffffffffffff"

definition mCoalesceThreshold :: nat where "mCoalesceThreshold = 4"

text \<open>The constructor; \<open>None\<close> is the failed assertion or the division by zero in it.\<close>

definition mm_ctor :: "u64 \<Rightarrow> u64 \<Rightarrow> u32 \<Rightarrow> mm option" where
  "mm_ctor sz start alignment =
     (if alignment = 0 \<or> start mod ucast alignment \<noteq> 0 then None
      else Some \<lparr>mFreeBufferList = [(start, sz)], mBusyBufferList = [], mSize = sz, mStart = start,
        mAlignment = ucast alignment, mFreeSize = sz, mChildMemories = []\<rparr>)"

text \<open>The rounded request, which \<^verbatim>\<open>alloc\<close> also returns through its reference argument.\<close>

definition round_size :: "u64 \<Rightarrow> u64 \<Rightarrow> u64" where
  "round_size alignment origSize =
     (let origSize = (if origSize = 0 then alignment else origSize);
          mod_size = origSize mod alignment;
          pad = (if mod_size > 0 then alignment - mod_size else 0)
      in origSize + pad)"

definition padded_size :: "u32 \<Rightarrow> u64 \<Rightarrow> u64" where
  "padded_size paddingFactor sz = sz + ucast (2 * paddingFactor) * sz"

text \<open>The search of the free list: the address found and the remaining list.\<close>

fun take_fit :: "u64 \<Rightarrow> block list \<Rightarrow> (u64 \<times> block list) option" where
  "take_fit sz [] = None"
| "take_fit sz ((a, l) # bs) =
     (if l < sz then map_option (\<lambda>(r, bs). (r, (a, l) # bs)) (take_fit sz bs)
      else if l > sz then Some (a, (a + sz, l - sz) # bs)
      else Some (a, bs))"

definition alloc_own :: "u64 \<Rightarrow> u64 \<Rightarrow> mm \<Rightarrow> u64 \<times> mm" where
  "alloc_own sz result m =
     (case take_fit sz (mFreeBufferList m) of
        None \<Rightarrow> (result, m)
      | Some (a, bs) \<Rightarrow> (a, m\<lparr>mFreeBufferList := bs, mBusyBufferList := mBusyBufferList m @ [(a, sz)],
          mFreeSize := mFreeSize m - sz\<rparr>))"

definition to_allocate :: "mm \<Rightarrow> u64 \<Rightarrow> u64" where
  "to_allocate m remaining = (if mFreeSize m \<le> remaining then mFreeSize m else remaining)"

text \<open>The first loop over the child memories: what they cannot provide.\<close>

definition children_lack :: "mm_store \<Rightarrow> nat list \<Rightarrow> u64 \<Rightarrow> u64" where
  "children_lack st kids sz = fold (\<lambda>k r. r - to_allocate (st k) r) kids sz"

text \<open>
  The second loop, over the remaining children; the first component of the result says whether it
  returned from \<^verbatim>\<open>alloc\<close>. \<open>rec\<close> is \<^verbatim>\<open>alloc\<close> of a child with the default arguments.
\<close>

fun alloc_children :: "(nat \<Rightarrow> u64 \<Rightarrow> mm_store \<Rightarrow> (u64 \<times> mm_store) option) \<Rightarrow> nat list \<Rightarrow>
  u64 \<Rightarrow> u64 \<Rightarrow> chunks \<Rightarrow> mm_store \<Rightarrow> (bool \<times> u64 \<times> chunks \<times> mm_store) option" where
  "alloc_children rec [] remaining result chunks st = Some (False, result, chunks, st)"
| "alloc_children rec (k # kids) remaining result chunks st =
     (let n = to_allocate (st k) remaining in
      case rec k n st of
        None \<Rightarrow> None
      | Some (final, st) \<Rightarrow>
          let chunks = (if final \<noteq> mNull then chunks(final \<mapsto> n) else chunks);
              result = (if result = mNull then final else result);
              remaining = remaining - n
          in if remaining = 0 then Some (True, result, chunks, st)
             else alloc_children rec kids remaining result chunks st)"

text \<open>
  \<^verbatim>\<open>alloc\<close> of manager \<open>i\<close>; the first argument bounds the nesting of child memories. The
  result is the address, the rounded size, the chunks and the store.
\<close>

primrec mm_alloc :: "nat \<Rightarrow> nat \<Rightarrow> u64 \<Rightarrow> u32 \<Rightarrow> chunks \<Rightarrow> mm_store \<Rightarrow>
  (u64 \<times> u64 \<times> chunks \<times> mm_store) option" where
  "mm_alloc 0 i origSize paddingFactor chunks st = None"
| "mm_alloc (Suc depth) i origSize paddingFactor chunks st =
     (if mAlignment (st i) = 0 then None else
      let origSize = round_size (mAlignment (st i)) origSize;
          sz = padded_size paddingFactor origSize;
          kids = mChildMemories (st i);
          own = (\<lambda>result chunks st. case alloc_own sz result (st i) of
                   (a, m) \<Rightarrow> Some (a, origSize, chunks, st(i := m)))
      in if kids = [] then own mNull chunks st
         else if children_lack st kids sz \<noteq> 0 then Some (mNull, origSize, chunks, st)
         else case alloc_children (\<lambda>k n st. map_option (\<lambda>(a, _, _, st). (a, st))
                (mm_alloc depth k n 0 Map.empty st)) kids sz mNull chunks st of
                None \<Rightarrow> None
              | Some (returned, result, chunks, st) \<Rightarrow>
                  if returned then Some (result, origSize, chunks, st) else own result chunks st)"

definition mm_find :: "u64 \<Rightarrow> mm \<Rightarrow> block option" where
  "mm_find buf m = find (\<lambda>s. fst s = buf) (mBusyBufferList m)"

fun merge_adjacent :: "block list \<Rightarrow> block list" where
  "merge_adjacent (c # n # bs) =
     (if fst c + snd c \<noteq> fst n then c # merge_adjacent (n # bs)
      else merge_adjacent ((fst c, snd c + snd n) # bs))"
| "merge_adjacent bs = bs"

definition coalesce :: "block list \<Rightarrow> block list" where
  "coalesce bs = merge_adjacent (sort bs)"

text \<open>The first element equal to the found one is the found one, so \<open>remove1\<close> is the erasure.\<close>

definition mm_free :: "u64 \<Rightarrow> mm \<Rightarrow> mm" where
  "mm_free buf m =
     (case mm_find buf m of
        None \<Rightarrow> m
      | Some i \<Rightarrow>
          let m = m\<lparr>mFreeSize := mFreeSize m + snd i, mFreeBufferList := mFreeBufferList m @ [i],
                    mBusyBufferList := remove1 i (mBusyBufferList m)\<rparr>
          in if length (mFreeBufferList m) > mCoalesceThreshold
             then m\<lparr>mFreeBufferList := coalesce (mFreeBufferList m)\<rparr> else m)"

definition mm_reset :: "mm \<Rightarrow> mm" where
  "mm_reset m = m\<lparr>mFreeBufferList := [(mStart m, mSize m)], mBusyBufferList := [], mFreeSize := 0\<rparr>"

definition mm_lookup :: "u64 \<Rightarrow> mm \<Rightarrow> block" where
  "mm_lookup buf m = (case mm_find buf m of Some i \<Rightarrow> i | None \<Rightarrow> (mNull, mNull))"

definition isNullAlloc :: "block \<Rightarrow> bool" where
  "isNullAlloc buf \<longleftrightarrow> fst buf = mNull \<or> snd buf = mNull"

section \<open>Address ranges\<close>

text \<open>
  How often the blocks of a list cover an address. The lists own each address of the memory
  exactly once: no block overlaps another, none leaves the memory and nothing is lost.
\<close>

definition in_block :: "nat \<Rightarrow> block \<Rightarrow> bool" where
  "in_block n b \<longleftrightarrow> unat (fst b) \<le> n \<and> n < unat (fst b) + unat (snd b)"

definition cover :: "block list \<Rightarrow> nat \<Rightarrow> nat" where
  "cover bs n = sum_list (map (\<lambda>b. of_bool (in_block n b)) bs)"

definition total :: "block list \<Rightarrow> nat" where
  "total bs = sum_list (map (\<lambda>b. unat (snd b)) bs)"

lemma cover_simps [simp]:
  "cover [] n = 0" "cover (b # bs) n = of_bool (in_block n b) + cover bs n"
  "cover (bs @ cs) n = cover bs n + cover cs n"
  by (simp_all add: cover_def)

lemma total_simps [simp]:
  "total [] = 0" "total (b # bs) = unat (snd b) + total bs" "total (bs @ cs) = total bs + total cs"
  by (simp_all add: total_def)

lemma cover_sum_mset: "cover bs n = (\<Sum>b \<in># mset bs. of_bool (in_block n b))"
  by (induction bs) auto

lemma total_sum_mset: "total bs = (\<Sum>b \<in># mset bs. unat (snd b))"
  by (induction bs) auto

lemma cover_mset: "mset bs = mset cs \<Longrightarrow> cover bs n = cover cs n"
  by (simp add: cover_sum_mset)

lemma total_mset: "mset bs = mset cs \<Longrightarrow> total bs = total cs"
  by (simp add: total_sum_mset)

lemma cover_remove1: "b \<in> set bs \<Longrightarrow> cover bs n = of_bool (in_block n b) + cover (remove1 b bs) n"
  using cover_mset [of bs "b # remove1 b bs" n] by simp

lemma total_remove1: "b \<in> set bs \<Longrightarrow> total bs = unat (snd b) + total (remove1 b bs)"
  using total_mset [of bs "b # remove1 b bs"] by simp

lemma cover_pos: "b \<in> set bs \<Longrightarrow> in_block n b \<Longrightarrow> 0 < cover bs n"
  using cover_remove1 [of b bs n] by simp

lemma cover_zero_iff: "cover bs n = 0 \<longleftrightarrow> (\<forall>b \<in> set bs. \<not> in_block n b)"
  by (induction bs) auto

text \<open>A block within bounds whose end does not wrap around.\<close>

definition block_ok :: "nat \<Rightarrow> nat \<Rightarrow> nat \<Rightarrow> block \<Rightarrow> bool" where
  "block_ok lo hi al b \<longleftrightarrow> lo \<le> unat (fst b) \<and> unat (fst b) + unat (snd b) \<le> hi \<and> al dvd unat (fst b)"

lemma sum_in_block:
  assumes "unat (fst b) + unat (snd b) \<le> N"
  shows "(\<Sum>n < N. of_bool (in_block n b)) = unat (snd b)"
proof -
  have "{..<N} \<inter> {n. in_block n b} = {unat (fst b)..<unat (fst b) + unat (snd b)}"
    using assms by (auto simp: in_block_def)
  then show ?thesis by (simp add: sum_of_bool_eq)
qed

lemma total_sum_cover:
  assumes "\<forall>b \<in> set bs. block_ok lo N al b"
  shows "(\<Sum>n < N. cover bs n) = total bs"
  using assms
proof (induction bs)
  case (Cons b bs)
  then have "unat (fst b) + unat (snd b) \<le> N" by (simp add: block_ok_def)
  from sum_in_block [OF this] Cons show ?case by (simp add: sum.distrib)
qed simp

lemma take_fit_None: "take_fit sz bs = None \<longleftrightarrow> (\<forall>b \<in> set bs. snd b < sz)"
  by (induction sz bs rule: take_fit.induct) auto

lemma split_block:
  fixes a l sz :: u64
  assumes "sz < l" and "unat a + unat l < 2 ^ 64"
  shows "unat (a + sz) = unat a + unat sz" and "unat (l - sz) = unat l - unat sz"
proof -
  have "unat sz < unat l" using assms(1) by (simp add: word_less_nat_alt)
  with assms(2) show "unat (a + sz) = unat a + unat sz" by (simp add: unat_word_ariths)
  show "unat (l - sz) = unat l - unat sz"
    using assms(1) by (simp add: unat_sub_if_size word_le_nat_alt word_less_nat_alt)
qed

lemma take_fit_Some:
  assumes "take_fit sz bs = Some (a, cs)" and "\<forall>b \<in> set bs. block_ok lo hi al b" and "hi < 2 ^ 64"
    and "al dvd unat sz"
  shows "cover bs n = of_bool (in_block n (a, sz)) + cover cs n \<and> total bs = unat sz + total cs \<and>
    (\<forall>b \<in> set cs. block_ok lo hi al b) \<and> block_ok lo hi al (a, sz)"
  using assms(1,2,4)
proof (induction sz bs arbitrary: cs rule: take_fit.induct)
  case (2 sz a' l bs)
  consider "l < sz" | "sz < l" | "l = sz" by (rule linorder_cases)
  then show ?case
  proof cases
    case 1
    with 2 show ?thesis by (auto split: prod.splits)
  next
    case 2
    then have "\<not> l < sz" by simp
    with 2 "2.prems" have eq: "a = a'" "cs = (a' + sz, l - sz) # bs" and ok: "block_ok lo hi al (a', l)" by auto
    from ok assms(3) have "unat a' + unat l < 2 ^ 64" by (simp add: block_ok_def)
    note w = split_block [OF 2 this]
    have "unat sz < unat l" using 2 by (simp add: word_less_nat_alt)
    with eq ok w "2.prems"(2,3) show ?thesis
      by (auto simp: in_block_def block_ok_def intro: dvd_add)
  next
    case 3
    with "2.prems" show ?thesis by auto
  qed
qed simp

lemma merge_adjacent_spec:
  assumes "\<forall>b \<in> set bs. block_ok lo hi al b" and "hi < 2 ^ 64"
  shows "cover (merge_adjacent bs) n = cover bs n \<and> total (merge_adjacent bs) = total bs \<and>
    (\<forall>b \<in> set (merge_adjacent bs). block_ok lo hi al b)"
  using assms(1)
proof (induction bs rule: merge_adjacent.induct)
  case (1 c d bs)
  show ?case
  proof (cases "fst c + snd c = fst d")
    case False
    with 1 show ?thesis by auto
  next
    case True
    have c: "unat (fst c) + unat (snd c) \<le> hi" and d: "unat (fst d) + unat (snd d) \<le> hi"
      using "1.prems" by (simp_all add: block_ok_def)
    have e: "unat (fst d) = unat (fst c) + unat (snd c)"
      unfolding True [symmetric] using c assms(2) by (simp add: unat_word_ariths)
    have f: "unat (snd c + snd d) = unat (snd c) + unat (snd d)"
      using d e assms(2) by (simp add: unat_word_ariths)
    let ?m = "(fst c, snd c + snd d)"
    have "merge_adjacent (c # d # bs) = merge_adjacent (?m # bs)" using True by simp
    moreover have "\<forall>b \<in> set (?m # bs). block_ok lo hi al b"
      using "1.prems" d e f by (auto simp: block_ok_def)
    from "1.IH"(2) [OF _ this] True have "cover (merge_adjacent (?m # bs)) n = cover (?m # bs) n \<and>
        total (merge_adjacent (?m # bs)) = total (?m # bs) \<and>
        (\<forall>b \<in> set (merge_adjacent (?m # bs)). block_ok lo hi al b)" by blast
    moreover have "cover (?m # bs) n = cover (c # d # bs) n" "total (?m # bs) = total (c # d # bs)"
      using e f by (auto simp: in_block_def)
    ultimately show ?thesis by presburger
  qed
qed simp_all

lemma coalesce_spec:
  assumes "\<forall>b \<in> set bs. block_ok lo hi al b" and "hi < 2 ^ 64"
  shows "cover (coalesce bs) n = cover bs n \<and> total (coalesce bs) = total bs \<and>
    (\<forall>b \<in> set (coalesce bs). block_ok lo hi al b)"
  using merge_adjacent_spec [of "sort bs" lo hi al n] assms cover_mset [of "sort bs" bs n]
    total_mset [of "sort bs" bs] by (simp add: coalesce_def)

section \<open>The invariant\<close>

definition mm_end :: "mm \<Rightarrow> nat" where
  "mm_end m = unat (mStart m) + unat (mSize m)"

text \<open>Everything but the free size counter.\<close>

definition owned_once :: "mm \<Rightarrow> bool" where
  "owned_once m \<longleftrightarrow> mAlignment m \<noteq> 0 \<and> mm_end m < 2 ^ 64 - 1 \<and>
     (\<forall>n. cover (mFreeBufferList m) n + cover (mBusyBufferList m) n = of_bool (unat (mStart m) \<le> n \<and> n < mm_end m)) \<and>
     (\<forall>b \<in> set (mFreeBufferList m) \<union> set (mBusyBufferList m).
        block_ok (unat (mStart m)) (mm_end m) (unat (mAlignment m)) b) \<and>
     (\<forall>b \<in> set (mBusyBufferList m). snd b \<noteq> 0)"

definition mm_inv :: "mm \<Rightarrow> bool" where
  "mm_inv m \<longleftrightarrow> owned_once m \<and> unat (mFreeSize m) = total (mFreeBufferList m)"

lemma owned_total:
  assumes "owned_once m"
  shows "total (mFreeBufferList m) + total (mBusyBufferList m) = unat (mSize m)"
proof -
  have "total (mFreeBufferList m @ mBusyBufferList m) =
      (\<Sum>n < mm_end m. cover (mFreeBufferList m @ mBusyBufferList m) n)"
    by (rule total_sum_cover [symmetric]) (use assms in \<open>auto simp: owned_once_def\<close>)
  also have "\<dots> = (\<Sum>n < mm_end m. of_bool (unat (mStart m) \<le> n \<and> n < mm_end m))"
    using assms by (simp add: owned_once_def)
  also have "\<dots> = (\<Sum>n < mm_end m. of_bool (in_block n (mStart m, mSize m)))"
    by (rule sum.cong) (auto simp: in_block_def mm_end_def)
  also have "\<dots> = unat (mSize m)"
    using sum_in_block [of "(mStart m, mSize m)" "mm_end m"] by (simp add: mm_end_def)
  finally show ?thesis by simp
qed

lemma ucast_eq_0_up: "(ucast a :: u64) = 0 \<longleftrightarrow> a = 0" for a :: u32
  by transfer (simp add: take_bit_eq_mod)

lemma ctor_inv:
  assumes "mm_ctor sz start al = Some m" and "unat start + unat sz < 2 ^ 64 - 1"
  shows "mm_inv m"
proof -
  define al' :: u64 where "al' = ucast al"
  have z: "al = 0 \<longleftrightarrow> al' = 0" by (simp add: al'_def ucast_eq_0_up)
  have "\<not> (al' = 0 \<or> start mod al' \<noteq> 0) \<and> m = \<lparr>mFreeBufferList = [(start, sz)], mBusyBufferList = [],
      mSize = sz, mStart = start, mAlignment = al', mFreeSize = sz, mChildMemories = []\<rparr>"
    using assms(1) unfolding mm_ctor_def al'_def [symmetric] z by (simp split: if_splits)
  then have m: "al' \<noteq> 0" "start mod al' = 0" and eq: "m = \<lparr>mFreeBufferList = [(start, sz)], mBusyBufferList = [],
      mSize = sz, mStart = start, mAlignment = al', mFreeSize = sz, mChildMemories = []\<rparr>" by simp_all
  have "unat al' dvd unat start"
    using m(2) by (metis mod_0_imp_dvd unat_mod unsigned_0)
  with m(1) assms(2) show ?thesis
    by (auto simp: eq mm_inv_def owned_once_def mm_end_def in_block_def block_ok_def)
qed

lemma alloc_own_Some:
  assumes "owned_once m" and "take_fit sz (mFreeBufferList m) = Some (a, cs)" and "sz \<noteq> 0"
    and "unat (mAlignment m) dvd unat sz"
  defines "m' \<equiv> m\<lparr>mFreeBufferList := cs, mBusyBufferList := mBusyBufferList m @ [(a, sz)],
    mFreeSize := mFreeSize m - sz\<rparr>"
  shows "owned_once m'" and "total (mFreeBufferList m) = unat sz + total cs"
    and "cover (mFreeBufferList m) n = of_bool (in_block n (a, sz)) + cover cs n"
    and "block_ok (unat (mStart m)) (mm_end m) (unat (mAlignment m)) (a, sz)"
proof -
  have ok: "\<forall>b \<in> set (mFreeBufferList m). block_ok (unat (mStart m)) (mm_end m) (unat (mAlignment m)) b"
    and hi: "mm_end m < 2 ^ 64" using assms(1) by (auto simp: owned_once_def)
  note f = take_fit_Some [OF assms(2) ok hi assms(4)]
  from f show "total (mFreeBufferList m) = unat sz + total cs"
    and "cover (mFreeBufferList m) n = of_bool (in_block n (a, sz)) + cover cs n"
    and "block_ok (unat (mStart m)) (mm_end m) (unat (mAlignment m)) (a, sz)" by blast+
  show "owned_once m'"
    unfolding owned_once_def
  proof (intro conjI)
    show "\<forall>n. cover (mFreeBufferList m') n + cover (mBusyBufferList m') n =
        of_bool (unat (mStart m') \<le> n \<and> n < mm_end m')"
    proof
      fix n
      have "cover (mFreeBufferList m) n + cover (mBusyBufferList m) n =
          of_bool (unat (mStart m) \<le> n \<and> n < mm_end m)"
        using assms(1) by (simp add: owned_once_def)
      with f [of n] show "cover (mFreeBufferList m') n + cover (mBusyBufferList m') n =
          of_bool (unat (mStart m') \<le> n \<and> n < mm_end m')"
        by (simp add: m'_def mm_end_def)
    qed
  qed (use assms(1,3) f in \<open>auto simp: owned_once_def m'_def mm_end_def\<close>)
qed

lemma alloc_own_inv:
  assumes "mm_inv m" and "alloc_own sz r m = (a, m')" and "sz \<noteq> 0" and "unat (mAlignment m) dvd unat sz"
  shows "mm_inv m'"
proof (cases "take_fit sz (mFreeBufferList m)")
  case None
  with assms show ?thesis by (simp add: alloc_own_def)
next
  case (Some p)
  then obtain b cs where p: "take_fit sz (mFreeBufferList m) = Some (b, cs)" by (cases p) auto
  have o: "owned_once m" and t: "unat (mFreeSize m) = total (mFreeBufferList m)"
    using assms(1) by (auto simp: mm_inv_def)
  note s = alloc_own_Some [OF o p assms(3,4)]
  from s(2) t have "unat (mFreeSize m - sz) = total cs"
    by (simp add: unat_sub_if_size word_le_nat_alt)
  with s(1) p assms(2) show ?thesis by (auto simp: alloc_own_def mm_inv_def)
qed

lemma mm_find_Some:
  "mm_find buf m = Some b \<Longrightarrow> b \<in> set (mBusyBufferList m) \<and> fst b = buf"
  by (auto simp: mm_find_def find_Some_iff)

lemma mm_free_Some:
  assumes "mm_find buf m = Some b"
  shows "mBusyBufferList (mm_free buf m) = remove1 b (mBusyBufferList m)"
    and "mFreeSize (mm_free buf m) = mFreeSize m + snd b"
    and "mFreeBufferList (mm_free buf m) \<in> {mFreeBufferList m @ [b], coalesce (mFreeBufferList m @ [b])}"
    and "mStart (mm_free buf m) = mStart m" "mSize (mm_free buf m) = mSize m"
      "mAlignment (mm_free buf m) = mAlignment m"
  using assms by (auto simp: mm_free_def Let_def)

lemma mm_free_lists:
  assumes "owned_once m" and "mm_find buf m = Some b"
  shows "cover (mFreeBufferList (mm_free buf m)) n = cover (mFreeBufferList m) n + of_bool (in_block n b)"
    and "total (mFreeBufferList (mm_free buf m)) = total (mFreeBufferList m) + unat (snd b)"
    and "\<forall>c \<in> set (mFreeBufferList (mm_free buf m)). block_ok (unat (mStart m)) (mm_end m) (unat (mAlignment m)) c"
proof -
  let ?l = "mFreeBufferList m @ [b]"
  have "\<forall>c \<in> set ?l. block_ok (unat (mStart m)) (mm_end m) (unat (mAlignment m)) c" and "mm_end m < 2 ^ 64"
    using assms(1) mm_find_Some [OF assms(2)] by (auto simp: owned_once_def)
  from coalesce_spec [OF this, of n] mm_free_Some(3) [OF assms(2)] this(1)
  show "cover (mFreeBufferList (mm_free buf m)) n = cover (mFreeBufferList m) n + of_bool (in_block n b)"
    and "total (mFreeBufferList (mm_free buf m)) = total (mFreeBufferList m) + unat (snd b)"
    and "\<forall>c \<in> set (mFreeBufferList (mm_free buf m)). block_ok (unat (mStart m)) (mm_end m) (unat (mAlignment m)) c"
    by auto
qed

lemma mm_free_inv:
  assumes "mm_inv m"
  shows "mm_inv (mm_free buf m)"
proof (cases "mm_find buf m")
  case None
  with assms show ?thesis by (simp add: mm_free_def)
next
  case (Some b)
  have o: "owned_once m" and t: "unat (mFreeSize m) = total (mFreeBufferList m)"
    using assms by (auto simp: mm_inv_def)
  note l = mm_free_lists [OF o Some] and s = mm_free_Some [OF Some] and b = mm_find_Some [OF Some]
  have e: "mm_end (mm_free buf m) = mm_end m" using s by (simp add: mm_end_def)
  have "total (mFreeBufferList m) + unat (snd b) \<le> unat (mSize m)"
    using owned_total [OF o] total_remove1 [of b "mBusyBufferList m"] b by simp
  then have "unat (mFreeSize (mm_free buf m)) = total (mFreeBufferList (mm_free buf m))"
    using s(2) l(2) t unsigned_less [of "mSize m", where ?'a = nat] by (simp add: unat_word_ariths)
  moreover have "cover (mFreeBufferList (mm_free buf m)) n + cover (mBusyBufferList (mm_free buf m)) n =
      of_bool (unat (mStart m) \<le> n \<and> n < mm_end m)" for n
  proof -
    have "cover (mFreeBufferList (mm_free buf m)) n + cover (mBusyBufferList (mm_free buf m)) n =
        cover (mFreeBufferList m) n + cover (mBusyBufferList m) n"
      unfolding l(1) s(1) using cover_remove1 [of b "mBusyBufferList m" n] b by simp
    with o show ?thesis by (simp add: owned_once_def)
  qed
  moreover have "set (mBusyBufferList (mm_free buf m)) \<subseteq> set (mBusyBufferList m)"
    unfolding s(1) by (rule set_remove1_subset)
  ultimately show ?thesis
    using o l(3) s(4-6) e by (auto simp: mm_inv_def owned_once_def)
qed

section \<open>Requests\<close>

text \<open>Requests whose rounded and padded size does not overflow.\<close>

definition request_ok :: "u64 \<Rightarrow> u64 \<Rightarrow> u32 \<Rightarrow> bool" where
  "request_ok al sz pf \<longleftrightarrow> al \<noteq> 0 \<and> 2 * unat pf < 2 ^ 32 \<and>
     (unat sz + unat al) * (1 + 2 * unat pf) < 2 ^ 64"

lemma round_size_spec:
  assumes "al \<noteq> 0" and "unat sz + unat al < 2 ^ 64"
  shows "unat al dvd unat (round_size al sz)" and "unat sz \<le> unat (round_size al sz)"
    and "unat (round_size al sz) \<le> unat sz + unat al" and "0 < unat (round_size al sz)"
proof -
  have al: "0 < unat al" using assms(1) by (simp add: unat_gt_0)
  define o' where "o' = (if sz = 0 then al else sz)"
  have o: "0 < unat o'" using al by (auto simp: o'_def unat_gt_0)
  let ?r = "unat o' mod unat al"
  have le: "?r < unat al" using al by simp
  have m: "unat (o' mod al) = ?r" by (simp add: unat_mod)
  have z: "o' mod al > 0 \<longleftrightarrow> ?r > 0" by (simp only: word_less_nat_alt unsigned_0 m)
  have d: "unat (al - o' mod al) = unat al - ?r"
    using le by (simp add: unat_sub_if_size word_le_nat_alt m)
  have s: "unat (round_size al sz) = (if ?r = 0 then unat o' else unat o' + (unat al - ?r))"
  proof (cases "?r = 0")
    case True
    then have "\<not> o' mod al > 0" using z by simp
    then show ?thesis using True by (simp add: round_size_def o'_def [symmetric])
  next
    case False
    then have "o' mod al > 0" using z by simp
    then have "round_size al sz = o' + (al - o' mod al)" by (simp add: round_size_def o'_def [symmetric])
    moreover have "unat o' = unat sz" using False by (auto simp: o'_def)
    ultimately show ?thesis using False d assms(2) le by (simp add: unat_word_ariths)
  qed
  show "0 < unat (round_size al sz)" using s o by simp
  show "unat sz \<le> unat (round_size al sz)" using s by (auto simp: o'_def)
  show "unat (round_size al sz) \<le> unat sz + unat al" using s le by (auto simp: o'_def)
  have "unat al dvd unat o' + (unat al - ?r)"
  proof -
    have "unat o' + (unat al - ?r) = unat al * (unat o' div unat al) + unat al"
      using le mult_div_mod_eq [of "unat al" "unat o'"] by linarith
    then show ?thesis by simp
  qed
  then show "unat al dvd unat (round_size al sz)" using s by (auto simp: dvd_eq_mod_eq_0)
qed

lemma padded_size_spec:
  assumes "2 * unat pf < 2 ^ 32" and "unat sz * (1 + 2 * unat pf) < 2 ^ 64"
  shows "unat (padded_size pf sz) = unat sz * (1 + 2 * unat pf)"
proof -
  have "unat (2 * pf) = 2 * unat pf" using assms(1) by (simp add: unat_word_ariths)
  then have "unat (ucast (2 * pf) :: u64) = 2 * unat pf"
    using assms(1) by (simp add: unsigned_ucast_eq take_bit_eq_mod)
  moreover define x :: u64 where "x = ucast (2 * pf)"
  ultimately have x: "unat x = 2 * unat pf" by simp
  have e: "unat sz * (1 + 2 * unat pf) = unat sz + unat x * unat sz" by (simp add: x algebra_simps)
  have "unat x * unat sz < 2 ^ LENGTH(64)" using assms(2) unfolding e by simp
  from unat_mult_small [OF this] have m: "unat (x * sz) = unat x * unat sz" .
  have "unat sz + unat (x * sz) < 2 ^ LENGTH(64)" using assms(2) unfolding e m by simp
  from unat_add_small [OF this] show ?thesis by (simp only: padded_size_def x_def [symmetric] m e)
qed

definition request_size :: "u64 \<Rightarrow> u64 \<Rightarrow> u32 \<Rightarrow> u64" where
  "request_size al sz pf = padded_size pf (round_size al sz)"

lemma request_size_spec:
  assumes "request_ok al sz pf"
  shows "request_size al sz pf \<noteq> 0" and "unat al dvd unat (request_size al sz pf)"
    and "unat sz \<le> unat (request_size al sz pf)"
proof -
  have al: "al \<noteq> 0" and pf: "2 * unat pf < 2 ^ 32"
    and bound: "(unat sz + unat al) * (1 + 2 * unat pf) < 2 ^ 64"
    using assms by (auto simp: request_ok_def)
  have "(unat sz + unat al) * 1 \<le> (unat sz + unat al) * (1 + 2 * unat pf)"
    by (rule mult_le_mono2) simp
  from le_less_trans [OF this bound] have "unat sz + unat al < 2 ^ 64" by (simp only: mult_1_right)
  note r = round_size_spec [OF al this]
  have "unat (round_size al sz) * (1 + 2 * unat pf) < 2 ^ 64"
    using mult_le_mono1 [OF r(3), of "1 + 2 * unat pf"] bound by (rule le_less_trans)
  from padded_size_spec [OF pf this]
  have p: "unat (request_size al sz pf) = unat (round_size al sz) * (1 + 2 * unat pf)"
    by (simp only: request_size_def)
  with r(4) have "0 < unat (request_size al sz pf)" by simp
  then show "request_size al sz pf \<noteq> 0" by (simp add: unat_gt_0)
  show "unat al dvd unat (request_size al sz pf)" unfolding p using r(1) by (rule dvd_mult2)
  show "unat sz \<le> unat (request_size al sz pf)"
    unfolding p using r(2) by (simp add: trans_le_add1)
qed

lemma alloc_leaf:
  assumes "mChildMemories (st i) = []" and "mAlignment (st i) \<noteq> 0"
  shows "mm_alloc (Suc d) i sz pf ch st =
    (case alloc_own (request_size (mAlignment (st i)) sz pf) mNull (st i) of
       (a, m) \<Rightarrow> Some (a, round_size (mAlignment (st i)) sz, ch, st(i := m)))"
  using assms by (simp add: request_size_def Let_def)

lemma owned_disjoint:
  assumes "owned_once m" and "b \<in> set (mBusyBufferList m)" and "c \<in> set (mBusyBufferList m)" and "b \<noteq> c"
  shows "\<not> (in_block n b \<and> in_block n c)"
proof
  assume n: "in_block n b \<and> in_block n c"
  have "c \<in> set (remove1 b (mBusyBufferList m))" using assms(3,4) by (simp add: in_set_remove1)
  with n have "0 < cover (remove1 b (mBusyBufferList m)) n" by (blast intro: cover_pos)
  moreover have "cover (mFreeBufferList m) n + cover (mBusyBufferList m) n \<le> 1"
    using assms(1) by (simp add: owned_once_def)
  ultimately show False using cover_remove1 [OF assms(2), of n] n by simp
qed

lemma owned_distinct:
  assumes "owned_once m"
  shows "distinct (map fst (mBusyBufferList m))"
proof -
  have "distinct (map fst bs)" if "\<forall>n. cover bs n \<le> 1" "\<forall>b \<in> set bs. snd b \<noteq> 0" for bs
    using that
  proof (induction bs)
    case (Cons b bs)
    have pos: "in_block (unat (fst c)) c" if "c \<in> set (b # bs)" for c
      using Cons.prems(2) that by (auto simp: in_block_def unat_gt_0)
    have "fst b \<notin> fst ` set bs"
    proof
      assume "fst b \<in> fst ` set bs"
      then obtain c where c: "c \<in> set bs" "fst c = fst b" by force
      then have "0 < cover bs (unat (fst b))" using pos [of c] cover_pos [of c bs] by simp
      moreover have "cover (b # bs) (unat (fst b)) \<le> 1" using Cons.prems(1) by blast
      ultimately show False using pos [of b] by simp
    qed
    moreover have "\<forall>n. cover bs n \<le> 1"
      using Cons.prems(1) by (metis add_leD2 cover_simps(2))
    ultimately show ?case using Cons by simp
  qed simp
  moreover have "cover (mBusyBufferList m) n \<le> 1" for n
  proof -
    have "cover (mFreeBufferList m) n + cover (mBusyBufferList m) n \<le> 1"
      using assms by (simp add: owned_once_def)
    then show ?thesis by simp
  qed
  ultimately show ?thesis using assms by (simp add: owned_once_def)
qed

section \<open>Allocation and release\<close>

lemma find_snoc: "find P xs = None \<Longrightarrow> find P (xs @ [x]) = (if P x then Some x else None)"
  by (induction xs) (auto split: if_splits)

text \<open>The properties of a successful search, for a manager without children.\<close>

lemma alloc_fits:
  assumes "mm_inv m" and "request_ok (mAlignment m) sz pf" and "mm_alloc (Suc d) i sz pf ch st = Some (a, o', ch', st')"
    and "st i = m" and "mChildMemories m = []" and "n = request_size (mAlignment m) sz pf"
    and "\<exists>b \<in> set (mFreeBufferList m). n \<le> snd b"
  shows "o' = round_size (mAlignment m) sz \<and> ch' = ch \<and> (\<exists>m'. st' = st(i := m') \<and> mm_inv m' \<and>
    mBusyBufferList m' = mBusyBufferList m @ [(a, n)] \<and> unat (mFreeSize m') + unat n = unat (mFreeSize m) \<and>
    block_ok (unat (mStart m)) (mm_end m) (unat (mAlignment m)) (a, n) \<and>
    mAlignment m' = mAlignment m \<and> mStart m' = mStart m \<and> mSize m' = mSize m \<and> mChildMemories m' = [] \<and>
    (\<forall>x. cover (mFreeBufferList m) x = cover (mFreeBufferList m') x + of_bool (in_block x (a, n))))"
proof -
  have o: "owned_once m" and al: "mAlignment m \<noteq> 0" using assms(1) by (auto simp: mm_inv_def owned_once_def)
  note r = request_size_spec [OF assms(2), folded assms(6)]
  obtain b cs where t: "take_fit n (mFreeBufferList m) = Some (b, cs)"
    using assms(7) take_fit_None [of n "mFreeBufferList m"] by (cases "take_fit n (mFreeBufferList m)") (auto simp: not_less)
  let ?m = "m\<lparr>mFreeBufferList := cs, mBusyBufferList := mBusyBufferList m @ [(b, n)], mFreeSize := mFreeSize m - n\<rparr>"
  have own: "alloc_own n mNull m = (b, ?m)" using t by (simp add: alloc_own_def)
  have "mm_alloc (Suc d) i sz pf ch st = Some (b, round_size (mAlignment m) sz, ch, st(i := ?m))"
    using alloc_leaf [of st i d sz pf ch] al own unfolding assms(4-6) by (simp only: assms(5)) simp
  with assms(3) have res: "a = b" "o' = round_size (mAlignment m) sz" "ch' = ch" "st' = st(i := ?m)"
    by (auto simp del: mm_alloc.simps)
  note f = alloc_own_Some [OF o t r(1,2)]
  have "unat (mFreeSize m) = unat n + total cs" using assms(1) f(2) by (simp add: mm_inv_def)
  then have "unat (mFreeSize ?m) + unat n = unat (mFreeSize m)"
    by (simp add: unat_sub_if_size word_le_nat_alt)
  with res f(3,4) alloc_own_inv [OF assms(1) own r(1,2)] assms(5) show ?thesis
    by (intro conjI exI [of _ ?m]) auto
qed

lemma alloc_no_fit:
  assumes "mChildMemories (st i) = []" and "mAlignment (st i) \<noteq> 0"
    and "\<not> (\<exists>b \<in> set (mFreeBufferList (st i)). request_size (mAlignment (st i)) sz pf \<le> snd b)"
  shows "mm_alloc (Suc d) i sz pf ch st = Some (mNull, round_size (mAlignment (st i)) sz, ch, st)"
proof -
  have "take_fit (request_size (mAlignment (st i)) sz pf) (mFreeBufferList (st i)) = None"
    using assms(3) by (auto simp: take_fit_None not_le)
  with assms(1,2) show ?thesis by (simp add: alloc_leaf alloc_own_def del: mm_alloc.simps)
qed


definition page_mm :: mm where
  "page_mm = the (mm_ctor 0x4000 0x10000 0x1000)"

lemma page_mm_inv: "mm_inv page_mm" "mAlignment page_mm = 0x1000" "mChildMemories page_mm = []"
proof -
  have "mm_ctor 0x4000 0x10000 0x1000 = Some page_mm" unfolding page_mm_def by code_simp
  then show "mm_inv page_mm" by (rule ctor_inv) simp
  show "mAlignment page_mm = 0x1000" "mChildMemories page_mm = []" by (code_simp, code_simp)
qed


definition free_addrs :: "mm \<Rightarrow> nat set" where
  "free_addrs m = {x. \<exists>b \<in> set (mFreeBufferList m). in_block x b}"

lemma free_addrs_cover: "x \<in> free_addrs m \<longleftrightarrow> 0 < cover (mFreeBufferList m) x"
  using cover_zero_iff [of "mFreeBufferList m" x] by (auto simp: free_addrs_def)

lemma find_last:
  assumes "mm_inv m'" and "mBusyBufferList m' = bs @ [(a, n)]"
  shows "mm_find a m' = Some (a, n) \<and> a \<notin> fst ` set bs"
proof -
  have "distinct (map fst (mBusyBufferList m'))" using assms(1) owned_distinct by (simp add: mm_inv_def)
  then have "a \<notin> fst ` set bs" using assms(2) by auto
  moreover from this have "find (\<lambda>s. fst s = a) bs = None" by (force simp: find_None_iff)
  ultimately show ?thesis using assms(2) by (simp add: mm_find_def find_snoc)
qed

text \<open>
  C22: Allocation followed by release is the identity on what the allocator owns: the busy list,
  the set of free addresses and the free size are those from before, whether or not the release
  coalesced the free list, and the buffer is no longer found.
\<close>

theorem free_restores:
  assumes "mm_inv (st i)" and "mChildMemories (st i) = []" and "request_ok (mAlignment (st i)) sz pf"
    and "mm_alloc (Suc d) i sz pf ch st = Some (a, o', ch', st')" and "a \<noteq> mNull"
    and "m'' = mm_free a (st' i)"
  shows "mm_inv m'' \<and> mBusyBufferList m'' = mBusyBufferList (st i) \<and> free_addrs m'' = free_addrs (st i) \<and>
    mFreeSize m'' = mFreeSize (st i) \<and> isNullAlloc (mm_lookup a m'')"
proof -
  let ?m = "st i" and ?n = "request_size (mAlignment (st i)) sz pf"
  have "\<exists>b \<in> set (mFreeBufferList ?m). ?n \<le> snd b"
    using alloc_no_fit [of st i sz pf d ch] assms(2-5) by (auto simp: request_ok_def simp del: mm_alloc.simps)
  from alloc_fits [OF assms(1,3,4) refl assms(2) refl this] obtain m' where st': "st' = st(i := m')"
    and m': "mm_inv m'" "mBusyBufferList m' = mBusyBufferList ?m @ [(a, ?n)]"
      "unat (mFreeSize m') + unat ?n = unat (mFreeSize ?m)"
      "\<And>x. cover (mFreeBufferList ?m) x = cover (mFreeBufferList m') x + of_bool (in_block x (a, ?n))" by blast
  from find_last [OF m'(1,2)] have f: "mm_find a m' = Some (a, ?n)" and na: "a \<notin> fst ` set (mBusyBufferList ?m)" by blast+
  have eq: "m'' = mm_free a m'" using assms(6) st' by simp
  have o: "owned_once m'" using m'(1) by (simp add: mm_inv_def)
  have busy: "mBusyBufferList m'' = mBusyBufferList ?m"
    unfolding eq mm_free_Some(1) [OF f] m'(2) using na by (force simp: remove1_append)
  have "cover (mFreeBufferList m'') x = cover (mFreeBufferList ?m) x" for x
    unfolding eq using mm_free_lists(1) [OF o f, of x] m'(4) [of x] by simp
  then have "free_addrs m'' = free_addrs ?m" by (auto simp: free_addrs_cover)
  moreover have "mFreeSize m'' = mFreeSize ?m"
  proof -
    have "unat (mFreeSize m') + unat ?n < 2 ^ LENGTH(64)"
      unfolding m'(3) by (rule unsigned_less)
    from unat_add_small [OF this] m'(3) have "unat (mFreeSize m' + ?n) = unat (mFreeSize ?m)" by simp
    then show ?thesis unfolding eq mm_free_Some(2) [OF f] by (simp add: word_unat_eq_iff)
  qed
  moreover have "mm_find a m'' = None" unfolding mm_find_def busy using na by (force simp: find_None_iff)
  ultimately show ?thesis
    using busy mm_free_inv [OF m'(1), of a] eq by (simp add: mm_lookup_def isNullAlloc_def)
qed

theorem free_restores_witness:
  "\<exists>a o' ch' st'. mm_alloc 1 0 0x1234 0 Map.empty (\<lambda>_. page_mm) = Some (a, o', ch', st') \<and>
     free_addrs (mm_free a (st' 0)) = free_addrs page_mm"
proof -
  have "map_option fst (mm_alloc (Suc 0) 0 0x1234 0 Map.empty (\<lambda>_. page_mm)) = Some 0x10000" by code_simp
  then obtain o' ch' st' where
    a: "mm_alloc (Suc 0) 0 0x1234 0 Map.empty (\<lambda>_. page_mm) = Some (0x10000, o', ch', st')"
    by (auto simp del: mm_alloc.simps)
  have r: "request_ok (mAlignment page_mm) 0x1234 0" by (simp add: page_mm_inv request_ok_def)
  from free_restores [OF _ _ _ a _ refl] page_mm_inv r have
    "free_addrs (mm_free 0x10000 (st' 0)) = free_addrs page_mm" by (simp add: mNull_def)
  with a show ?thesis by (auto simp del: mm_alloc.simps)
qed

section \<open>Coalescing\<close>

lemma merge_adjacent_head: "\<exists>l cs. merge_adjacent (b # bs) = (fst b, l) # cs"
proof (induction "b # bs" arbitrary: b bs rule: merge_adjacent.induct)
  case (1 c d bs)
  then show ?case by (cases c; cases "fst c + snd c = fst d") auto
qed (auto intro: exI [of _ "snd b" for b])

lemma merge_adjacent_gaps: "successively (\<lambda>c d. fst c + snd c \<noteq> fst d) (merge_adjacent bs)"
proof (induction bs rule: merge_adjacent.induct)
  case (1 c d bs)
  obtain l cs where "merge_adjacent (d # bs) = (fst d, l) # cs" using merge_adjacent_head by blast
  with 1 show ?case by (cases "fst c + snd c = fst d") auto
qed simp_all

lemma merge_adjacent_starts: "set (map fst (merge_adjacent bs)) \<subseteq> set (map fst bs)"
  by (induction bs rule: merge_adjacent.induct) auto

lemma merge_adjacent_sorted: "sorted (map fst bs) \<Longrightarrow> sorted (map fst (merge_adjacent bs))"
proof (induction bs rule: merge_adjacent.induct)
  case (1 c d bs)
  show ?case
  proof (cases "fst c + snd c = fst d")
    case True
    with 1 show ?thesis by auto
  next
    case False
    with 1 merge_adjacent_starts [of "d # bs"] show ?thesis by fastforce
  qed
qed simp_all

lemma sort_starts: "sorted (map fst (sort bs))" for bs :: "block list"
proof -
  have "sorted_wrt (\<lambda>b c. fst b \<le> fst c) (sort bs)"
    by (rule sorted_wrt_mono_rel [of _ "(\<le>)"]) (auto simp: less_eq_prod_def)
  then show ?thesis by (simp add: sorted_map)
qed

text \<open>
  Coalescing the free list changes neither the free addresses (each is covered exactly as
  often as before) nor the total free length; afterwards the blocks are ordered by address and
  no block ends where the next one begins.
\<close>

theorem coalesce_canonical:
  assumes "owned_once m"
  shows "(\<forall>x. cover (coalesce (mFreeBufferList m)) x = cover (mFreeBufferList m) x) \<and>
    total (coalesce (mFreeBufferList m)) = total (mFreeBufferList m) \<and>
    sorted (map fst (coalesce (mFreeBufferList m))) \<and>
    successively (\<lambda>c d. fst c + snd c \<noteq> fst d) (coalesce (mFreeBufferList m))"
proof -
  have "\<forall>b \<in> set (mFreeBufferList m). block_ok (unat (mStart m)) (mm_end m) (unat (mAlignment m)) b"
    and "mm_end m < 2 ^ 64" using assms by (auto simp: owned_once_def)
  from coalesce_spec [OF this] show ?thesis
    using merge_adjacent_gaps merge_adjacent_sorted [OF sort_starts] by (simp add: coalesce_def)
qed

definition split_mm :: mm where
  "split_mm = page_mm\<lparr>mFreeBufferList := [(0x12000, 0x2000), (0x10000, 0x1000), (0x11000, 0x1000)]\<rparr>"

theorem coalesce_canonical_witness:
  "coalesce (mFreeBufferList split_mm) = [(0x10000, 0x4000)] \<and>
   total (coalesce (mFreeBufferList split_mm)) = total (mFreeBufferList split_mm)"
proof -
  have "mFreeBufferList page_mm = [(0x10000, 0x4000)]" "mBusyBufferList page_mm = []"
    "mStart page_mm = 0x10000" "mSize page_mm = 0x4000" by (code_simp, code_simp, code_simp, code_simp)
  then have "owned_once split_mm"
    by (auto simp: owned_once_def split_mm_def mm_end_def in_block_def block_ok_def page_mm_inv dvd_def)
  from coalesce_canonical [OF this] have
    "total (coalesce (mFreeBufferList split_mm)) = total (mFreeBufferList split_mm)" by blast
  moreover have "coalesce (mFreeBufferList split_mm) = [(0x10000, 0x4000)]" by code_simp
  ultimately show ?thesis by blast
qed

section \<open>The allocator interface\<close>

text \<open>
  What the shims rely on: live blocks never overlap, allocation adds one fresh live block,
  release removes exactly one.
\<close>

datatype ('r, 'b) mem_op = Alloc 'r | Free 'b

locale allocator =
  fixes inv :: "'s \<Rightarrow> bool"
    and alloc :: "'r \<Rightarrow> 's \<Rightarrow> ('b \<times> 's) option"
    and release :: "'b \<Rightarrow> 's \<Rightarrow> 's"
    and live :: "'s \<Rightarrow> 'b set"
    and extent :: "'b \<Rightarrow> nat set"
  assumes live_disjoint: "inv s \<Longrightarrow> b \<in> live s \<Longrightarrow> c \<in> live s \<Longrightarrow> b \<noteq> c \<Longrightarrow> extent b \<inter> extent c = {}"
    and alloc_live: "inv s \<Longrightarrow> alloc r s = Some (b, t) \<Longrightarrow> inv t \<and> b \<notin> live s \<and> live t = insert b (live s)"
    and release_live: "inv s \<Longrightarrow> b \<in> live s \<Longrightarrow> inv (release b s) \<and> live (release b s) = live s - {b}"
begin

text \<open>A client only releases blocks it holds; a failed allocation changes nothing.\<close>

fun exec :: "('r, 'b) mem_op \<Rightarrow> 's \<Rightarrow> 's" where
  "exec (Alloc r) s = (case alloc r s of None \<Rightarrow> s | Some (b, t) \<Rightarrow> t)"
| "exec (Free b) s = (if b \<in> live s then release b s else s)"

lemma exec_inv: "inv s \<Longrightarrow> inv (exec op s)"
  by (cases op) (auto dest: alloc_live release_live split: option.splits)

lemma run_inv: "inv s \<Longrightarrow> inv (fold exec ops s)"
  by (induction ops arbitrary: s) (auto intro: exec_inv)

lemma run_disjoint:
  "inv s \<Longrightarrow> b \<in> live (fold exec ops s) \<Longrightarrow> c \<in> live (fold exec ops s) \<Longrightarrow> b \<noteq> c \<Longrightarrow> extent b \<inter> extent c = {}"
  using live_disjoint run_inv by blast

lemma exec_stays: "inv s \<Longrightarrow> b \<in> live s \<Longrightarrow> op \<noteq> Free b \<Longrightarrow> b \<in> live (exec op s)"
  by (cases op) (auto dest: alloc_live release_live split: option.splits)

lemma run_stays: "inv s \<Longrightarrow> b \<in> live s \<Longrightarrow> Free b \<notin> set ops \<Longrightarrow> b \<in> live (fold exec ops s)"
  by (induction ops arbitrary: s) (simp, metis exec_inv exec_stays fold_simps(2) list.set_intros)

end

definition leaf_inv :: "mm \<Rightarrow> bool" where
  "leaf_inv m \<longleftrightarrow> mm_inv m \<and> mChildMemories m = []"

definition leaf_alloc :: "u64 \<times> u32 \<Rightarrow> mm \<Rightarrow> (block \<times> mm) option" where
  "leaf_alloc r m = (if request_ok (mAlignment m) (fst r) (snd r) then
     case mm_alloc 1 0 (fst r) (snd r) Map.empty (\<lambda>_. m) of
       Some (a, _, _, st) \<Rightarrow> if a = mNull then None
         else Some ((a, request_size (mAlignment m) (fst r) (snd r)), st 0)
     | None \<Rightarrow> None else None)"

definition leaf_free :: "block \<Rightarrow> mm \<Rightarrow> mm" where
  "leaf_free b = mm_free (fst b)"

definition live_blocks :: "mm \<Rightarrow> block set" where
  "live_blocks m = set (mBusyBufferList m)"

definition extent :: "block \<Rightarrow> nat set" where
  "extent b = {x. in_block x b}"

lemma leaf_alloc_live:
  assumes "leaf_inv m" and "leaf_alloc r m = Some (b, m')"
  shows "leaf_inv m' \<and> b \<notin> live_blocks m \<and> live_blocks m' = insert b (live_blocks m)"
proof -
  let ?n = "request_size (mAlignment m) (fst r) (snd r)"
  from assms(2) obtain a o' ch' st' where r: "request_ok (mAlignment m) (fst r) (snd r)"
    and e: "mm_alloc (Suc 0) 0 (fst r) (snd r) Map.empty (\<lambda>_. m) = Some (a, o', ch', st')"
    and a: "a \<noteq> mNull" "b = (a, ?n)" "m' = st' 0"
    by (auto simp: leaf_alloc_def simp del: mm_alloc.simps split: if_splits option.splits)
  have m: "mm_inv m" "mChildMemories m = []" using assms(1) by (auto simp: leaf_inv_def)
  have "\<exists>b \<in> set (mFreeBufferList m). ?n \<le> snd b"
    using alloc_no_fit [of "\<lambda>_. m" 0 "fst r" "snd r" 0 Map.empty] m(2) r e a(1)
    by (auto simp: request_ok_def simp del: mm_alloc.simps)
  from alloc_fits [OF m(1) r e refl m(2) refl this] a obtain m2 where
    m2: "m' = m2" "mm_inv m2" "mBusyBufferList m2 = mBusyBufferList m @ [(a, ?n)]" "mChildMemories m2 = []" by auto
  with find_last [OF m2(2,3)] a(2) show ?thesis by (force simp: leaf_inv_def live_blocks_def)
qed

lemma leaf_free_live:
  assumes "leaf_inv m" and "b \<in> live_blocks m"
  shows "leaf_inv (leaf_free b m) \<and> live_blocks (leaf_free b m) = live_blocks m - {b}"
proof -
  have o: "owned_once m" and m: "mm_inv m" "mChildMemories m = []"
    using assms(1) by (auto simp: leaf_inv_def mm_inv_def)
  have d: "distinct (map fst (mBusyBufferList m))" using owned_distinct [OF o] .
  have "mm_find (fst b) m \<noteq> None"
    using assms(2) unfolding mm_find_def live_blocks_def find_None_iff by blast
  then obtain c where c: "mm_find (fst b) m = Some c" by blast
  with mm_find_Some [OF c] assms(2) d have "c = b"
    by (auto simp: live_blocks_def dest: eq_key_imp_eq_value) (metis eq_key_imp_eq_value prod.collapse)
  with c have f: "mm_find (fst b) m = Some b" by simp
  have "mChildMemories (mm_free (fst b) m) = []" using m(2) f by (simp add: mm_free_def Let_def)
  moreover have "set (remove1 b (mBusyBufferList m)) = set (mBusyBufferList m) - {b}"
    using d by (simp add: distinct_map)
  ultimately show ?thesis
    using mm_free_inv [OF m(1)] mm_free_Some(1) [OF f] by (simp add: leaf_inv_def leaf_free_def live_blocks_def)
qed

interpretation leaf: allocator leaf_inv leaf_alloc leaf_free live_blocks extent
proof unfold_locales
  fix s b c assume "leaf_inv s" "b \<in> live_blocks s" "c \<in> live_blocks s" "b \<noteq> c"
  then show "extent b \<inter> extent c = {}"
    using owned_disjoint [of s b c] by (auto simp: leaf_inv_def mm_inv_def live_blocks_def extent_def)
qed (use leaf_alloc_live leaf_free_live in blast)+


text \<open>Four one-page buffers, of which the first and the third are released again.\<close>

definition frag_ops :: "(u64 \<times> u32, block) mem_op list" where
  "frag_ops = [Alloc (1, 0), Alloc (1, 0), Alloc (1, 0), Alloc (1, 0),
     Free (0x10000, 0x1000), Free (0x12000, 0x1000)]"

definition frag_mm :: mm where
  "frag_mm = page_mm\<lparr>mFreeBufferList := [(0x10000, 0x1000), (0x12000, 0x1000)],
     mBusyBufferList := [(0x11000, 0x1000), (0x13000, 0x1000)], mFreeSize := 0x2000\<rparr>"

lemma page_mm_eq: "page_mm = \<lparr>mFreeBufferList = [(0x10000, 0x4000)], mBusyBufferList = [], mSize = 0x4000,
  mStart = 0x10000, mAlignment = 0x1000, mFreeSize = 0x4000, mChildMemories = []\<rparr>"
  by (simp add: page_mm_def mm_ctor_def)

lemma request_page: "request_ok 0x1000 1 0" "request_size 0x1000 1 0 = 0x1000" "round_size 0x1000 1 = 0x1000"
  by (simp add: request_ok_def) (code_simp, code_simp)

lemma frag_run: "fold leaf.exec frag_ops page_mm = frag_mm"
  by (simp add: frag_ops_def frag_mm_def page_mm_eq leaf_alloc_def request_page alloc_leaf alloc_own_def
      live_blocks_def leaf_free_def mm_free_def mm_find_def mCoalesceThreshold_def Let_def mNull_def
      del: mm_alloc.simps)

lemma page_mm_ctor: "mm_ctor 0x4000 0x10000 0x1000 = Some page_mm"
  by (simp add: page_mm_def mm_ctor_def)


section \<open>Reset\<close>

lemma owned_start_aligned:
  assumes "owned_once m" and "mSize m \<noteq> 0"
  shows "unat (mAlignment m) dvd unat (mStart m)"
proof -
  let ?x = "unat (mStart m)"
  have "?x < mm_end m" using assms(2) by (simp add: mm_end_def unat_gt_0)
  then have "cover (mFreeBufferList m) ?x + cover (mBusyBufferList m) ?x = 1"
    using assms(1) by (simp add: owned_once_def)
  then obtain b where b: "b \<in> set (mFreeBufferList m) \<union> set (mBusyBufferList m)" "in_block ?x b"
    using cover_zero_iff [of "mFreeBufferList m @ mBusyBufferList m" ?x] by auto
  with assms(1) have "block_ok ?x (mm_end m) (unat (mAlignment m)) b" by (auto simp: owned_once_def)
  with b(2) show ?thesis by (auto simp: block_ok_def in_block_def)
qed

lemma reset_owned:
  assumes "owned_once m" and "mSize m \<noteq> 0"
  shows "owned_once (mm_reset m)"
  using assms owned_start_aligned [OF assms]
  by (auto simp: owned_once_def mm_reset_def mm_end_def in_block_def block_ok_def)



section \<open>Groups of memories\<close>

lemma children_lack_unat:
  "unat (children_lack st kids n) = unat n - (\<Sum>k \<leftarrow> kids. unat (mFreeSize (st k)))"
proof (induction kids arbitrary: n)
  case (Cons k kids)
  have "unat (n - to_allocate (st k) n) = unat n - unat (mFreeSize (st k))"
    by (auto simp: to_allocate_def unat_sub_if_size word_le_nat_alt)
  with Cons show ?case by (simp add: children_lack_def)
qed (simp add: children_lack_def)

text \<open>
  A group of memories refuses a request whose rounded and padded size exceeds the free sizes of
  its memories together: null is returned and nothing is allocated in any member.
\<close>

theorem group_refuses:
  assumes "mChildMemories (st i) \<noteq> []" and "request_ok (mAlignment (st i)) sz pf"
    and "(\<Sum>k \<leftarrow> mChildMemories (st i). unat (mFreeSize (st k))) < unat (request_size (mAlignment (st i)) sz pf)"
  shows "mm_alloc (Suc d) i sz pf ch st = Some (mNull, round_size (mAlignment (st i)) sz, ch, st)"
proof -
  let ?n = "request_size (mAlignment (st i)) sz pf"
  have "unat (children_lack st (mChildMemories (st i)) ?n) \<noteq> 0"
    unfolding children_lack_unat using assms(3) by simp
  then have "children_lack st (mChildMemories (st i)) ?n \<noteq> 0" by auto
  with assms(1,2) show ?thesis by (simp add: request_ok_def request_size_def Let_def)
qed

theorem group_refuses_witness:
  "mm_alloc (Suc 1) 0 0x5000 0 Map.empty (\<lambda>i. if i = 0 then page_mm\<lparr>mChildMemories := [1]\<rparr> else page_mm) =
     Some (mNull, 0x5000, Map.empty, \<lambda>i. if i = 0 then page_mm\<lparr>mChildMemories := [1]\<rparr> else page_mm)"
proof -
  let ?st = "\<lambda>i :: nat. if i = 0 then page_mm\<lparr>mChildMemories := [1]\<rparr> else page_mm"
  have "request_ok (mAlignment (?st 0)) 0x5000 0" "round_size (mAlignment (?st 0)) 0x5000 = 0x5000"
    "unat (request_size (mAlignment (?st 0)) 0x5000 0) = 0x5000" "unat (mFreeSize (?st 1)) = 0x4000"
    by (simp_all add: page_mm_eq request_ok_def round_size_def request_size_def padded_size_def)
  then show ?thesis using group_refuses [of ?st 0 "0x5000" 0 1 Map.empty]
    by (simp del: mm_alloc.simps One_nat_def)
qed


end
