(* ===== verification/Kds_Fa.thy ===== *)
theory Kds_Fa
  imports Kds_Hls
begin

text \<open>
  The core implementation for compute units with a fast adapter,
  \<^verbatim>\<open>core/common/drv/fast_adapter.c\<close>, and \<^verbatim>\<open>xrt_fa_cfg_update\<close> of \<^verbatim>\<open>xrt_cu.c\<close>, which gives
  the adapter its command memory. Descriptors are copied to a ring of slots of that memory,
  which is a map from byte offsets to bytes; \<open>None\<close> is the null pointer. The registers are
  the same kind of parameter as for HLS compute units.
\<close>

section \<open>The fast adapter core\<close>

definition FA_MSWR :: u32 where "FA_MSWR = 0x0"
definition FA_LSWR :: u32 where "FA_LSWR = 0x4"
definition FA_ISR :: u32 where "FA_ISR = 0x8"
definition FA_IER :: u32 where "FA_IER = 0xC"
definition FA_SR :: u32 where "FA_SR = 0x10"
definition FA_TCR :: u32 where "FA_TCR = 0x14"
definition FA_FDR :: u32 where "FA_FDR = 0x1C"
definition FA_ENABLE :: u32 where "FA_ENABLE = 1"
definition FA_DISABLE :: u32 where "FA_DISABLE = 0"

type_synonym bytes = "nat \<Rightarrow> 8 word"

record 'd xrt_cu_fa =
  fa_vaddr :: 'd
  fa_cmdmem :: "bytes option"
  fa_paddr :: u64
  fa_slot_sz :: u32
  fa_num_slots :: u32
  fa_head_slot :: u32
  fa_desc_msw :: u32
  fa_task_cnt :: u32
  fa_max_credits :: s32
  fa_credits :: s32
  fa_run_cnts :: s32
  fa_check_count :: u64
  fa_submitted :: "nat list"
  fa_completed :: "nat list"

definition fa_read32 :: "'d io \<Rightarrow> u32 \<Rightarrow> 'd xrt_cu_fa \<Rightarrow> u32 \<times> 'd xrt_cu_fa" where
  "fa_read32 io reg c = (case io_read io reg (fa_vaddr c) of (v, d) \<Rightarrow> (v, c\<lparr>fa_vaddr := d\<rparr>))"

definition fa_write32 :: "'d io \<Rightarrow> u32 \<Rightarrow> u32 \<Rightarrow> 'd xrt_cu_fa \<Rightarrow> 'd xrt_cu_fa" where
  "fa_write32 io reg v c = c\<lparr>fa_vaddr := io_write io reg v (fa_vaddr c)\<rparr>"

fun fa_move_to_complete :: "kds_status \<Rightarrow> cmd_store \<times> 'd xrt_cu_fa \<Rightarrow> cmd_store \<times> 'd xrt_cu_fa" where
  "fa_move_to_complete s (h, c) =
     (case fa_submitted c of
        [] \<Rightarrow> (h, c)
      | i # is \<Rightarrow> (set_status s i h, c\<lparr>fa_submitted := is, fa_completed := fa_completed c @ [i]\<rparr>))"

definition cu_fa_alloc_credit :: "'d xrt_cu_fa \<Rightarrow> s32 \<times> 'd xrt_cu_fa" where
  "cu_fa_alloc_credit c =
     (if fa_credits c \<noteq> 0 then (fa_credits c, c\<lparr>fa_credits := fa_credits c - 1\<rparr>) else (0, c))"

text \<open>The slot count is unsigned, so it is compared with the credit limit as an unsigned number.\<close>

definition fa_credit_limit :: "'d xrt_cu_fa \<Rightarrow> s32" where
  "fa_credit_limit c = (if fa_num_slots c < fa_max_credits c then fa_num_slots c else fa_max_credits c)"

definition cu_fa_free_credit :: "u32 \<Rightarrow> 'd xrt_cu_fa \<Rightarrow> 'd xrt_cu_fa" where
  "cu_fa_free_credit cnt c =
     (let c = c\<lparr>fa_credits := fa_credits c + cnt\<rparr>; limit = fa_credit_limit c
      in if sint (fa_credits c) > sint limit then c\<lparr>fa_credits := limit\<rparr> else c)"

definition cu_fa_peek_credit :: "'d xrt_cu_fa \<Rightarrow> s32" where
  "cu_fa_peek_credit c = fa_credits c"

text \<open>Byte \<open>k\<close> of a payload in memory order, and the copy of a range of bytes to a slot.\<close>

definition data_byte :: "u32 list \<Rightarrow> nat \<Rightarrow> 8 word" where
  "data_byte d k = ucast (drop_bit (8 * (k mod 4)) (d ! (k div 4)))"

definition copy_bytes :: "u32 list \<Rightarrow> nat \<Rightarrow> nat \<Rightarrow> nat \<Rightarrow> bytes \<Rightarrow> bytes option" where
  "copy_bytes d slot from until mem =
     (if until \<le> 4 * length d then Some (fold (\<lambda>k mem. mem(slot + k := data_byte d k)) [from..<until] mem) else None)"

text \<open>A size below four makes the length of the first copy wrap around, which is undefined.\<close>

definition cu_fa_configure :: "bool \<Rightarrow> u32 list \<Rightarrow> u64 \<Rightarrow> u32 \<Rightarrow> 'd xrt_cu_fa \<Rightarrow> (s32 \<times> 'd xrt_cu_fa) option" where
  "cu_fa_configure echo data sz ty c =
     (case fa_cmdmem c of
        None \<Rightarrow> Some (0, c)
      | Some mem \<Rightarrow>
          if echo then Some (0, c)
          else if sz < 4 then None
          else do {
            let slot = unat (fa_head_slot c);
            mem \<leftarrow> copy_bytes data slot 4 (unat sz) mem;
            mem \<leftarrow> copy_bytes data slot 0 4 mem;
            Some (0, c\<lparr>fa_cmdmem := Some mem\<rparr>)
          })"

definition cu_fa_start :: "'d io \<Rightarrow> bool \<Rightarrow> 'd xrt_cu_fa \<Rightarrow> 'd xrt_cu_fa" where
  "cu_fa_start io echo c =
     (let desc_msw = ucast (drop_bit 32 (fa_paddr c)); desc_lsw = (ucast (fa_paddr c) :: u32);
          c = c\<lparr>fa_run_cnts := fa_run_cnts c + 1\<rparr>
      in if echo \<or> Option.is_none (fa_cmdmem c) then c
         else let c = (if desc_msw \<noteq> fa_desc_msw c
                       then (fa_write32 io FA_MSWR desc_msw c)\<lparr>fa_desc_msw := desc_msw\<rparr> else c);
                  c = fa_write32 io FA_LSWR (desc_lsw + fa_head_slot c) c;
                  c = c\<lparr>fa_head_slot := fa_head_slot c + fa_slot_sz c\<rparr>
              in if fa_head_slot c = fa_slot_sz c * fa_num_slots c then c\<lparr>fa_head_slot := 0\<rparr> else c)"

definition cu_fa_check :: "'d io \<Rightarrow> bool \<Rightarrow> bool \<Rightarrow> xcu_status \<Rightarrow> cmd_store \<Rightarrow> 'd xrt_cu_fa \<Rightarrow>
  xcu_status \<times> cmd_store \<times> 'd xrt_cu_fa" where
  "cu_fa_check io echo force st h c =
     (if echo \<or> Option.is_none (fa_cmdmem c)
      then (st\<lparr>num_done := 1, num_ready := 1\<rparr>, h, c\<lparr>fa_run_cnts := fa_run_cnts c - 1\<rparr>)
      else if \<not> force \<and> fa_run_cnts c = 0 then (st, h, c)
      else let c = c\<lparr>fa_check_count := fa_check_count c + 1\<rparr>;
               (task_count, c) = fa_read32 io FA_TCR c;
               fin = task_count - fa_task_cnt c;
               c = c\<lparr>fa_task_cnt := task_count, fa_run_cnts := fa_run_cnts c - fin\<rparr>;
               (h, c) = (fa_move_to_complete KDS_COMPLETED ^^ unat fin) (h, c)
           in (st\<lparr>num_done := fin, num_ready := fin\<rparr>, h, c))"

definition cu_fa_enable_intr :: "'d io \<Rightarrow> u32 \<Rightarrow> 'd xrt_cu_fa \<Rightarrow> 'd xrt_cu_fa" where
  "cu_fa_enable_intr io t c = fa_write32 io FA_IER FA_ENABLE c"

definition cu_fa_disable_intr :: "'d io \<Rightarrow> u32 \<Rightarrow> 'd xrt_cu_fa \<Rightarrow> 'd xrt_cu_fa" where
  "cu_fa_disable_intr io t c = fa_write32 io FA_IER FA_DISABLE c"

definition cu_fa_clear_intr :: "'d io \<Rightarrow> 'd xrt_cu_fa \<Rightarrow> u32 \<times> 'd xrt_cu_fa" where
  "cu_fa_clear_intr io c = fa_read32 io FA_ISR c"

definition cu_fa_reset :: "'d xrt_cu_fa \<Rightarrow> 'd xrt_cu_fa" where
  "cu_fa_reset c = c"

definition cu_fa_reset_done :: "'d xrt_cu_fa \<Rightarrow> bool \<times> 'd xrt_cu_fa" where
  "cu_fa_reset_done c = (True, c)"

definition cu_fa_submit_config :: "bool \<Rightarrow> cmd_store \<Rightarrow> nat \<Rightarrow> 'd xrt_cu_fa \<Rightarrow> (s32 \<times> 'd xrt_cu_fa) option" where
  "cu_fa_submit_config echo h i c =
     (case cu_fa_configure echo (c_info (h i)) (c_isize (h i)) (c_payload_type (h i)) c of
        None \<Rightarrow> None
      | Some (ret, c) \<Rightarrow>
          if ret \<noteq> 0 then Some (ret, c) else Some (ret, c\<lparr>fa_submitted := fa_submitted c @ [i]\<rparr>))"

definition cu_fa_get_complete :: "'d xrt_cu_fa \<Rightarrow> nat option \<times> 'd xrt_cu_fa" where
  "cu_fa_get_complete c =
     (case fa_completed c of [] \<Rightarrow> (None, c) | i # is \<Rightarrow> (Some i, c\<lparr>fa_completed := is\<rparr>))"

definition cu_fa_abort :: "(kds_command \<Rightarrow> bool) \<Rightarrow> cmd_store \<Rightarrow> 'd xrt_cu_fa \<Rightarrow> s32 \<times> cmd_store \<times> 'd xrt_cu_fa" where
  "cu_fa_abort match h c =
     (let ks = filter (\<lambda>i. match (h i)) (fa_submitted c)
      in (- EBUSY, fold (set_status KDS_TIMEOUT) ks h,
          c\<lparr>fa_submitted := filter (\<lambda>i. \<not> match (h i)) (fa_submitted c), fa_completed := fa_completed c @ ks\<rparr>))"

definition xrt_cu_fa_funcs :: "'d io \<Rightarrow> bool \<Rightarrow> 'd xrt_cu_fa xcu_funcs" where
  "xrt_cu_fa_funcs io echo = \<lparr>
     fn_alloc_credit = cu_fa_alloc_credit,
     fn_free_credit = cu_fa_free_credit,
     fn_peek_credit = cu_fa_peek_credit,
     fn_configure = cu_fa_configure echo,
     fn_start = cu_fa_start io echo,
     fn_check = cu_fa_check io echo,
     fn_submit_config = Some (cu_fa_submit_config echo),
     fn_get_complete = Some cu_fa_get_complete,
     fn_abort = Some cu_fa_abort,
     fn_reset = cu_fa_reset,
     fn_reset_done = cu_fa_reset_done,
     fn_enable_intr = cu_fa_enable_intr io,
     fn_disable_intr = cu_fa_disable_intr io,
     fn_clear_intr = cu_fa_clear_intr io\<rparr>"

definition xrt_cu_fa_init :: "'d io \<Rightarrow> bool \<Rightarrow> 'd option \<Rightarrow> 'd xrt_cu_fa xrt_cu \<Rightarrow> s32 \<times> 'd xrt_cu_fa xrt_cu" where
  "xrt_cu_fa_init io mem regs x =
     (if \<not> mem then (- ENOMEM, x)
      else case regs of
        None \<Rightarrow> (- ENOMEM, x)
      | Some d \<Rightarrow>
          let d = io_write io FA_SR 0 d;
              (depth, d) = io_read io FA_FDR d;
              (tasks, d) = io_read io FA_TCR d;
              (msw, d) = io_read io FA_MSWR d
          in xrt_cu_init (x\<lparr>core := \<lparr>fa_vaddr = d, fa_cmdmem = None, fa_paddr = 0, fa_slot_sz = 0, fa_num_slots = 0,
               fa_head_slot = 0, fa_desc_msw = msw, fa_task_cnt = tasks, fa_max_credits = depth, fa_credits = depth,
               fa_run_cnts = 0, fa_check_count = 0, fa_submitted = [], fa_completed = []\<rparr>\<rparr>))"

text \<open>The command memory of an adapter; \<open>bar = 0\<close> takes it away.\<close>

definition xrt_fa_cfg_update :: "u64 \<Rightarrow> u64 \<Rightarrow> bytes option \<Rightarrow> u32 \<Rightarrow> 'd xrt_cu_fa xrt_cu \<Rightarrow> s32 \<times> 'd xrt_cu_fa xrt_cu" where
  "xrt_fa_cfg_update bar dev vaddr num_slots x =
     (let c = core x in
      if bar = 0
      then (0, x\<lparr>core := c\<lparr>fa_cmdmem := None, fa_paddr := 0, fa_slot_sz := 0, fa_num_slots := 0\<rparr>\<rparr>)
      else let c = c\<lparr>fa_cmdmem := vaddr, fa_paddr := dev, fa_slot_sz := cu_fa_get_desc_size x, fa_num_slots := num_slots\<rparr>
           in (0, x\<lparr>core := c\<lparr>fa_credits := fa_credit_limit c\<rparr>\<rparr>))"

section \<open>The contract\<close>

lemma fa_move_finishes:
  assumes "(fa_move_to_complete s ^^ n) (h, c) = (h', c')"
  shows "\<exists>ks. fa_submitted c = ks @ fa_submitted c' \<and> fa_completed c' = fa_completed c @ ks \<and>
    results_only (set ks) h h' \<and> (\<forall>i \<in> set ks. c_status (h' i) = s)"
  using assms
proof (induction n arbitrary: h' c')
  case 0
  then show ?case by simp
next
  case (Suc n)
  obtain g d where d: "(fa_move_to_complete s ^^ n) (h, c) = (g, d)" by fastforce
  from Suc.IH [OF d] obtain ks where ks: "fa_submitted c = ks @ fa_submitted d" "fa_completed d = fa_completed c @ ks"
    "results_only (set ks) h g" "\<forall>i \<in> set ks. c_status (g i) = s" by blast
  show ?case
  proof (cases "fa_submitted d")
    case Nil
    with Suc.prems d ks show ?thesis by (intro exI [of _ ks]) auto
  next
    case (Cons i is')
    with Suc.prems d ks results_only_set_status [OF ks(3), of i s] show ?thesis
      by (intro exI [of _ "ks @ [i]"]) auto
  qed
qed

lemma check_finishes_fa:
  assumes "cu_fa_check io echo force st h c = (st', h', c')"
  shows "\<exists>ks. fa_submitted c = ks @ fa_submitted c' \<and> fa_completed c' = fa_completed c @ ks \<and>
    results_only (set ks) h h' \<and> (\<forall>i \<in> set ks. c_status (h' i) \<in> {KDS_COMPLETED})"
proof -
  have "(fa_submitted c' = fa_submitted c \<and> fa_completed c' = fa_completed c \<and> h' = h) \<or>
    (\<exists>n d. fa_submitted d = fa_submitted c \<and> fa_completed d = fa_completed c \<and>
       (fa_move_to_complete KDS_COMPLETED ^^ n) (h, d) = (h', c'))"
    using assms by (auto simp: cu_fa_check_def fa_read32_def Let_def split: if_splits prod.splits)
  then show ?thesis
  proof (elim disjE exE conjE)
    fix n d
    assume "fa_submitted d = fa_submitted c" "fa_completed d = fa_completed c"
      "(fa_move_to_complete KDS_COMPLETED ^^ n) (h, d) = (h', c')"
    with fa_move_finishes [OF this(3)] show ?thesis by auto
  qed auto
qed

interpretation fa: cu_core "xrt_cu_fa_funcs io echo" fa_submitted fa_completed "{KDS_COMPLETED}"
  for io :: "'d io" and echo
proof
  fix c c' :: "'d xrt_cu_fa" and n t r and h h' :: cmd_store and st st' force i f m g
  let ?F = "xrt_cu_fa_funcs io echo"
  show "fn_alloc_credit ?F c = (r, c') \<Longrightarrow> fa_submitted c' = fa_submitted c \<and> fa_completed c' = fa_completed c"
    by (auto simp: xrt_cu_fa_funcs_def cu_fa_alloc_credit_def split: if_splits)
  show "fa_submitted (fn_free_credit ?F n c) = fa_submitted c \<and> fa_completed (fn_free_credit ?F n c) = fa_completed c"
    by (simp add: xrt_cu_fa_funcs_def cu_fa_free_credit_def Let_def)
  show "fa_submitted (fn_start ?F c) = fa_submitted c \<and> fa_completed (fn_start ?F c) = fa_completed c"
    by (simp add: xrt_cu_fa_funcs_def cu_fa_start_def fa_write32_def Let_def)
  show "fa_submitted (fn_enable_intr ?F t c) = fa_submitted c \<and> fa_completed (fn_enable_intr ?F t c) = fa_completed c"
    by (simp add: xrt_cu_fa_funcs_def cu_fa_enable_intr_def fa_write32_def)
  show "fa_submitted (fn_disable_intr ?F t c) = fa_submitted c \<and> fa_completed (fn_disable_intr ?F t c) = fa_completed c"
    by (simp add: xrt_cu_fa_funcs_def cu_fa_disable_intr_def fa_write32_def)
  show "fn_clear_intr ?F c = (t, c') \<Longrightarrow> fa_submitted c' = fa_submitted c \<and> fa_completed c' = fa_completed c"
    by (auto simp: xrt_cu_fa_funcs_def cu_fa_clear_intr_def fa_read32_def split: prod.splits)
  show "fn_check ?F force st h c = (st', h', c') \<Longrightarrow> \<exists>ks. fa_submitted c = ks @ fa_submitted c' \<and>
      fa_completed c' = fa_completed c @ ks \<and> results_only (set ks) h h' \<and> (\<forall>i \<in> set ks. c_status (h' i) \<in> {KDS_COMPLETED})"
    using check_finishes_fa by (simp add: xrt_cu_fa_funcs_def)
  show "fn_submit_config ?F = Some f \<Longrightarrow> f h i c = Some (r, c') \<Longrightarrow> fa_completed c' = fa_completed c \<and>
      fa_submitted c' = (if r = 0 then fa_submitted c @ [i] else fa_submitted c)"
    by (auto simp: xrt_cu_fa_funcs_def cu_fa_submit_config_def cu_fa_configure_def Let_def
        split: option.splits if_splits Option.bind_splits)
  show "\<exists>f. fn_get_complete ?F = Some f \<and> (\<forall>c i c'. f c = (i, c') \<longrightarrow> fa_submitted c' = fa_submitted c \<and>
      (case fa_completed c of [] \<Rightarrow> i = None \<and> fa_completed c' = [] | k # ks \<Rightarrow> i = Some k \<and> fa_completed c' = ks))"
    by (auto simp: xrt_cu_fa_funcs_def cu_fa_get_complete_def split: list.splits)
  show "fn_abort ?F = Some g \<Longrightarrow> g m h c = (r, h', c') \<Longrightarrow>
      fa_submitted c' = filter (\<lambda>i. \<not> m (h i)) (fa_submitted c) \<and>
      fa_completed c' = fa_completed c @ filter (\<lambda>i. m (h i)) (fa_submitted c) \<and>
      results_only (set (filter (\<lambda>i. m (h i)) (fa_submitted c))) h h'"
    using results_only_fold [of "filter (\<lambda>i. m (h i)) (fa_submitted c)" h KDS_TIMEOUT]
    by (auto simp: xrt_cu_fa_funcs_def cu_fa_abort_def Let_def)
qed

end
