(* ===== verification/Kds_Core.thy ===== *)
theory Kds_Core
  imports Kds_Fa Kds_Convert
begin

text \<open>
  The scheduler core of \<^verbatim>\<open>core/common/drv/kds_core.c\<close> and the contexts of
  \<^verbatim>\<open>kds_hwctx.c\<close>: clients reserve compute units by contexts, shared or exclusively, and
  submit commands, for each of which a reserved unit is selected.

  Clients, hardware contexts, contexts on compute units and compute units are objects that the
  code links by pointers. They live in stores from addresses to records, and the lists and tables
  of the code hold addresses. The statistics of the code are counters per processor that are
  summed when they are read; as all additions wrap around, a single counter of the sum is kept.
  The fields of \<^verbatim>\<open>struct xrt_cu\<close> that only this layer uses are kept here. \<open>host\<close>
  records what this layer itself reports to the host. Locks are left out: every operation is
  one step, and what other threads do while one waits is an argument.
\<close>

section \<open>State\<close>

definition EAGAIN :: s32 where "EAGAIN = 11"
definition MAX_CUS :: nat where "MAX_CUS = 128"
definition CU_CTX_PROP_MASK :: u32 where "CU_CTX_PROP_MASK = 0x0F"
definition CU_CTX_SHARED :: u32 where "CU_CTX_SHARED = 0x00"
definition CU_CTX_EXCLUSIVE :: u32 where "CU_CTX_EXCLUSIVE = 0x01"
definition CU_EXCLU_MASK :: u32 where "CU_EXCLU_MASK = 0x80000000"
definition M2M_CU_ID :: u32 where "M2M_CU_ID = 128"
definition DEFAULT_HW_CTX_ID :: u32 where "DEFAULT_HW_CTX_ID = 0"
definition KDS_CU :: u32 where "KDS_CU = 0"
definition KDS_SCU :: u32 where "KDS_SCU = 1"
definition KDS_ERT :: u32 where "KDS_ERT = 2"

record client_stats =
  s_cnt :: "nat \<Rightarrow> u64"
  c_cnt :: "nat \<Rightarrow> u64"
  scu_s_cnt :: "nat \<Rightarrow> u64"
  scu_c_cnt :: "nat \<Rightarrow> u64"

record kds_client_hw_ctx =
  hw_ctx_idx :: u32
  hw_slot_idx :: u32
  hw_cu_ctx_list :: "nat list"
  hw_graph_ctx_list :: "nat list"
  hw_stats :: client_stats

record kds_client_cu_ctx =
  x_cu_idx :: u32
  x_cu_domain :: u32
  x_flags :: u32
  x_ref_cnt :: u32
  x_hw_ctx :: "nat option"

record kds_client_cu_info =
  i_cu_idx :: u32
  i_cu_domain :: u32
  i_flags :: u32
  i_ctx :: "nat option"

record kds_client_cu_refcnt =
  r_cu_refs :: "nat \<Rightarrow> u32"
  r_scu_refs :: "nat \<Rightarrow> u32"

text \<open>The legacy context of a client is its list of contexts on compute units, if it has one.\<close>

record kds_client =
  cl_ctx :: "nat list option"
  cl_ctx_list :: "nat list list"
  cl_hw_ctx_list :: "nat list"
  next_hw_ctx_id :: u32
  refcnt :: "kds_client_cu_refcnt option"

record kds_cu_mgmt =
  xcus :: "nat \<Rightarrow> nat option"
  num_cus :: s32
  num_cdma :: s32
  cu_intr :: "nat \<Rightarrow> u32"
  cu_refs :: "nat \<Rightarrow> u32"
  usage :: "nat \<Rightarrow> u64"
  rw_shared :: s32

record cmdmem_info =
  cm_bo :: bool
  cm_bar_paddr :: u64
  cm_dev_paddr :: u64
  cm_vaddr :: bytes
  cm_size :: u32

record 'c kds_sched =
  clients :: "nat list"
  num_client :: s32
  kds_bad_state :: bool
  cu_mgmt :: kds_cu_mgmt
  scu_mgmt :: kds_cu_mgmt
  has_ert :: bool
  xgq_enable :: bool
  cu_intr_cap :: u32
  cmdmem :: cmdmem_info
  ini_disable :: bool
  ert_disable :: bool
  force_polling :: bool
  kds_cu_intr :: u32
  timestamp_set :: bool
  polling_thread :: bool
  alive_cus :: "nat list"
  polling_start :: u32
  polling_stop :: u32
  client_at :: "nat \<Rightarrow> kds_client"
  cu_ctx_at :: "nat \<Rightarrow> kds_client_cu_ctx"
  hw_ctx_at :: "nat \<Rightarrow> kds_client_hw_ctx"
  xcu_at :: "nat \<Rightarrow> 'c xrt_cu"
  is_ucu :: "nat \<Rightarrow> bool"
  read_regs :: "nat \<Rightarrow> u32 \<times> u32"
  host :: "(nat \<times> kds_status) list"

text \<open>The operations of the embedded scheduler's driver, a table of functions that may be null.\<close>

record 'k kds_ert =
  ert_submit :: "(nat \<Rightarrow> kds_command \<Rightarrow> 'k \<Rightarrow> 'k) option"
  ert_abort :: "(nat \<Rightarrow> u32 \<Rightarrow> 'k \<Rightarrow> 'k) option"
  ert_abort_done :: "(nat \<Rightarrow> u32 \<Rightarrow> 'k \<Rightarrow> bool \<times> 'k) option"
  ert_abort_sync :: "(nat \<Rightarrow> u32 \<Rightarrow> 'k \<Rightarrow> 'k) option"

definition mgmt :: "u32 \<Rightarrow> 'c kds_sched \<Rightarrow> kds_cu_mgmt" where
  "mgmt domain k = (if domain = DOMAIN_PL then cu_mgmt k else scu_mgmt k)"

definition upd_mgmt :: "u32 \<Rightarrow> (kds_cu_mgmt \<Rightarrow> kds_cu_mgmt) \<Rightarrow> 'c kds_sched \<Rightarrow> 'c kds_sched" where
  "upd_mgmt domain f k =
     (if domain = DOMAIN_PL then k\<lparr>cu_mgmt := f (cu_mgmt k)\<rparr> else k\<lparr>scu_mgmt := f (scu_mgmt k)\<rparr>)"

definition report :: "nat \<Rightarrow> kds_status \<Rightarrow> 'c kds_sched \<Rightarrow> 'c kds_sched" where
  "report i s k = k\<lparr>host := host k @ [(i, s)]\<rparr>"

section \<open>Statistics of clients\<close>

text \<open>
  The macros visit every hardware context of the client with the given index: a read gives the
  value of the last one, an update changes them all.
\<close>

definition client_stat_read :: "nat \<Rightarrow> u32 \<Rightarrow> (client_stats \<Rightarrow> u64) \<Rightarrow> 'c kds_sched \<Rightarrow> u64" where
  "client_stat_read client hw_ctx field k =
     fold (\<lambda>h res. if hw_ctx_idx (hw_ctx_at k h) = hw_ctx then field (hw_stats (hw_ctx_at k h)) else res)
       (cl_hw_ctx_list (client_at k client)) 0"

definition client_stat_upd :: "nat \<Rightarrow> u32 \<Rightarrow> (client_stats \<Rightarrow> client_stats) \<Rightarrow> 'c kds_sched \<Rightarrow> 'c kds_sched" where
  "client_stat_upd client hw_ctx f k =
     k\<lparr>hw_ctx_at := fold (\<lambda>h hs. if hw_ctx_idx (hs h) = hw_ctx then hs(h := (hs h)\<lparr>hw_stats := f (hw_stats (hs h))\<rparr>) else hs)
        (cl_hw_ctx_list (client_at k client)) (hw_ctx_at k)\<rparr>"

definition add_submitted :: "u32 \<Rightarrow> nat \<Rightarrow> u64 \<Rightarrow> client_stats \<Rightarrow> client_stats" where
  "add_submitted domain i v st =
     (if domain = DOMAIN_PL then st\<lparr>s_cnt := (s_cnt st)(i := s_cnt st i + v)\<rparr>
      else st\<lparr>scu_s_cnt := (scu_s_cnt st)(i := scu_s_cnt st i + v)\<rparr>)"

definition outstanding_cmds :: "nat \<Rightarrow> u32 \<Rightarrow> u32 \<Rightarrow> nat \<Rightarrow> 'c kds_sched \<Rightarrow> bool" where
  "outstanding_cmds client domain hw_ctx i k \<longleftrightarrow>
     (if domain = DOMAIN_PL
      then client_stat_read client hw_ctx (\<lambda>st. s_cnt st i) k \<noteq> client_stat_read client hw_ctx (\<lambda>st. c_cnt st i) k
      else client_stat_read client hw_ctx (\<lambda>st. scu_s_cnt st i) k \<noteq> client_stat_read client hw_ctx (\<lambda>st. scu_c_cnt st i) k)"

section \<open>References of a client to compute units\<close>

definition kds_client_domain_refcnt :: "nat \<Rightarrow> u32 \<Rightarrow> 'c kds_sched \<Rightarrow> (nat \<Rightarrow> u32) option" where
  "kds_client_domain_refcnt client domain k =
     (case refcnt (client_at k client) of
        None \<Rightarrow> None
      | Some r \<Rightarrow> if domain = DOMAIN_PL then Some (r_cu_refs r) else if domain = DOMAIN_PS then Some (r_scu_refs r) else None)"

definition set_refs :: "nat \<Rightarrow> u32 \<Rightarrow> (nat \<Rightarrow> u32) \<Rightarrow> 'c kds_sched \<Rightarrow> 'c kds_sched" where
  "set_refs client domain refs k =
     (let c = client_at k client in
      k\<lparr>client_at := (client_at k)(client := c\<lparr>refcnt := map_option (\<lambda>r.
         if domain = DOMAIN_PL then r\<lparr>r_cu_refs := refs\<rparr> else r\<lparr>r_scu_refs := refs\<rparr>) (refcnt c)\<rparr>)\<rparr>)"

definition kds_test_refcnt :: "nat \<Rightarrow> u32 \<Rightarrow> nat \<Rightarrow> 'c kds_sched \<Rightarrow> s32" where
  "kds_test_refcnt client domain idx k =
     (case kds_client_domain_refcnt client domain k of
        None \<Rightarrow> - EINVAL | Some refs \<Rightarrow> if refs idx > 0 then 1 else 0)"

definition kds_test_and_refcnt_incr :: "nat \<Rightarrow> u32 \<Rightarrow> nat \<Rightarrow> 'c kds_sched \<Rightarrow> s32 \<times> 'c kds_sched" where
  "kds_test_and_refcnt_incr client domain cu k =
     (case kds_client_domain_refcnt client domain k of
        None \<Rightarrow> (- EINVAL, k)
      | Some refs \<Rightarrow> (refs cu, set_refs client domain (refs(cu := refs cu + 1)) k))"

definition kds_test_and_refcnt_decr :: "nat \<Rightarrow> u32 \<Rightarrow> nat \<Rightarrow> 'c kds_sched \<Rightarrow> s32 \<times> 'c kds_sched" where
  "kds_test_and_refcnt_decr client domain cu k =
     (case kds_client_domain_refcnt client domain k of
        None \<Rightarrow> (- EINVAL, k)
      | Some refs \<Rightarrow>
          (refs cu, if sint (refs cu) > 0 then set_refs client domain (refs(cu := refs cu - 1)) k else k))"

definition kds_client_set_cu_refs_zero :: "nat \<Rightarrow> u32 \<Rightarrow> 'c kds_sched \<Rightarrow> s32 \<times> 'c kds_sched" where
  "kds_client_set_cu_refs_zero client domain k =
     (case kds_client_domain_refcnt client domain k of
        None \<Rightarrow> (- EINVAL, k)
      | Some refs \<Rightarrow> (0, set_refs client domain (\<lambda>i. if i < MAX_CUS then 0 else refs i) k))"

section \<open>Selection of a compute unit\<close>

text \<open>The first of the least used units.\<close>

definition least_used :: "(nat \<Rightarrow> u64) \<Rightarrow> nat \<Rightarrow> nat list \<Rightarrow> nat" where
  "least_used u i is = fold (\<lambda>j index. if u j < u index then j else index) is i"

text \<open>
  \<open>race\<close> is what other threads do between the selection and the check that the selected unit is
  still reserved. A table entry without unit is a null pointer.
\<close>

definition acquire_cu_idx :: "('c kds_sched \<Rightarrow> 'c kds_sched) \<Rightarrow> u32 \<Rightarrow> kds_command \<Rightarrow> 'c kds_sched \<Rightarrow>
  (s32 \<times> kds_command \<times> 'c kds_sched) option" where
  "acquire_cu_idx race domain xcmd k =
     (let client = c_client xcmd; hw_ctx = c_hw_ctx_id xcmd; m = mgmt domain k in
      case cu_mask_to_cu_idx xcmd of
        None \<Rightarrow> None
      | Some user_cus \<Rightarrow>
          if int (length user_cus) > sint (num_cus m) then Some (- EINVAL, xcmd, k)
          else if \<exists>i \<in> set user_cus. sint (kds_test_refcnt client domain i k) < 0 then Some (- EINVAL, xcmd, k)
          else case filter (\<lambda>i. kds_test_refcnt client domain i k \<noteq> 0) user_cus of
            [] \<Rightarrow> Some (- EINVAL, xcmd, k)
          | v # valid_cus \<Rightarrow>
              let index = least_used (usage m) v valid_cus in
              case xcus m index of
                None \<Rightarrow> None
              | Some a \<Rightarrow>
                  if xrt_cu_get_protocol (xcu_at k a) = CTRL_NONE then Some (- EINVAL, xcmd, k)
                  else if is_ucu k a then Some (- EBUSY, xcmd, k)
                  else let k = upd_mgmt domain (\<lambda>m. m\<lparr>usage := (usage m)(index := usage m index + 1)\<rparr>) k;
                           k = client_stat_upd client hw_ctx (add_submitted domain index 1) k;
                           k = race k;
                           cu_set = kds_test_refcnt client domain index k
                       in if sint cu_set < 0 then Some (- EINVAL, xcmd, k)
                          else let xcmd = xcmd\<lparr>c_cu_idx := word_of_nat index\<rparr> in
                            if cu_set = 0
                            then Some (- EAGAIN, xcmd, client_stat_upd client hw_ctx (add_submitted domain index (- 1)) k)
                            else Some (word_of_nat index, xcmd, k))"

partial_function (option) acquire_loop :: "(nat \<Rightarrow> 'c kds_sched \<Rightarrow> 'c kds_sched) \<Rightarrow> nat \<Rightarrow> u32 \<Rightarrow> kds_command \<Rightarrow>
  'c kds_sched \<Rightarrow> (s32 \<times> kds_command \<times> 'c kds_sched) option" where
  "acquire_loop race n domain xcmd k =
     (case acquire_cu_idx (race n) domain xcmd k of
        None \<Rightarrow> None
      | Some (idx, xcmd, k) \<Rightarrow>
          if idx = - EAGAIN then acquire_loop race (Suc n) domain xcmd k else Some (idx, xcmd, k))"

declare acquire_loop.simps [code]

definition kds_cu_dispatch :: "(nat \<Rightarrow> 'c kds_sched \<Rightarrow> 'c kds_sched) \<Rightarrow> u32 \<Rightarrow> nat \<Rightarrow> kds_command \<Rightarrow> 'c kds_sched \<Rightarrow>
  (s32 \<times> kds_command \<times> 'c kds_sched) option" where
  "kds_cu_dispatch race domain i xcmd k =
     (case acquire_loop race 0 domain xcmd k of
        None \<Rightarrow> None
      | Some (idx, xcmd, k) \<Rightarrow>
          if sint idx < 0 then Some (idx, xcmd, k)
          else case xcus (mgmt domain k) (unat idx) of
            None \<Rightarrow> None
          | Some a \<Rightarrow>
              let x = xcu_at k a;
                  x = xrt_cu_submit i (x\<lparr>cmds := (cmds x)(i := xcmd)\<rparr>);
                  x = set_xcmd_timestamp i KDS_QUEUED x
              in Some (0, xcmd, k\<lparr>xcu_at := (xcu_at k)(a := x)\<rparr>))"

section \<open>Aborting a command\<close>

text \<open>
  Submitting a high priority command waits until the thread that serves the compute unit has
  processed it; \<open>serve\<close> is what that thread does until it completes. A unit without control
  protocol refuses the command without waiting.
\<close>

definition hpq_submit_wait :: "('c xrt_cu \<Rightarrow> 'c xrt_cu option) \<Rightarrow> nat \<Rightarrow> kds_command \<Rightarrow> 'c xrt_cu \<Rightarrow> 'c xrt_cu option" where
  "hpq_submit_wait serve i xcmd x =
     (let x = x\<lparr>cmds := (cmds x)(i := xcmd)\<rparr>; y = xrt_cu_hpq_submit i x in
      if xrt_cu_get_protocol x = CTRL_NONE then Some y
      else case serve y of None \<Rightarrow> None | Some z \<Rightarrow> hpq_wait z)"

fun abort_cus :: "('c xrt_cu \<Rightarrow> 'c xrt_cu option) \<Rightarrow> u32 \<Rightarrow> nat \<Rightarrow> nat list \<Rightarrow> kds_command \<Rightarrow> 'c kds_sched \<Rightarrow>
  'c kds_sched option" where
  "abort_cus serve domain i [] xcmd k = Some (report i KDS_ERROR k)"
| "abort_cus serve domain i (c # cs) xcmd k =
     (case xcus (mgmt domain k) c of
        None \<Rightarrow> abort_cus serve domain i cs xcmd k
      | Some a \<Rightarrow>
          case hpq_submit_wait serve i xcmd (xcu_at k a) of
            None \<Rightarrow> None
          | Some x \<Rightarrow>
              let xcmd = cmds x i; k = k\<lparr>xcu_at := (xcu_at k)(a := x)\<rparr> in
              if c_status xcmd = KDS_NEW then abort_cus serve domain i cs xcmd k
              else let k = (if c_status xcmd = KDS_TIMEOUT then k\<lparr>kds_bad_state := True\<rparr> else k)
                   in Some (report i (c_status xcmd) k))"

definition kds_cu_abort_cmd :: "('c xrt_cu \<Rightarrow> 'c xrt_cu option) \<Rightarrow> u32 \<Rightarrow> nat \<Rightarrow> kds_command \<Rightarrow> 'c kds_sched \<Rightarrow>
  'c kds_sched option" where
  "kds_cu_abort_cmd serve domain i xcmd k = abort_cus serve domain i [0..<MAX_CUS] xcmd k"

section \<open>Submission\<close>

text \<open>
  Soft kernel configuration clears the usage of the units of every image of the packet; an image
  has seven words, the first two are its first unit and its number of units. An index outside
  the table is undefined.
\<close>

fun clear_usage :: "nat list \<Rightarrow> 'c kds_sched \<Rightarrow> 'c kds_sched option" where
  "clear_usage [] k = Some k"
| "clear_usage (i # is) k =
     (if i < MAX_CUS then clear_usage is (k\<lparr>scu_mgmt := (scu_mgmt k)\<lparr>usage := (usage (scu_mgmt k))(i := 0)\<rparr>\<rparr>) else None)"

fun kds_scu_config :: "pkt_words \<Rightarrow> nat list \<Rightarrow> 'c kds_sched \<Rightarrow> 'c kds_sched option" where
  "kds_scu_config p [] k = Some k"
| "kds_scu_config p (i # is) k =
     (case clear_usage (map (\<lambda>j. unat (word_of_nat j + p (2 + 7 * i))) [0..<unat (p (3 + 7 * i))]) k of
        None \<Rightarrow> None | Some k \<Rightarrow> kds_scu_config p is k)"

definition kds_submit_cu :: "(nat \<Rightarrow> 'c kds_sched \<Rightarrow> 'c kds_sched) \<Rightarrow> ('c xrt_cu \<Rightarrow> 'c xrt_cu option) \<Rightarrow> u32 \<Rightarrow> nat \<Rightarrow>
  kds_command \<Rightarrow> 'c kds_sched \<Rightarrow> (s32 \<times> 'c kds_sched) option" where
  "kds_submit_cu race serve domain i xcmd k =
     (case c_opcode xcmd of
        OP_START \<Rightarrow> map_option (\<lambda>(ret, xcmd, k).
          (ret, if ret = 0 \<and> (ert_disable k \<or> xgq_enable k) then k\<lparr>polling_start := 1\<rparr> else k)) (kds_cu_dispatch race domain i xcmd k)
      | OP_START_SK \<Rightarrow> map_option (\<lambda>(ret, xcmd, k).
          (ret, if ret = 0 \<and> (ert_disable k \<or> xgq_enable k) then k\<lparr>polling_start := 1\<rparr> else k)) (kds_cu_dispatch race domain i xcmd k)
      | OP_CONFIG \<Rightarrow> Some (0, report i KDS_COMPLETED k)
      | OP_GET_STAT \<Rightarrow> Some (0, report i KDS_COMPLETED k)
      | OP_ABORT \<Rightarrow> map_option (Pair 0) (kds_cu_abort_cmd serve domain i xcmd k)
      | _ \<Rightarrow> Some (- EINVAL, k))"

text \<open>
  \<open>E\<close> is the driver of the embedded scheduler; calling a null function of it is undefined.
  The time stamp of the queued state is read from \<open>now\<close>.
\<close>

definition submit_ert :: "'c kds_sched kds_ert \<Rightarrow> u64 \<Rightarrow> nat \<Rightarrow> kds_command \<Rightarrow> 'c kds_sched \<Rightarrow> (s32 \<times> 'c kds_sched) option" where
  "submit_ert E now i xcmd k =
     (let xcmd = (if c_timestamp_enabled xcmd = 0 then xcmd
                  else xcmd\<lparr>c_timestamp := (c_timestamp xcmd)(KDS_QUEUED := now)\<rparr>)
      in case ert_submit E of None \<Rightarrow> None | Some f \<Rightarrow> Some (0, f i xcmd k))"

definition kds_submit_ert :: "'c kds_sched kds_ert \<Rightarrow> (nat \<Rightarrow> 'c kds_sched \<Rightarrow> 'c kds_sched) \<Rightarrow> u64 \<Rightarrow> pkt_words \<Rightarrow> nat \<Rightarrow>
  kds_command \<Rightarrow> 'c kds_sched \<Rightarrow> (s32 \<times> 'c kds_sched) option" where
  "kds_submit_ert E race now p i xcmd k =
     (case c_opcode xcmd of
        OP_START \<Rightarrow>
          (case acquire_loop race 0 DOMAIN_PL xcmd k of
             None \<Rightarrow> None
           | Some (idx, xcmd, k) \<Rightarrow> if sint idx < 0 then Some (idx, k) else submit_ert E now i xcmd k)
      | OP_CONFIG_SK \<Rightarrow>
          (case kds_scu_config p [0..<unat (p 1)] k of None \<Rightarrow> None | Some k \<Rightarrow> submit_ert E now i xcmd k)
      | OP_GET_STAT \<Rightarrow>
          if num_cus (scu_mgmt k) = 0 then Some (0, report i KDS_COMPLETED k) else submit_ert E now i xcmd k
      | OP_CONFIG \<Rightarrow> submit_ert E now i xcmd k
      | OP_START_SK \<Rightarrow> submit_ert E now i xcmd k
      | OP_CLK_CALIB \<Rightarrow> submit_ert E now i xcmd k
      | OP_VALIDATE \<Rightarrow> submit_ert E now i xcmd k
      | _ \<Rightarrow> Some (- EINVAL, k))"

definition kds_add_command :: "'c kds_sched kds_ert \<Rightarrow> (nat \<Rightarrow> 'c kds_sched \<Rightarrow> 'c kds_sched) \<Rightarrow>
  ('c xrt_cu \<Rightarrow> 'c xrt_cu option) \<Rightarrow> u64 \<Rightarrow> pkt_words \<Rightarrow> nat \<Rightarrow> kds_command \<Rightarrow> 'c kds_sched \<Rightarrow> (s32 \<times> 'c kds_sched) option" where
  "kds_add_command E race serve now p i xcmd k =
     map_option (\<lambda>(err, k). (err, if err \<noteq> 0 then report i KDS_ERROR k else k))
       (if c_type xcmd = KDS_CU then kds_submit_cu race serve DOMAIN_PL i xcmd k
        else if c_type xcmd = KDS_SCU then kds_submit_cu race serve DOMAIN_PS i xcmd k
        else if c_type xcmd = KDS_ERT then kds_submit_ert E race now p i xcmd k
        else Some (- EINVAL, k))"

section \<open>Contexts on compute units\<close>

definition excl_flag :: "u32 \<Rightarrow> bool" where
  "excl_flag v \<longleftrightarrow> v AND CU_EXCLU_MASK \<noteq> 0"

definition set_cu_refs :: "nat \<Rightarrow> u32 \<Rightarrow> kds_cu_mgmt \<Rightarrow> kds_cu_mgmt" where
  "set_cu_refs i v m = m\<lparr>cu_refs := (cu_refs m)(i := v)\<rparr>"

definition kds_add_cu_context :: "nat \<Rightarrow> nat \<Rightarrow> 'c kds_sched \<Rightarrow> s32 \<times> 'c kds_sched" where
  "kds_add_cu_context client x k =
     (let ctx = cu_ctx_at k x; i = unat (x_cu_idx ctx); domain = x_cu_domain ctx in
      if MAX_CUS \<le> i \<or> Option.is_none (xcus (mgmt domain k) i) then (- EINVAL, k)
      else case kds_test_and_refcnt_incr client domain i k of (cu_set, k) \<Rightarrow>
        if sint cu_set < 0 then (cu_set, k)
        else let shared = (x_flags ctx AND CU_CTX_PROP_MASK \<noteq> CU_CTX_EXCLUSIVE); refs = cu_refs (mgmt domain k) i in
          if excl_flag refs \<or> \<not> shared \<and> refs \<noteq> 0
          then case kds_test_and_refcnt_decr client domain i k of (r, k) \<Rightarrow> (if sint r < 0 then - EINVAL else - EBUSY, k)
          else (0, if \<not> shared then upd_mgmt domain (set_cu_refs i (refs OR CU_EXCLU_MASK)) k
                   else if cu_set = 0 then upd_mgmt domain (set_cu_refs i (refs + 1)) k else k))"

text \<open>
  Waiting for the outstanding commands of a closing context: \<open>env n\<close> is what happens during the
  \<open>n\<close>-th sleep. The embedded scheduler's driver without a synchronous abort is waited for
  without limit.
\<close>

function abort_wait :: "(nat \<Rightarrow> 'c kds_sched \<Rightarrow> 'c kds_sched) \<Rightarrow> ('c kds_sched \<Rightarrow> bool) \<Rightarrow> nat \<Rightarrow> int \<Rightarrow> 'c kds_sched \<Rightarrow> 'c kds_sched" where
  "abort_wait env busy n timeout_ms k =
     (let k = env n k; timeout_ms = timeout_ms - 500
      in if busy k \<and> timeout_ms > 0 then abort_wait env busy (Suc n) timeout_ms k else k)"
  by pat_completeness auto
termination
  by (relation "measure (\<lambda>(env, busy, n, t, k). nat t)") auto

declare abort_wait.simps [simp del]

partial_function (option) ert_abort_wait :: "(nat \<Rightarrow> 'c kds_sched \<Rightarrow> 'c kds_sched) \<Rightarrow> ('c kds_sched \<Rightarrow> bool) \<Rightarrow> nat \<Rightarrow>
  'c kds_sched \<Rightarrow> 'c kds_sched option" where
  "ert_abort_wait env busy n k =
     (let k = env n k in if busy k then ert_abort_wait env busy (Suc n) k else Some k)"

declare ert_abort_wait.simps [code]

definition abort_outstanding :: "'c kds_sched kds_ert \<Rightarrow> (nat \<Rightarrow> 'c kds_sched \<Rightarrow> 'c kds_sched) \<Rightarrow> nat \<Rightarrow> u32 \<Rightarrow> nat \<Rightarrow>
  ('c kds_sched \<Rightarrow> bool) \<Rightarrow> 'c kds_sched \<Rightarrow> (bool \<times> 'c kds_sched) option" where
  "abort_outstanding E env client domain i busy k =
     (if ert_disable k \<or> xgq_enable k
      then case xcus (mgmt domain k) i of
        None \<Rightarrow> None
      | Some a \<Rightarrow>
          let k = k\<lparr>xcu_at := (xcu_at k)(a := xrt_cu_abort client (xcu_at k a))\<rparr>;
              k = abort_wait env busy 0 2000 k;
              (bad, x) = xrt_cu_abort_done client (xcu_at k a)
          in Some (bad, k\<lparr>xcu_at := (xcu_at k)(a := x)\<rparr>)
      else case ert_abort_sync E of
        None \<Rightarrow>
          do {
            abort \<leftarrow> ert_abort E;
            k \<leftarrow> ert_abort_wait env busy 0 (abort client (word_of_nat i) k);
            fin \<leftarrow> ert_abort_done E;
            Some (fin client (word_of_nat i) k)
          }
      | Some sync \<Rightarrow>
          let k = abort_wait env busy 0 5000 k
          in Some (False, if busy k then sync client (word_of_nat i) k else k))"

definition kds_del_cu_context :: "'c kds_sched kds_ert \<Rightarrow> (nat \<Rightarrow> 'c kds_sched \<Rightarrow> 'c kds_sched) \<Rightarrow> nat \<Rightarrow> nat \<Rightarrow>
  'c kds_sched \<Rightarrow> (s32 \<times> 'c kds_sched) option" where
  "kds_del_cu_context E env client x k =
     (let ctx = cu_ctx_at k x; i = unat (x_cu_idx ctx); domain = x_cu_domain ctx in
      case x_hw_ctx ctx of
        None \<Rightarrow> Some (- EINVAL, k)
      | Some h \<Rightarrow>
          let hw_ctx = hw_ctx_idx (hw_ctx_at k h); busy = outstanding_cmds client domain hw_ctx i in
          if MAX_CUS \<le> i \<or> Option.is_none (xcus (mgmt domain k) i) then Some (- EINVAL, k)
          else case kds_test_and_refcnt_decr client domain i k of (cu_set, k) \<Rightarrow>
            if sint cu_set \<le> 0 then Some (- EINVAL, k)
            else case (if busy k then abort_outstanding E env client domain i busy k else Some (False, k)) of
              None \<Rightarrow> None
            | Some (bad, k) \<Rightarrow>
                let k = (if bad then k\<lparr>kds_bad_state := True\<rparr> else k); refs = cu_refs (mgmt domain k) i
                in Some (0, if excl_flag refs then upd_mgmt domain (set_cu_refs i 0) k
                            else if cu_set = 1 then upd_mgmt domain (set_cu_refs i (refs - 1)) k else k))"

text \<open>A virtual context reserves the first of the copy units, if there are any.\<close>

definition cdma_idx :: "'c kds_sched \<Rightarrow> nat" where
  "cdma_idx k = unat (num_cus (cu_mgmt k) - num_cdma (cu_mgmt k))"

definition upd_ctx :: "nat \<Rightarrow> (kds_client_cu_ctx \<Rightarrow> kds_client_cu_ctx) \<Rightarrow> 'c kds_sched \<Rightarrow> 'c kds_sched" where
  "upd_ctx x f k = k\<lparr>cu_ctx_at := (cu_ctx_at k)(x := f (cu_ctx_at k x))\<rparr>"

definition kds_add_context :: "nat \<Rightarrow> nat \<Rightarrow> 'c kds_sched \<Rightarrow> s32 \<times> 'c kds_sched" where
  "kds_add_context client x k =
     (let ctx = cu_ctx_at k x;
          opened = (\<lambda>k. (0, upd_ctx x (\<lambda>ctx. ctx\<lparr>x_ref_cnt := x_ref_cnt ctx + 1\<rparr>) k))
      in if x_cu_domain ctx = DOMAIN_VIRT
         then if x_flags ctx = CU_CTX_EXCLUSIVE then (- EINVAL, k)
              else if num_cdma (cu_mgmt k) \<noteq> 0 \<and> x_ref_cnt ctx = 0
              then let i = cdma_idx k in
                case kds_test_and_refcnt_incr client DOMAIN_PL i k of (r, k) \<Rightarrow>
                  if sint r < 0 then (- EINVAL, k)
                  else opened (upd_mgmt DOMAIN_PL (\<lambda>m. set_cu_refs i (cu_refs m i + 1) m) k)
              else opened k
         else if x_cu_domain ctx = DOMAIN_PL \<or> x_cu_domain ctx = DOMAIN_PS
         then case kds_add_cu_context client x k of (r, k) \<Rightarrow> if r \<noteq> 0 then (- EINVAL, k) else opened k
         else (- EINVAL, k))"

definition kds_del_context :: "'c kds_sched kds_ert \<Rightarrow> (nat \<Rightarrow> 'c kds_sched \<Rightarrow> 'c kds_sched) \<Rightarrow> nat \<Rightarrow> nat \<Rightarrow>
  'c kds_sched \<Rightarrow> (s32 \<times> 'c kds_sched) option" where
  "kds_del_context E env client x k =
     (let ctx = cu_ctx_at k x in
      if x_ref_cnt ctx = 0 then Some (- EINVAL, k)
      else let k = upd_ctx x (\<lambda>ctx. ctx\<lparr>x_ref_cnt := x_ref_cnt ctx - 1\<rparr>) k in
        if x_ref_cnt ctx \<noteq> 1 then Some (0, k)
        else if x_cu_domain ctx = DOMAIN_VIRT
        then if num_cdma (cu_mgmt k) \<noteq> 0
             then let i = cdma_idx k in
               case kds_test_and_refcnt_decr client DOMAIN_PL i k of (r, k) \<Rightarrow>
                 if sint r < 0 then Some (- EINVAL, k)
                 else case kds_test_and_refcnt_decr client DOMAIN_PL i k of (r, k) \<Rightarrow>
                   if r = 0 then Some (- EINVAL, k)
                   else Some (0, upd_mgmt DOMAIN_PL (\<lambda>m. set_cu_refs i (cu_refs m i - 1) m) k)
             else Some (0, k)
        else if x_cu_domain ctx = DOMAIN_PL \<or> x_cu_domain ctx = DOMAIN_PS
        then case kds_del_cu_context E env client x k of
          None \<Rightarrow> None | Some (r, k) \<Rightarrow> Some (if r \<noteq> 0 then - EINVAL else 0, k)
        else Some (- EINVAL, k))"

section \<open>Context objects\<close>

text \<open>
  Objects are allocated at a fresh address \<open>new\<close>; \<open>None\<close> is a failed allocation. The list
  of a context is that of the legacy context or of a hardware context.
\<close>

definition zero_client_stats :: client_stats where
  "zero_client_stats = \<lparr>s_cnt = (\<lambda>_. 0), c_cnt = (\<lambda>_. 0), scu_s_cnt = (\<lambda>_. 0), scu_c_cnt = (\<lambda>_. 0)\<rparr>"

definition upd_client :: "nat \<Rightarrow> (kds_client \<Rightarrow> kds_client) \<Rightarrow> 'c kds_sched \<Rightarrow> 'c kds_sched" where
  "upd_client client f k = k\<lparr>client_at := (client_at k)(client := f (client_at k client))\<rparr>"

definition same_cu :: "kds_client_cu_info \<Rightarrow> 'c kds_sched \<Rightarrow> nat \<Rightarrow> bool" where
  "same_cu info k x \<longleftrightarrow> x_cu_idx (cu_ctx_at k x) = i_cu_idx info \<and> x_cu_domain (cu_ctx_at k x) = i_cu_domain info"

text \<open>A lookup returns an error pointer, a null pointer or a context.\<close>

definition kds_get_cu_ctx :: "nat \<Rightarrow> kds_client_cu_info \<Rightarrow> 'c kds_sched \<Rightarrow> s32 + nat option" where
  "kds_get_cu_ctx client info k =
     (case cl_ctx (client_at k client) of None \<Rightarrow> Inl (- EINVAL) | Some xs \<Rightarrow> Inr (find (same_cu info k) xs))"

definition kds_initialize_cu_ctx :: "kds_client_cu_info \<Rightarrow> kds_client_cu_ctx" where
  "kds_initialize_cu_ctx info =
     \<lparr>x_cu_idx = i_cu_idx info, x_cu_domain = i_cu_domain info, x_flags = i_flags info, x_ref_cnt = 0, x_hw_ctx = None\<rparr>"

definition kds_alloc_cu_ctx :: "nat option \<Rightarrow> nat \<Rightarrow> kds_client_cu_info \<Rightarrow> 'c kds_sched \<Rightarrow> nat option \<times> 'c kds_sched" where
  "kds_alloc_cu_ctx new client info k =
     (case kds_get_cu_ctx client info k of
        Inl e \<Rightarrow> (None, k)
      | Inr (Some x) \<Rightarrow> (Some x, k)
      | Inr None \<Rightarrow>
          case new of
            None \<Rightarrow> (None, k)
          | Some x \<Rightarrow>
              (Some x, upd_ctx x (\<lambda>_. kds_initialize_cu_ctx info)
                 (upd_client client (\<lambda>c. c\<lparr>cl_ctx := map_option (\<lambda>xs. xs @ [x]) (cl_ctx c)\<rparr>) k)))"

definition upd_hw_ctx :: "nat \<Rightarrow> (kds_client_hw_ctx \<Rightarrow> kds_client_hw_ctx) \<Rightarrow> 'c kds_sched \<Rightarrow> 'c kds_sched" where
  "upd_hw_ctx h f k = k\<lparr>hw_ctx_at := (hw_ctx_at k)(h := f (hw_ctx_at k h))\<rparr>"

definition kds_get_cu_hw_ctx :: "nat option \<Rightarrow> kds_client_cu_info \<Rightarrow> 'c kds_sched \<Rightarrow> s32 + nat option" where
  "kds_get_cu_hw_ctx hw_ctx info k =
     (case hw_ctx of None \<Rightarrow> Inl (- EINVAL) | Some h \<Rightarrow> Inr (find (same_cu info k) (hw_cu_ctx_list (hw_ctx_at k h))))"

definition kds_initialize_cu_hw_ctx :: "kds_client_cu_info \<Rightarrow> kds_client_cu_ctx" where
  "kds_initialize_cu_hw_ctx info = (kds_initialize_cu_ctx info)\<lparr>x_hw_ctx := i_ctx info\<rparr>"

definition kds_alloc_cu_hw_ctx :: "nat option \<Rightarrow> nat option \<Rightarrow> kds_client_cu_info \<Rightarrow> 'c kds_sched \<Rightarrow> nat option \<times> 'c kds_sched" where
  "kds_alloc_cu_hw_ctx new hw_ctx info k =
     (case kds_get_cu_hw_ctx hw_ctx info k of
        Inl e \<Rightarrow> (None, k)
      | Inr (Some x) \<Rightarrow> (Some x, k)
      | Inr None \<Rightarrow>
          case new of
            None \<Rightarrow> (None, k)
          | Some x \<Rightarrow>
              (Some x, upd_ctx x (\<lambda>_. kds_initialize_cu_hw_ctx info)
                 (upd_hw_ctx (the hw_ctx) (\<lambda>c. c\<lparr>hw_cu_ctx_list := hw_cu_ctx_list c @ [x]\<rparr>) k)))"

text \<open>Unlinking a context takes it from the one list it is on.\<close>

definition unlink_ctx :: "nat \<Rightarrow> nat \<Rightarrow> 'c kds_sched \<Rightarrow> 'c kds_sched" where
  "unlink_ctx client x k =
     (let k = upd_client client (\<lambda>c. c\<lparr>cl_ctx := map_option (remove1 x) (cl_ctx c),
          cl_ctx_list := map (remove1 x) (cl_ctx_list c)\<rparr>) k
      in fold (\<lambda>h. upd_hw_ctx h (\<lambda>c. c\<lparr>hw_cu_ctx_list := remove1 x (hw_cu_ctx_list c)\<rparr>)) (cl_hw_ctx_list (client_at k client)) k)"

definition kds_free_cu_ctx :: "nat \<Rightarrow> nat option \<Rightarrow> 'c kds_sched \<Rightarrow> s32 \<times> 'c kds_sched" where
  "kds_free_cu_ctx client cu_ctx k =
     (case cu_ctx of
        None \<Rightarrow> (- EINVAL, k)
      | Some x \<Rightarrow> (0, if x_ref_cnt (cu_ctx_at k x) = 0 then unlink_ctx client x k else k))"

definition kds_get_hw_ctx_by_id :: "nat \<Rightarrow> u32 \<Rightarrow> 'c kds_sched \<Rightarrow> nat option" where
  "kds_get_hw_ctx_by_id client hw_ctx_id k =
     find (\<lambda>h. hw_ctx_idx (hw_ctx_at k h) = hw_ctx_id) (cl_hw_ctx_list (client_at k client))"

definition kds_alloc_hw_ctx :: "nat option \<Rightarrow> nat \<Rightarrow> u32 \<Rightarrow> 'c kds_sched \<Rightarrow> nat option \<times> 'c kds_sched" where
  "kds_alloc_hw_ctx new client slot_id k =
     (case new of
        None \<Rightarrow> (None, k)
      | Some h \<Rightarrow>
          (Some h, upd_hw_ctx h (\<lambda>_. \<lparr>hw_ctx_idx = next_hw_ctx_id (client_at k client), hw_slot_idx = slot_id,
               hw_cu_ctx_list = [], hw_graph_ctx_list = [], hw_stats = zero_client_stats\<rparr>)
             (upd_client client (\<lambda>c. c\<lparr>cl_hw_ctx_list := cl_hw_ctx_list c @ [h], next_hw_ctx_id := next_hw_ctx_id c + 1\<rparr>) k)))"

definition kds_free_hw_ctx :: "nat \<Rightarrow> nat option \<Rightarrow> 'c kds_sched \<Rightarrow> s32 \<times> 'c kds_sched" where
  "kds_free_hw_ctx client hw_ctx k =
     (case hw_ctx of
        None \<Rightarrow> (- EINVAL, k)
      | Some h \<Rightarrow>
          if hw_cu_ctx_list (hw_ctx_at k h) \<noteq> [] \<or> hw_graph_ctx_list (hw_ctx_at k h) \<noteq> [] then (- EINVAL, k)
          else (0, upd_client client (\<lambda>c. c\<lparr>cl_hw_ctx_list := remove1 h (cl_hw_ctx_list c)\<rparr>) k))"

section \<open>Clients\<close>

definition kds_init_client :: "bool \<Rightarrow> nat \<Rightarrow> 'c kds_sched \<Rightarrow> s32 \<times> 'c kds_sched" where
  "kds_init_client mem client k =
     (if \<not> mem then (- ENOMEM, k)
      else (0, (upd_client client (\<lambda>c. c\<lparr>refcnt := Some \<lparr>r_cu_refs = (\<lambda>_. 0), r_scu_refs = (\<lambda>_. 0)\<rparr>\<rparr>) k)
        \<lparr>clients := clients k @ [client], num_client := num_client k + 1\<rparr>))"

text \<open>Deleting a context until its count is zero, whatever the single deletions return.\<close>

partial_function (option) drain_ctx :: "'c kds_sched kds_ert \<Rightarrow> (nat \<Rightarrow> 'c kds_sched \<Rightarrow> 'c kds_sched) \<Rightarrow> nat \<Rightarrow> nat \<Rightarrow>
  'c kds_sched \<Rightarrow> 'c kds_sched option" where
  "drain_ctx E env client x k =
     (if x_ref_cnt (cu_ctx_at k x) = 0 then Some k
      else case kds_del_context E env client x k of None \<Rightarrow> None | Some (r, k) \<Rightarrow> drain_ctx E env client x k)"

declare drain_ctx.simps [code]

fun drain_list :: "'c kds_sched kds_ert \<Rightarrow> (nat \<Rightarrow> 'c kds_sched \<Rightarrow> 'c kds_sched) \<Rightarrow> nat \<Rightarrow> nat list \<Rightarrow>
  'c kds_sched \<Rightarrow> 'c kds_sched option" where
  "drain_list E env client [] k = Some k"
| "drain_list E env client (x # xs) k =
     (case drain_ctx E env client x k of
        None \<Rightarrow> None | Some k \<Rightarrow> drain_list E env client xs (snd (kds_free_cu_ctx client (Some x) k)))"

definition kds_fini_hw_ctx_client :: "'c kds_sched kds_ert \<Rightarrow> (nat \<Rightarrow> 'c kds_sched \<Rightarrow> 'c kds_sched) \<Rightarrow> nat \<Rightarrow> nat \<Rightarrow>
  'c kds_sched \<Rightarrow> 'c kds_sched option" where
  "kds_fini_hw_ctx_client E env client h k = drain_list E env client (hw_cu_ctx_list (hw_ctx_at k h)) k"

fun fini_hw_ctxs :: "'c kds_sched kds_ert \<Rightarrow> (nat \<Rightarrow> 'c kds_sched \<Rightarrow> 'c kds_sched) \<Rightarrow> nat \<Rightarrow> nat list \<Rightarrow>
  'c kds_sched \<Rightarrow> 'c kds_sched option" where
  "fini_hw_ctxs E env client [] k = Some k"
| "fini_hw_ctxs E env client (h # hs) k =
     (case kds_fini_hw_ctx_client E env client h k of None \<Rightarrow> None | Some k \<Rightarrow> fini_hw_ctxs E env client hs k)"

definition kds_fini_client_ctxs :: "'c kds_sched kds_ert \<Rightarrow> (nat \<Rightarrow> 'c kds_sched \<Rightarrow> 'c kds_sched) \<Rightarrow> nat \<Rightarrow>
  'c kds_sched \<Rightarrow> 'c kds_sched option" where
  "kds_fini_client_ctxs E env client k =
     (let c = client_at k client; legacy = (case cl_ctx c of None \<Rightarrow> [] | Some xs \<Rightarrow> xs) in
      case drain_list E env client (legacy @ concat (cl_ctx_list c)) k of
        None \<Rightarrow> None | Some k \<Rightarrow> fini_hw_ctxs E env client (cl_hw_ctx_list (client_at k client)) k)"

definition kds_fini_client :: "'c kds_sched kds_ert \<Rightarrow> (nat \<Rightarrow> 'c kds_sched \<Rightarrow> 'c kds_sched) \<Rightarrow> nat \<Rightarrow>
  'c kds_sched \<Rightarrow> 'c kds_sched option" where
  "kds_fini_client E env client k =
     (case kds_fini_client_ctxs E env client k of
        None \<Rightarrow> None
      | Some k \<Rightarrow>
          let c = client_at k client;
              k = (if cl_ctx c \<noteq> None \<or> cl_ctx_list c \<noteq> []
                   then snd (kds_free_hw_ctx client (kds_get_hw_ctx_by_id client DEFAULT_HW_CTX_ID k) k) else k);
              k = snd (kds_client_set_cu_refs_zero client DOMAIN_PS k);
              k = snd (kds_client_set_cu_refs_zero client DOMAIN_PL k);
              k = upd_client client (\<lambda>c. c\<lparr>refcnt := None\<rparr>) k
          in Some (k\<lparr>clients := remove1 client (clients k), num_client := num_client k - 1\<rparr>))"

text \<open>The number of lists of open contexts; while there are any, the xclbin cannot be replaced.\<close>

definition kds_live_clients :: "'c kds_sched \<Rightarrow> u32" where
  "kds_live_clients k = sum_list (map (\<lambda>client.
     let c = client_at k client in
     of_bool (case cl_ctx c of None \<Rightarrow> False | Some xs \<Rightarrow> xs \<noteq> []) +
     word_of_nat (length (filter (\<lambda>h. hw_cu_ctx_list (hw_ctx_at k h) \<noteq> []) (cl_hw_ctx_list c)))) (clients k))"

definition store_kds_echo :: "u32 option \<Rightarrow> 'c kds_sched \<Rightarrow> (s32 + bool)" where
  "store_kds_echo enable k =
     (if kds_live_clients k > 0 then Inl (- EBUSY)
      else case enable of None \<Rightarrow> Inl (- EINVAL) | Some v \<Rightarrow> if v > 1 then Inl (- EINVAL) else Inr (v = 1))"

section \<open>Compute units\<close>

definition insert_cu :: "nat \<Rightarrow> nat \<Rightarrow> u32 \<Rightarrow> kds_cu_mgmt \<Rightarrow> kds_cu_mgmt" where
  "insert_cu i a intr m =
     (let m = m\<lparr>xcus := (xcus m)(i := Some a)\<rparr> in if intr = M2M_CU_ID then m\<lparr>num_cdma := num_cdma m + 1\<rparr> else m)"

definition kds_add_cu :: "u32 \<Rightarrow> nat \<Rightarrow> 'c kds_sched \<Rightarrow> s32 \<times> 'c kds_sched" where
  "kds_add_cu domain a k =
     (let m = mgmt domain k in
      if sint (num_cus m) \<ge> int MAX_CUS then (- ENOMEM, k)
      else (0, case find (\<lambda>i. Option.is_none (xcus m i)) [0..<MAX_CUS] of
                 None \<Rightarrow> k
               | Some i \<Rightarrow>
                   (upd_mgmt domain (\<lambda>m. let m = insert_cu i a (intr_id (cu_info (xcu_at k a))) m
                      in m\<lparr>num_cus := num_cus m + 1\<rparr>) k)\<lparr>alive_cus := alive_cus k @ [a]\<rparr>))"

definition kds_del_cu :: "u32 \<Rightarrow> nat \<Rightarrow> 'c kds_sched \<Rightarrow> s32 \<times> 'c kds_sched" where
  "kds_del_cu domain a k =
     (let m = mgmt domain k in
      if num_cus m = 0 then (- EINVAL, k)
      else let k = (case find (\<lambda>i. xcus m i = Some a) [0..<MAX_CUS] of
                 None \<Rightarrow> k
               | Some i \<Rightarrow>
                   (upd_mgmt domain (\<lambda>m. m\<lparr>xcus := (xcus m)(i := None), cu_intr := (cu_intr m)(i := 0),
                      num_cus := num_cus m - 1, usage := (usage m)(i := 0)\<rparr>) k)\<lparr>alive_cus := remove1 a (alive_cus k)\<rparr>)
           in (0, if intr_id (cu_info (xcu_at k a)) = M2M_CU_ID
                  then upd_mgmt domain (\<lambda>m. m\<lparr>num_cdma := num_cdma m - 1\<rparr>) k else k))"

definition kds_get_cu_total :: "'c kds_sched \<Rightarrow> s32" where
  "kds_get_cu_total k = num_cus (cu_mgmt k)"

definition kds_get_cu_addr :: "nat \<Rightarrow> 'c kds_sched \<Rightarrow> u32 option" where
  "kds_get_cu_addr i k = map_option (\<lambda>a. ucast (addr (cu_info (xcu_at k a)))) (xcus (cu_mgmt k) i)"

definition kds_get_cu_proto :: "nat \<Rightarrow> 'c kds_sched \<Rightarrow> CU_PROTOCOL option" where
  "kds_get_cu_proto i k = map_option (\<lambda>a. protocol (cu_info (xcu_at k a))) (xcus (cu_mgmt k) i)"

definition get_cu_by_addr :: "u32 \<Rightarrow> 'c kds_sched \<Rightarrow> nat" where
  "get_cu_by_addr ad k =
     (case find (\<lambda>i. case xcus (cu_mgmt k) i of None \<Rightarrow> False | Some a \<Rightarrow> addr (cu_info (xcu_at k a)) = ucast ad) [0..<MAX_CUS] of
        None \<Rightarrow> MAX_CUS | Some i \<Rightarrow> i)"

text \<open>The index is a signed number; a negative one is not refused and reads before the table.\<close>

definition kds_map_cu_addr :: "nat \<Rightarrow> s32 \<Rightarrow> 'c kds_sched \<Rightarrow> (s32 + u32) option" where
  "kds_map_cu_addr client idx k =
     (let i = unat idx; m = cu_mgmt k in
      if sint idx < 0 then None
      else if MAX_CUS \<le> i then Some (Inl (- EINVAL))
      else case xcus m i of
        None \<Rightarrow> Some (Inl (- EINVAL))
      | Some a \<Rightarrow>
          if kds_test_refcnt client DOMAIN_PL i k = 0 then Some (Inl (- EINVAL))
          else if fst (read_regs k a) = 0 \<and> rw_shared m = 0 \<and> \<not> excl_flag (cu_refs m i) then Some (Inl (- EINVAL))
          else map_option Inr (kds_get_cu_addr i k))"

definition kds_set_cu_read_range :: "u32 \<Rightarrow> u32 \<Rightarrow> u32 \<Rightarrow> 'c kds_sched \<Rightarrow> (s32 \<times> 'c kds_sched) option" where
  "kds_set_cu_read_range cu start sz k =
     (let i = unat cu; m = cu_mgmt k in
      if MAX_CUS \<le> i \<or> sz mod 4 \<noteq> 0 \<or> start < 0x10 then Some (- EINVAL, k)
      else case xcus m i of
        None \<Rightarrow> None
      | Some a \<Rightarrow>
          if ucast (start + sz) > regs_size (cu_info (xcu_at k a)) \<or> excl_flag (cu_refs m i) then Some (- EINVAL, k)
          else Some (0, k\<lparr>read_regs := (read_regs k)(a := (start, start + sz - 1))\<rparr>))"

definition kds_get_max_regmap_size :: "'c kds_sched \<Rightarrow> s32" where
  "kds_get_max_regmap_size k =
     fold (\<lambda>i mx. case xcus (cu_mgmt k) i of
         None \<Rightarrow> mx
       | Some a \<Rightarrow> let sz = xrt_cu_regmap_size (xcu_at k a) in if sint mx < sint sz then sz else mx) [0..<MAX_CUS] 0"

section \<open>The scheduler\<close>

text \<open>The statistics are allocated; \<open>cu_refs\<close> and the counters are zero with the device structure.\<close>

definition kds_init_sched :: "bool \<Rightarrow> bool \<Rightarrow> 'c kds_sched \<Rightarrow> s32 \<times> 'c kds_sched" where
  "kds_init_sched mem mem' k =
     (let k = k\<lparr>cu_mgmt := (cu_mgmt k)\<lparr>xcus := (\<lambda>i. if i < MAX_CUS then None else xcus (cu_mgmt k) i)\<rparr>,
                scu_mgmt := (scu_mgmt k)\<lparr>xcus := (\<lambda>i. if i < MAX_CUS then None else xcus (scu_mgmt k) i)\<rparr>\<rparr>
      in if \<not> mem then (- ENOMEM, k)
         else let k = k\<lparr>cu_mgmt := (cu_mgmt k)\<lparr>usage := (\<lambda>_. 0)\<rparr>\<rparr> in
           if \<not> mem' then (- ENOMEM, k)
           else (0, k\<lparr>scu_mgmt := (scu_mgmt k)\<lparr>usage := (\<lambda>_. 0)\<rparr>, clients := [], alive_cus := [], num_client := 0,
             kds_bad_state := False, ert_disable := True, ini_disable := False, timestamp_set := False\<rparr>))"

definition kds_init_ert :: "'c kds_sched kds_ert \<Rightarrow> 'c kds_sched \<Rightarrow> 'c kds_sched kds_ert \<times> 'c kds_sched" where
  "kds_init_ert E k =
     (E\<lparr>ert_submit := (case ert_submit E of None \<Rightarrow> Some (\<lambda>i xcmd k. k) | f \<Rightarrow> f),
        ert_abort := (case ert_abort E of None \<Rightarrow> Some (\<lambda>client cu k. k) | f \<Rightarrow> f),
        ert_abort_done := (case ert_abort_done E of None \<Rightarrow> Some (\<lambda>client cu k. (False, k)) | f \<Rightarrow> f)\<rparr>,
      k\<lparr>has_ert := True, ert_disable := False\<rparr>)"

definition kds_fini_ert :: "'c kds_sched \<Rightarrow> 'c kds_sched" where
  "kds_fini_ert k = k\<lparr>ert_disable := True, has_ert := False\<rparr>"

definition kds_reset :: "'c kds_sched \<Rightarrow> 'c kds_sched" where
  "kds_reset k =
     (let k = k\<lparr>kds_bad_state := False, ini_disable := False, timestamp_set := False\<rparr>;
          k = (if has_ert k then k else k\<lparr>ert_disable := True\<rparr>)
      in if polling_thread k then k\<lparr>polling_stop := 1, polling_thread := False\<rparr> else k)"

definition is_bad_state :: "'c kds_sched \<Rightarrow> bool" where
  "is_bad_state k = kds_bad_state k"

definition kds_wake_up_poll :: "'c kds_sched \<Rightarrow> bool \<times> 'c kds_sched" where
  "kds_wake_up_poll k =
     (if polling_start k \<noteq> 0 then (True, k\<lparr>polling_start := 0\<rparr>) else (polling_stop k \<noteq> 0, k))"

text \<open>
  One round of the polling thread over the units without a thread of their own; the result tells
  whether one of them was busy. \<open>funcs\<close> gives the core implementation of each unit.
\<close>

fun poll_cus :: "(nat \<Rightarrow> 'c xcu_funcs) \<Rightarrow> nat list \<Rightarrow> bool \<Rightarrow> 'c kds_sched \<Rightarrow> (bool \<times> 'c kds_sched) option" where
  "poll_cus funcs [] busy k = Some (busy, k)"
| "poll_cus funcs (a # as) busy k =
     (if thread (xcu_at k a) then poll_cus funcs as busy k
      else case xrt_cu_process_queues (funcs a) (xcu_at k a) of
        None \<Rightarrow> None
      | Some (r, x) \<Rightarrow> poll_cus funcs as (busy \<or> r = XCU_BUSY) (k\<lparr>xcu_at := (xcu_at k)(a := x)\<rparr>))"

definition kds_polling_round :: "(nat \<Rightarrow> 'c xcu_funcs) \<Rightarrow> 'c kds_sched \<Rightarrow> (bool \<times> 'c kds_sched) option" where
  "kds_polling_round funcs k =
     (if polling_stop k \<noteq> 0 then Some (False, k) else poll_cus funcs (alive_cus k) False k)"

section \<open>Configuration\<close>

text \<open>The command memory is divided among the fast adapters, in the order of the table.\<close>

definition fa_units :: "'c kds_sched \<Rightarrow> nat list" where
  "fa_units k = filter (\<lambda>a. fst (xrt_is_fa (xcu_at k a))) (List.map_filter (xcus (cu_mgmt k)) [0..<MAX_CUS])"

fun fa_release :: "nat list \<Rightarrow> u32 \<Rightarrow> 'd xrt_cu_fa kds_sched \<Rightarrow> u32 \<times> 'd xrt_cu_fa kds_sched" where
  "fa_release [] total_sz k = (total_sz, k)"
| "fa_release (a # as) total_sz k =
     fa_release as (total_sz + cu_fa_get_desc_size (xcu_at k a))
       (k\<lparr>xcu_at := (xcu_at k)(a := snd (xrt_fa_cfg_update 0 0 None 0 (xcu_at k a)))\<rparr>)"

fun fa_assign :: "nat list \<Rightarrow> u64 \<Rightarrow> u64 \<Rightarrow> bytes \<Rightarrow> u32 \<Rightarrow> 'd xrt_cu_fa kds_sched \<Rightarrow> 'd xrt_cu_fa kds_sched" where
  "fa_assign [] bar_addr dev_addr vaddr num_slots k = k"
| "fa_assign (a # as) bar_addr dev_addr vaddr num_slots k =
     (let sz = ucast (cu_fa_get_desc_size (xcu_at k a)) * ucast num_slots :: u64 in
      fa_assign as (bar_addr + sz) (dev_addr + sz) (\<lambda>b. vaddr (unat sz + b)) num_slots
        (k\<lparr>xcu_at := (xcu_at k)(a := snd (xrt_fa_cfg_update bar_addr dev_addr (Some vaddr) num_slots (xcu_at k a)))\<rparr>))"

definition kds_fa_assign_cmdmem :: "'d xrt_cu_fa kds_sched \<Rightarrow> (s32 \<times> 'd xrt_cu_fa kds_sched) option" where
  "kds_fa_assign_cmdmem k =
     (case fa_release (fa_units k) 0 k of (total_sz, k) \<Rightarrow>
        let total_sz = round_up_to_next_power2 total_sz in
        if cm_size (cmdmem k) < total_sz then Some (- EINVAL, k)
        else if total_sz = 0 then None
        else let num_slots = cm_size (cmdmem k) div total_sz
             in Some (0, fa_assign (fa_units k) (cm_bar_paddr (cmdmem k)) (cm_dev_paddr (cmdmem k)) (cm_vaddr (cmdmem k)) num_slots k))"

text \<open>
  Threads of compute units: \<open>created a\<close> tells whether the thread of a unit can be created and
  \<open>join\<close> is what it does until it has stopped.
\<close>

definition set_intr :: "u32 \<Rightarrow> nat \<Rightarrow> u32 \<Rightarrow> 'c kds_sched \<Rightarrow> 'c kds_sched" where
  "set_intr domain i v k = upd_mgmt domain (\<lambda>m. m\<lparr>cu_intr := (cu_intr m)(i := v)\<rparr>) k"

definition kds_stop_all_cu_threads :: "('c xrt_cu \<Rightarrow> 'c xrt_cu) \<Rightarrow> u32 \<Rightarrow> 'c kds_sched \<Rightarrow> 'c kds_sched" where
  "kds_stop_all_cu_threads join domain k =
     fold (\<lambda>i k. case xcus (mgmt domain k) i of
         None \<Rightarrow> k
       | Some a \<Rightarrow> set_intr domain i 0 (k\<lparr>xcu_at := (xcu_at k)(a := xrt_cu_stop_thread join (xcu_at k a))\<rparr>)) [0..<MAX_CUS] k"

fun start_cu_threads :: "(nat \<Rightarrow> 'c xcu_funcs) \<Rightarrow> (nat \<Rightarrow> bool) \<Rightarrow> u32 \<Rightarrow> nat list \<Rightarrow> 'c kds_sched \<Rightarrow> bool \<times> 'c kds_sched" where
  "start_cu_threads funcs created domain [] k = (True, k)"
| "start_cu_threads funcs created domain (i # is) k =
     (case xcus (mgmt domain k) i of
        None \<Rightarrow> start_cu_threads funcs created domain is k
      | Some a \<Rightarrow>
          if cu_intr (mgmt domain k) i = 1 then start_cu_threads funcs created domain is k
          else case xrt_cu_start_thread (funcs a) (created a) (xcu_at k a) of (err, x) \<Rightarrow>
            let k = k\<lparr>xcu_at := (xcu_at k)(a := x)\<rparr> in
            if err \<noteq> 0 then (False, k) else start_cu_threads funcs created domain is (set_intr domain i 1 k))"

definition kds_start_all_cu_threads :: "(nat \<Rightarrow> 'c xcu_funcs) \<Rightarrow> (nat \<Rightarrow> bool) \<Rightarrow> ('c xrt_cu \<Rightarrow> 'c xrt_cu) \<Rightarrow> u32 \<Rightarrow>
  'c kds_sched \<Rightarrow> s32 \<times> 'c kds_sched" where
  "kds_start_all_cu_threads funcs created join domain k =
     (case start_cu_threads funcs created domain [0..<MAX_CUS] k of (ok, k) \<Rightarrow>
        if ok then (0, k) else (- EINVAL, kds_stop_all_cu_threads join domain k))"

text \<open>Starting the polling thread; the error of a failed start is the truth value of the test for it.\<close>

definition run_polling :: "bool \<Rightarrow> s32 \<Rightarrow> 'c kds_sched \<Rightarrow> s32 \<times> 'c kds_sched" where
  "run_polling started ret k =
     (if polling_thread k then (ret, k)
      else let k = k\<lparr>polling_stop := 0\<rparr> in if started then (ret, k\<lparr>polling_thread := True\<rparr>) else (1, k\<lparr>polling_thread := False\<rparr>))"

definition kds_cfg_xgq_update :: "(nat \<Rightarrow> 'c xcu_funcs) \<Rightarrow> (nat \<Rightarrow> bool) \<Rightarrow> ('c xrt_cu \<Rightarrow> 'c xrt_cu) \<Rightarrow> bool \<Rightarrow>
  'c kds_sched \<Rightarrow> s32 \<times> 'c kds_sched" where
  "kds_cfg_xgq_update funcs created join started k =
     (if force_polling k then run_polling started 0 k
      else if \<exists>i \<in> {0..<MAX_CUS}. case xcus (cu_mgmt k) i of None \<Rightarrow> False
          | Some a \<Rightarrow> protocol (cu_info (xcu_at k a)) \<noteq> CTRL_NONE \<and> \<not> xrt_cu_intr_supported (xcu_at k a)
      then (- ENOSYS, k)
      else case kds_start_all_cu_threads funcs created join DOMAIN_PL k of (ret, k) \<Rightarrow>
        if ret \<noteq> 0 then run_polling started ret k
        else case kds_start_all_cu_threads funcs created join DOMAIN_PS k of (ret, k) \<Rightarrow>
          if ret \<noteq> 0 then run_polling started ret (kds_stop_all_cu_threads join DOMAIN_PL k) else (0, k))"

definition KDS_SETTING :: "u32 \<Rightarrow> u32" where
  "KDS_SETTING v = v AND 0x7FFFFFFF"

fun intr_update :: "(nat \<Rightarrow> 'c xcu_funcs) \<Rightarrow> (nat \<Rightarrow> bool) \<Rightarrow> ('c xrt_cu \<Rightarrow> 'c xrt_cu) \<Rightarrow> nat list \<Rightarrow> s32 \<Rightarrow>
  'c kds_sched \<Rightarrow> s32 \<times> 'c kds_sched" where
  "intr_update funcs created join [] ret k = (ret, k)"
| "intr_update funcs created join (i # is) ret k =
     (let intr = KDS_SETTING (kds_cu_intr k) in
      case xcus (cu_mgmt k) i of
        None \<Rightarrow> intr_update funcs created join is ret k
      | Some a \<Rightarrow>
          if cu_intr (cu_mgmt k) i = intr then intr_update funcs created join is ret k
          else case xrt_cu_cfg_update (funcs a) join (created a) (intr \<noteq> 0) (xcu_at k a) of (ret, x) \<Rightarrow>
            let k = k\<lparr>xcu_at := (xcu_at k)(a := x)\<rparr> in
            if ret = 0 then intr_update funcs created join is ret (set_intr DOMAIN_PL i intr k)
            else if ret = - ENOSYS then intr_update funcs created join is 0 (set_intr DOMAIN_PL i 0 k)
            else intr_update funcs created join is ret k)"

definition kds_cfg_legacy_update :: "(nat \<Rightarrow> 'd xrt_cu_fa xcu_funcs) \<Rightarrow> (nat \<Rightarrow> bool) \<Rightarrow>
  ('d xrt_cu_fa xrt_cu \<Rightarrow> 'd xrt_cu_fa xrt_cu) \<Rightarrow> bool \<Rightarrow> 'd xrt_cu_fa kds_sched \<Rightarrow> (s32 \<times> 'd xrt_cu_fa kds_sched) option" where
  "kds_cfg_legacy_update funcs created join started k =
     (let poll = (\<lambda>ret k. if polling_thread k then (ret, k)
            else if KDS_SETTING (kds_cu_intr k) = 0 \<or> num_cus (scu_mgmt k) \<noteq> 0 then run_polling started ret k else (ret, k));
          rest = (\<lambda>k. if cu_intr_cap k = 0 then poll 0 k
            else if \<exists>i \<in> {0..<MAX_CUS}. case xcus (cu_mgmt k) i of None \<Rightarrow> False | Some a \<Rightarrow> \<not> intr_enable (cu_info (xcu_at k a))
            then poll 0 (k\<lparr>kds_cu_intr := 0\<rparr>)
            else case intr_update funcs created join [0..<MAX_CUS] 0 k of (ret, k) \<Rightarrow> poll ret k)
      in if cm_bo (cmdmem k)
         then case kds_fa_assign_cmdmem k of
           None \<Rightarrow> None
         | Some (ret, k) \<Rightarrow> if ret \<noteq> 0 then Some (- EINVAL, k) else Some (rest (k\<lparr>ert_disable := True\<rparr>))
         else Some (rest k))"

definition kds_cfg_update :: "(nat \<Rightarrow> 'd xrt_cu_fa xcu_funcs) \<Rightarrow> (nat \<Rightarrow> bool) \<Rightarrow>
  ('d xrt_cu_fa xrt_cu \<Rightarrow> 'd xrt_cu_fa xrt_cu) \<Rightarrow> bool \<Rightarrow> 'd xrt_cu_fa kds_sched \<Rightarrow> (s32 \<times> 'd xrt_cu_fa kds_sched) option" where
  "kds_cfg_update funcs created join started k =
     (if xgq_enable k then Some (kds_cfg_xgq_update funcs created join started k)
      else kds_cfg_legacy_update funcs created join started k)"

text \<open>
  Opening a compute unit for user management; \<open>manage\<close> is the interrupt operation of the unit's
  driver, which may be null, and \<open>fd\<close> the descriptor the kernel gives out. The code reads the
  number of submitted commands a second time after marking the unit; no command is submitted in
  between here.
\<close>

definition EOPNOTSUPP :: s32 where "EOPNOTSUPP = 95"

definition kds_open_ucu :: "nat option \<Rightarrow> (nat \<Rightarrow> 'c kds_sched \<Rightarrow> s32 \<times> 'c kds_sched) option \<Rightarrow> s32 \<Rightarrow> nat \<Rightarrow> u32 \<Rightarrow>
  'c kds_sched \<Rightarrow> s32 \<times> 'c kds_sched" where
  "kds_open_ucu new manage fd client cu k =
     (let i = unat cu; m = cu_mgmt k in
      if MAX_CUS \<le> i then (- EINVAL, k)
      else case xcus m i of
        None \<Rightarrow> (- EINVAL, k)
      | Some a \<Rightarrow>
          if sint (kds_test_refcnt client DOMAIN_PL i k) \<le> 0 then (- EINVAL, k)
          else if \<not> excl_flag (cu_refs m i) then (- EINVAL, k)
          else case kds_alloc_hw_ctx new client 0 (upd_client client (\<lambda>c. c\<lparr>next_hw_ctx_id := 0\<rparr>) k) of
            (None, k) \<Rightarrow> (- EINVAL, k)
          | (Some h, k) \<Rightarrow>
              let hw = hw_ctx_idx (hw_ctx_at k h);
                  k = (if client_stat_read client hw (\<lambda>st. s_cnt st i) k = 0 then k\<lparr>is_ucu := (is_ucu k)(a := True)\<rparr> else k)
              in case manage of
                None \<Rightarrow> (- EOPNOTSUPP, k)
              | Some f \<Rightarrow> (case f a k of (r, k) \<Rightarrow> if r \<noteq> 0 then (- EINVAL, k) else (fd, k)))"

definition kds_ucu_release :: "(nat \<Rightarrow> 'c kds_sched \<Rightarrow> 'c kds_sched) \<Rightarrow> nat \<Rightarrow> 'c kds_sched \<Rightarrow> 'c kds_sched" where
  "kds_ucu_release unmanage a k = (let k = unmanage a k in k\<lparr>is_ucu := (is_ucu k)(a := False)\<rparr>)"

end
