(* ===== verification/Kds_Correct.thy ===== *)
theory Kds_Correct
  imports Kds_Fa
begin

text \<open>
  Properties of the compute units of the kernel driver scheduler, for the two core
  implementations: what a run keeps, in which order and with which status commands are reported,
  that they are reported at all, and how aborts behave.
\<close>

section \<open>Initial states\<close>

text \<open>A compute unit as the sub-device drivers allocate it: all fields zero but the information.\<close>

definition zero_stats :: xrt_cu_stats where
  "zero_stats = \<lparr>stats_tick = 0, stats_enabled = 0, last_ts_status = 0, max_sq_length = 0, sq_total = 0, sq_count = 0,
     idle = 0, last_timestamp = 0, last_read_idle_start = 0, last_idle_total = 0, usage_prev = 0, usage_curr = 0,
     idle_total = 0, idle_start = 0, idle_end = 0\<rparr>"

definition zero_xcu :: "xrt_cu_info \<Rightarrow> (nat \<Rightarrow> u64) \<Rightarrow> cmd_store \<Rightarrow> 'c \<Rightarrow> 'c xrt_cu" where
  "zero_xcu info clk h c = \<lparr>cu_info = info, cmds = h, pq = [], num_pq = 0, hpq = [], num_hpq = 0, completion = 0,
     rq = [], num_rq = 0, num_sq = 0, cq = [], num_cq = 0, sem = 0, sem_cu = 0, core = c, stop = 0, bad_state = False,
     done_cnt = 0, ready_cnt = 0, status = 0, rcode = 0, events = [], tick = 0, start_tick = 0, force_intr = 0,
     stats = zero_stats, thread = False, poll_count = 0, poll_threshold = 0, interrupt_used = 0, sleep_cnt = 0,
     max_running = 0, debug = False, crc_head = 0, crc_tail = 0,
     log_buf = (\<lambda>_. \<lparr>lg_stage = 0, lg_cmd_id = 0, lg_ts = 0\<rparr>), ktime = clk, ktime_pos = 0, notified = [],
     pc = Exited, loop_cnt = 0, thread_ret = 0\<rparr>"

lemma xrt_cu_init_queues:
  "xrt_cu_init (zero_xcu info clk h c\<lparr>status := v, core := c'\<rparr>) = (e, x) \<Longrightarrow>
     pq x = [] \<and> num_pq x = 0 \<and> hpq x = [] \<and> num_hpq x = 0 \<and> rq x = [] \<and> num_rq x = 0 \<and> num_sq x = 0 \<and> cq x = [] \<and>
     num_cq x = 0 \<and> events x = [] \<and> notified x = [] \<and> ready_cnt x = 0 \<and> core x = c' \<and> bad_state x = False \<and>
     crc_head x = 0 \<and> crc_tail x = 0"
  by (auto simp: xrt_cu_init_def zero_xcu_def xrt_cu_init_ecmd_and_sq_count_def Let_def split: if_splits)

lemma hls_init_fresh:
  assumes "xrt_cu_hls_init io True (Some d) (zero_xcu info clk h c) = (e, x)"
  shows "queues_ok hls_submitted hls_completed x" and "quiet S hls_submitted hls_completed x"
    and "flow hls_submitted hls_completed x = []" and "hls_max_credits (core x) = 1" and "hls_credits (core x) = 1"
    and "ready_cnt x = 0" and "notified x = []" and "outstanding hls_submitted hls_completed x = []"
proof -
  let ?c = "\<lparr>hls_vaddr = d, hls_max_credits = 1, hls_credits = 1, hls_run_cnts = 0,
    hls_ctrl_chain = (protocol info = CTRL_CHAIN), hls_sw_reset = sw_reset info, hls_done = 0,
    hls_submitted = [], hls_completed = []\<rparr>"
  obtain v d' where r: "io_read io HLS_CTRL d = (v, d')" by fastforce
  have "x = (zero_xcu info clk h c)\<lparr>core := ?c\<rparr> \<or>
    xrt_cu_init (zero_xcu info clk h c\<lparr>status := v, core := ?c\<lparr>hls_vaddr := d'\<rparr>\<rparr>) = (e, x)"
    using assms r by (cases "protocol info = CTRL_NONE") (simp_all add: xrt_cu_hls_init_def zero_xcu_def hls_read32_def)
  then have "pq x = [] \<and> num_pq x = 0 \<and> hpq x = [] \<and> num_hpq x = 0 \<and> rq x = [] \<and> num_rq x = 0 \<and> num_sq x = 0 \<and>
    cq x = [] \<and> num_cq x = 0 \<and> events x = [] \<and> notified x = [] \<and> ready_cnt x = 0 \<and> (\<exists>w. core x = ?c\<lparr>hls_vaddr := w\<rparr>)"
  proof
    assume "x = (zero_xcu info clk h c)\<lparr>core := ?c\<rparr>"
    then show ?thesis by (simp add: zero_xcu_def)
  next
    assume "xrt_cu_init (zero_xcu info clk h c\<lparr>status := v, core := ?c\<lparr>hls_vaddr := d'\<rparr>\<rparr>) = (e, x)"
    from xrt_cu_init_queues [OF this] show ?thesis by auto
  qed
  then show "queues_ok hls_submitted hls_completed x" "quiet S hls_submitted hls_completed x"
    "flow hls_submitted hls_completed x = []" "hls_max_credits (core x) = 1" "hls_credits (core x) = 1"
    "ready_cnt x = 0" "notified x = []" "outstanding hls_submitted hls_completed x = []"
    by (auto simp: queues_ok_def quiet_def flow_def outstanding_def)
qed

lemma fa_init_fresh:
  assumes "xrt_cu_fa_init io True (Some d) (zero_xcu info clk h c) = (e, x)"
  shows "queues_ok fa_submitted fa_completed x" and "quiet S fa_submitted fa_completed x"
    and "flow fa_submitted fa_completed x = []"
proof -
  obtain c' where "core x = c'" "fa_submitted c' = []" "fa_completed c' = []"
    and i: "xrt_cu_init (zero_xcu info clk h c\<lparr>status := 0, core := c'\<rparr>) = (e, x)"
    using assms by (auto simp: xrt_cu_fa_init_def zero_xcu_def xrt_cu_init_def Let_def xrt_cu_init_ecmd_and_sq_count_def
        split: prod.splits if_splits)
  then show "queues_ok fa_submitted fa_completed x" "quiet S fa_submitted fa_completed x"
    "flow fa_submitted fa_completed x = []"
    using xrt_cu_init_queues [OF i] by (simp_all add: queues_ok_def quiet_def flow_def outstanding_def)
qed

abbreviation hls_held :: "'d xrt_cu_hls \<Rightarrow> nat list" where
  "hls_held \<equiv> \<lambda>c. hls_completed c @ hls_submitted c"

abbreviation fa_held :: "'d xrt_cu_fa \<Rightarrow> nat list" where
  "fa_held \<equiv> \<lambda>c. fa_completed c @ fa_submitted c"

text \<open>
  A concrete unit for the examples: an HLS core that has finished as soon as it is started, whose
  done bit is cleared by reading it, and the commands of two clients.
\<close>

definition fast_io :: "bool io" where
  "fast_io = \<lparr>io_read = (\<lambda>r d. if r = HLS_CTRL then (if d then CU_AP_DONE else CU_AP_IDLE, False) else (0, d)),
     io_write = (\<lambda>r v d. if r = HLS_CTRL then v = CU_AP_START else d)\<rparr>"

definition some_info :: xrt_cu_info where
  "some_info = \<lparr>model = XCU_HLS, cu_idx = 0, addr = 0, regs_size = 0x1000, protocol = CTRL_HS, intr_id = 0, intr_enable = False,
     sw_reset = True, args = [], iname = ''cu'', kname = ''k''\<rparr>"

definition some_cmd :: "nat \<Rightarrow> kds_command" where
  "some_cmd client = \<lparr>c_client = client, c_status = KDS_NEW, c_rcode = 0, c_cu_idx = 0, c_hw_ctx_id = 0, c_type = 0,
     c_opcode = OP_START, c_payload_type = REGMAP, c_info = [7, 8], c_isize = 8, c_timestamp_enabled = 0,
     c_timestamp = (\<lambda>_. 0), c_cu_mask = [1], c_num_mask = 1, c_exec_bo_handle = 0\<rparr>"

definition abort_cmd :: "nat \<Rightarrow> kds_command" where
  "abort_cmd client = (some_cmd client)\<lparr>c_opcode := OP_ABORT, c_info := [0]\<rparr>"

definition hls_core :: "bool xrt_cu_hls" where
  "hls_core = \<lparr>hls_vaddr = False, hls_max_credits = 0, hls_credits = 0, hls_run_cnts = 0, hls_ctrl_chain = False,
     hls_sw_reset = False, hls_done = 0, hls_submitted = [], hls_completed = []\<rparr>"

definition hls_unit :: "bool xrt_cu_hls xrt_cu" where
  "hls_unit = snd (xrt_cu_hls_init fast_io True (Some False) (zero_xcu some_info (\<lambda>_. 0) (\<lambda>_. some_cmd 0) hls_core))"

definition some_run :: "cu_event list" where
  "some_run = [Submit 1 (some_cmd 5), Submit 2 (some_cmd 6), Poll, Poll, Poll, Submit 3 (some_cmd 5), Poll, Submit 4 (some_cmd 6)]"

lemma hls_unit_init:
  "\<exists>e. xrt_cu_hls_init fast_io True (Some False) (zero_xcu some_info (\<lambda>_. 0) (\<lambda>_. some_cmd 0) hls_core) = (e, hls_unit)"
  by (metis hls_unit_def prod.collapse)

text \<open>A fast adapter with a queue of four descriptors that finishes what it is given.\<close>

definition fifo_io :: "u32 io" where
  "fifo_io = \<lparr>io_read = (\<lambda>r d. (if r = FA_TCR then d else if r = FA_FDR then 4 else 0, d)),
     io_write = (\<lambda>r v d. if r = FA_LSWR then d + 1 else d)\<rparr>"

definition fa_core :: "u32 xrt_cu_fa" where
  "fa_core = \<lparr>fa_vaddr = 0, fa_cmdmem = None, fa_paddr = 0, fa_slot_sz = 0, fa_num_slots = 0, fa_head_slot = 0,
     fa_desc_msw = 0, fa_task_cnt = 0, fa_max_credits = 0, fa_credits = 0, fa_run_cnts = 0, fa_check_count = 0,
     fa_submitted = [], fa_completed = []\<rparr>"

definition fa_unit :: "u32 xrt_cu_fa xrt_cu" where
  "fa_unit = snd (xrt_cu_fa_init fifo_io True (Some 0)
     (zero_xcu (some_info\<lparr>model := XCU_FA, protocol := CTRL_FA\<rparr>) (\<lambda>_. 0) (\<lambda>_. some_cmd 0) fa_core))"

lemma fa_unit_init:
  "\<exists>e. xrt_cu_fa_init fifo_io True (Some 0)
     (zero_xcu (some_info\<lparr>model := XCU_FA, protocol := CTRL_FA\<rparr>) (\<lambda>_. 0) (\<lambda>_. some_cmd 0) fa_core) = (e, fa_unit)"
  by (metis fa_unit_def prod.collapse)

lemma hls_run_ok:
  assumes "cu_run (xrt_cu_hls_funcs fast_io echo) hls_held es hls_unit = Some y"
  shows "queues_ok hls_submitted hls_completed y"
proof -
  obtain e where "xrt_cu_hls_init fast_io True (Some False)
      (zero_xcu some_info (\<lambda>_. 0) (\<lambda>_. some_cmd 0) hls_core) = (e, hls_unit)" using hls_unit_init ..
  then show ?thesis using hls.cu_run_spec [OF hls_init_fresh(1) assms] by blast
qed

lemma fa_run_ok:
  assumes "cu_run (xrt_cu_fa_funcs fifo_io echo) fa_held es fa_unit = Some y"
  shows "queues_ok fa_submitted fa_completed y"
proof -
  obtain e where "xrt_cu_fa_init fifo_io True (Some 0)
      (zero_xcu (some_info\<lparr>model := XCU_FA, protocol := CTRL_FA\<rparr>) (\<lambda>_. 0) (\<lambda>_. some_cmd 0) fa_core) = (e, fa_unit)"
    using fa_unit_init ..
  then show ?thesis using fa.cu_run_spec [OF fa_init_fresh(1) assms] by blast
qed

section \<open>What every run keeps\<close>



text \<open>
  C2: No command is lost, duplicated or invented: at any time the commands reported to the host
  together with those still in a queue or in the core are exactly the submitted ones, each as
  often as it was submitted. In particular each submission is reported at most once.
\<close>

theorem cu_commands_conserved:
  assumes "xrt_cu_hls_init io True (Some d) (zero_xcu info clk h c) = (e, x)"
    and "cu_run (xrt_cu_hls_funcs io echo) hls_held es x = Some y"
  shows "mset (map fst (notified y)) + mset (outstanding hls_submitted hls_completed y) = mset (submits es)"
proof -
  have "mset (flow hls_submitted hls_completed y) = mset (flow hls_submitted hls_completed x) + mset (submits es)"
    using hls.cu_run_spec [OF hls_init_fresh(1) [OF assms(1)] assms(2)] by blast
  then show ?thesis using hls_init_fresh(3) [OF assms(1)] by (simp add: flow_def)
qed

theorem cu_commands_conserved_witness:
  "\<exists>y. cu_run (xrt_cu_hls_funcs fast_io False) hls_held (some_run @ [Abort 5, Poll]) hls_unit = Some y \<and>
     notified y = [(1, KDS_COMPLETED), (2, KDS_COMPLETED), (3, KDS_COMPLETED)] \<and>
     mset (map fst (notified y)) + mset (outstanding hls_submitted hls_completed y) = {#1, 2, 3, 4#}"
proof -
  let ?r = "cu_run (xrt_cu_hls_funcs fast_io False) hls_held (some_run @ [Abort 5, Poll]) hls_unit"
  have "map_option notified ?r = Some [(1, KDS_COMPLETED), (2, KDS_COMPLETED), (3, KDS_COMPLETED)]" by code_simp
  then obtain y where y: "?r = Some y" "notified y = [(1, KDS_COMPLETED), (2, KDS_COMPLETED), (3, KDS_COMPLETED)]"
    by (auto simp: map_option_eq_Some)
  from hls_unit_init obtain e where "xrt_cu_hls_init fast_io True (Some False)
    (zero_xcu some_info (\<lambda>_. 0) (\<lambda>_. some_cmd 0) hls_core) = (e, hls_unit)" ..
  from cu_commands_conserved [OF this y(1)] y show ?thesis by (simp add: some_run_def)
qed

text \<open>
  C9: Without aborts commands are reported in the order of submission and always as completed:
  the reported commands, followed by the completed queue, the core's completed and running
  commands, the run queue and the pending queue, are the submitted commands in order.
\<close>

theorem cu_fifo:
  assumes "xrt_cu_hls_init io True (Some d) (zero_xcu info clk h c) = (e, x)"
    and "cu_run (xrt_cu_hls_funcs io echo) hls_held es x = Some y" and "\<forall>ev \<in> set es. \<not> is_abort ev"
  shows "map fst (notified y) @ cq y @ hls_completed (core y) @ hls_submitted (core y) @ rq y @ pq y = submits es \<and>
    snd ` set (notified y) \<subseteq> {KDS_COMPLETED}"
proof -
  have "flow hls_submitted hls_completed y = flow hls_submitted hls_completed x @ submits es \<and>
    quiet {KDS_COMPLETED} hls_submitted hls_completed y"
    using hls.cu_run_spec [OF hls_init_fresh(1) [OF assms(1)] assms(2)] hls_init_fresh(2) [OF assms(1)] assms(3) by blast
  then show ?thesis using hls_init_fresh(3) [OF assms(1)] by (simp add: flow_def outstanding_def quiet_def)
qed

theorem cu_fifo_witness:
  "\<exists>y. cu_run (xrt_cu_hls_funcs fast_io False) hls_held some_run hls_unit = Some y \<and> length (notified y) = 2 \<and>
     map fst (notified y) @ cq y @ hls_completed (core y) @ hls_submitted (core y) @ rq y @ pq y = [1, 2, 3, 4]"
proof -
  let ?r = "cu_run (xrt_cu_hls_funcs fast_io False) hls_held some_run hls_unit"
  have "map_option (\<lambda>y. length (notified y)) ?r = Some 2" by code_simp
  then obtain y where y: "?r = Some y" "length (notified y) = 2" by (auto simp: map_option_eq_Some)
  from hls_unit_init obtain e where e: "xrt_cu_hls_init fast_io True (Some False)
    (zero_xcu some_info (\<lambda>_. 0) (\<lambda>_. some_cmd 0) hls_core) = (e, hls_unit)" ..
  have "\<forall>ev \<in> set some_run. \<not> is_abort ev" by (simp add: some_run_def)
  from cu_fifo [OF e y(1) this] y show ?thesis by (simp add: some_run_def)
qed

section \<open>Progress\<close>

text \<open>
  C13: In echo mode, where an HLS compute unit finishes a command with each check, every command is
  reported: after any mix of submissions and polls, four passes of the queue processing per
  outstanding command are enough to report all of them, in order and as completed, and then the
  processing says that it is idle.
\<close>

theorem cu_echo_drains:
  assumes "xrt_cu_hls_init io True (Some d) (zero_xcu info clk h c) = (e, x)"
    and "\<forall>ev \<in> set es. ev = Poll \<or> (\<exists>i k. ev = Submit i k)"
    and "cu_run (xrt_cu_hls_funcs io True) hls_held es x = Some y"
    and "4 * length (outstanding hls_submitted hls_completed y) \<le> n"
  shows "\<exists>z. cu_passes (xrt_cu_hls_funcs io True) n y = Some z \<and> map fst (notified z) = submits es \<and>
    snd ` set (notified z) \<subseteq> {KDS_COMPLETED} \<and> outstanding hls_submitted hls_completed z = [] \<and>
    (\<exists>z'. xrt_cu_process_queues (xrt_cu_hls_funcs io True) z = Some (XCU_IDLE, z'))"
proof -
  note f = hls_init_fresh [OF assms(1)]
  have "rq x @ pq x = []" using f(8) by (simp add: outstanding_def)
  moreover have "fn_peek_credit (xrt_cu_hls_funcs io True) (core x) \<noteq> 0"
    using f(5) by (simp add: xrt_cu_hls_funcs_def cu_hls_peek_credit_def)
  ultimately have "hls_echo.resting io x" unfolding hls_echo.resting_def using f(1,2,4,5,6) by simp
  moreover have "\<forall>ev \<in> set es. ev = Poll \<or> (\<exists>i k. ev = Submit i k \<and> hls_payload_ok True k)"
    using assms(2) by (simp add: hls_payload_ok_def)
  ultimately have "hls_echo.resting io y" using hls_echo.polled_run_resting assms(3) by blast
  from hls_echo.passes_report_all [OF this assms(4)] obtain z where
    z: "cu_passes (xrt_cu_hls_funcs io True) n y = Some z" "outstanding hls_submitted hls_completed z = []"
      "map fst (notified z) = map fst (notified y) @ outstanding hls_submitted hls_completed y"
      "snd ` set (notified z) \<subseteq> {KDS_COMPLETED}"
      "\<exists>z'. xrt_cu_process_queues (xrt_cu_hls_funcs io True) z = Some (XCU_IDLE, z')" by blast
  have "\<forall>ev \<in> set es. \<not> is_abort ev" using assms(2) by auto
  then have "flow hls_submitted hls_completed y = submits es"
    using hls.cu_run_spec [OF f(1) assms(3)] f(2,3) by simp
  with z show ?thesis by (auto simp: flow_def)
qed

theorem cu_echo_drains_witness:
  "\<exists>y z. cu_run (xrt_cu_hls_funcs fast_io True) hls_held some_run hls_unit = Some y \<and>
     cu_passes (xrt_cu_hls_funcs fast_io True) 8 y = Some z \<and> map fst (notified z) = [1, 2, 3, 4] \<and>
     snd ` set (notified z) \<subseteq> {KDS_COMPLETED}"
proof -
  let ?r = "cu_run (xrt_cu_hls_funcs fast_io True) hls_held some_run hls_unit"
  have "map_option (\<lambda>y. length (outstanding hls_submitted hls_completed y)) ?r = Some 2" by code_simp
  then obtain y where y: "?r = Some y" "length (outstanding hls_submitted hls_completed y) = 2"
    by (auto simp: map_option_eq_Some)
  from hls_unit_init obtain e where e: "xrt_cu_hls_init fast_io True (Some False)
    (zero_xcu some_info (\<lambda>_. 0) (\<lambda>_. some_cmd 0) hls_core) = (e, hls_unit)" ..
  have "\<forall>ev \<in> set some_run. ev = Poll \<or> (\<exists>i k. ev = Submit i k)" by (simp add: some_run_def)
  from cu_echo_drains [OF e this y(1), of 8] y obtain z where
    "cu_passes (xrt_cu_hls_funcs fast_io True) 8 y = Some z" "map fst (notified z) = submits some_run"
    "snd ` set (notified z) \<subseteq> {KDS_COMPLETED}" by auto
  with y(1) show ?thesis by (simp add: some_run_def)
qed

text \<open>
  C12: One pass of the queue processing always ends: in every state a run can reach, provided the
  queued commands carry the words that their size announces and queued aborts a handle.
\<close>

theorem process_queues_ends:
  assumes "xrt_cu_hls_init io True (Some d) (zero_xcu info clk h c) = (e, x)"
    and "cu_run (xrt_cu_hls_funcs io echo) hls_held es x = Some y"
    and "\<forall>i \<in> set (rq y @ pq y). hls_payload_ok echo (cmds y i)"
    and "\<forall>a \<in> set (hpq y). c_opcode (cmds y a) = OP_ABORT \<longrightarrow> c_info (cmds y a) \<noteq> []"
  shows "\<exists>r z. xrt_cu_process_queues (xrt_cu_hls_funcs io echo) y = Some (r, z)"
proof -
  have "queues_ok hls_submitted hls_completed y"
    using hls.cu_run_spec [OF hls_init_fresh(1) [OF assms(1)] assms(2)] by blast
  from hls.process_queues_returns [OF this assms(3,4)] show ?thesis .
qed

theorem process_queues_ends_witness:
  "\<exists>y r z. cu_run (xrt_cu_hls_funcs fast_io False) hls_held [Submit 1 (some_cmd 5), Hpq_submit 9 (abort_cmd 5)] hls_unit
       = Some y \<and> xrt_cu_process_queues (xrt_cu_hls_funcs fast_io False) y = Some (r, z)"
proof -
  let ?r = "cu_run (xrt_cu_hls_funcs fast_io False) hls_held [Submit 1 (some_cmd 5), Hpq_submit 9 (abort_cmd 5)] hls_unit"
  have "map_option (\<lambda>y. (rq y @ pq y, hpq y, c_payload_type (cmds y 1), c_isize (cmds y 1), c_info (cmds y 1),
      c_info (cmds y 9))) ?r = Some ([1], [9], REGMAP, 8, [7, 8], [0])" by code_simp
  then obtain y where y: "?r = Some y" "rq y @ pq y = [1]" "hpq y = [9]" "c_payload_type (cmds y 1) = REGMAP"
    "c_isize (cmds y 1) = 8" "c_info (cmds y 1) = [7, 8]" "c_info (cmds y 9) = [0]" by (auto simp: map_option_eq_Some)
  from hls_unit_init obtain e where e: "xrt_cu_hls_init fast_io True (Some False)
    (zero_xcu some_info (\<lambda>_. 0) (\<lambda>_. some_cmd 0) hls_core) = (e, hls_unit)" ..
  have "hls_payload_ok False (cmds y 1)"
    using y by (simp add: hls_payload_ok_def REGMAP_def KEY_VAL_def XGQ_CMD_def)
  then have "\<forall>i \<in> set (rq y @ pq y). hls_payload_ok False (cmds y i)" unfolding y(2) by simp
  moreover have "\<forall>a \<in> set (hpq y). c_opcode (cmds y a) = OP_ABORT \<longrightarrow> c_info (cmds y a) \<noteq> []" using y(3,7) by simp
  ultimately show ?thesis using process_queues_ends [OF e y(1)] y(1) by blast
qed

section \<open>Aborts\<close>

text \<open>
  C11: When a client closes, its queued commands are not run: with the closing client first on the
  event list, the run queue keeps exactly the commands of other clients (none if the unit is in a
  bad state), in order, the others are reported as aborted right after what was already completed,
  and the hardware is not touched.
\<close>

theorem closing_client_aborts:
  assumes "queues_ok sub fin x" and "rq x \<noteq> []" and "events x = client # evs"
    and "D = (\<lambda>i. c_client (cmds x i) = client \<or> bad_state x)"
  shows "\<exists>y z. process_rq F x = Some (False, y) \<and> process_cq y = Some z \<and>
    notified z = notified x @ map (\<lambda>i. (i, c_status (cmds x i))) (cq x) @ map (\<lambda>i. (i, KDS_ABORT)) (filter D (rq x)) \<and>
    rq z = filter (\<lambda>i. \<not> D i) (rq x) \<and> cq z = [] \<and> core z = core x"
proof -
  let ?ks = "filter D (rq x)"
  let ?y = "x\<lparr>cmds := fold (set_status KDS_ABORT) ?ks (cmds x), rq := filter (\<lambda>i. \<not> D i) (rq x),
    cq := cq x @ ?ks, num_cq := num_cq x + word_of_nat (length ?ks), num_rq := num_rq x - word_of_nat (length ?ks)\<rparr>"
  have d: "distinct (rq x)" and dj: "set (cq x) \<inter> set (rq x) = {}" and l: "length (cq x) + length (rq x) < 2 ^ 32"
    and nc: "num_cq x = word_of_nat (length (cq x))" and nr: "num_rq x = word_of_nat (length (rq x))"
    using assms(1) by (auto simp: queues_ok_def outstanding_def)
  have "num_rq x \<noteq> 0" using assms(2) l nr counter_zero [of "length (rq x)"] by simp
  then have y: "process_rq F x = Some (False, ?y)"
    using fold_abort_queued [of x "[]" "rq x" D client] d assms(3,4)
    by (simp add: process_rq_def first_event_client_or_null_def)
  have st: "c_status (fold (set_status KDS_ABORT) ks g i) = (if i \<in> set ks then KDS_ABORT else c_status (g i))" for ks g i
    by (induction ks arbitrary: g) auto
  have "length (cq ?y) = length (cq x) + length ?ks" by simp
  then have "length (cq ?y) < 2 ^ 32" using l length_filter_le [of D "rq x"] by linarith
  moreover have "num_cq ?y = word_of_nat (length (cq ?y))" using nc by simp
  ultimately obtain z where z: "process_cq ?y = Some z"
    "noisy (?y\<lparr>cq := [], num_cq := 0, notified := notified ?y @ map (\<lambda>i. (i, c_status (cmds ?y i))) (cq ?y),
      bad_state := (if cq ?y = [] then bad_state ?y else c_status (cmds ?y (last (cq ?y))) = KDS_SKCRASHED)\<rparr>) z"
    using process_cq_spec [of ?y] by blast
  have "notified z = notified x @ map (\<lambda>i. (i, c_status (cmds x i))) (cq x) @ map (\<lambda>i. (i, KDS_ABORT)) ?ks"
    using z(2) dj by (auto simp: noisy_def st)
  moreover have "rq z = filter (\<lambda>i. \<not> D i) (rq x)" "cq z = []" "core z = core x" using z(2) by (simp_all add: noisy_def)
  ultimately show ?thesis using y z(1) by (intro exI [of _ ?y] exI [of _ z]) simp
qed

theorem closing_client_aborts_witness:
  "\<exists>x y z. cu_run (xrt_cu_hls_funcs fast_io False) hls_held
       [Submit 1 (some_cmd 5), Submit 2 (some_cmd 6), Submit 3 (some_cmd 5), Poll, Abort 5] hls_unit = Some x \<and>
     process_rq (xrt_cu_hls_funcs fast_io False) x = Some (False, y) \<and> process_cq y = Some z \<and>
     notified z = [(1, KDS_COMPLETED), (3, KDS_ABORT)] \<and> rq z = [2]"
proof -
  let ?r = "cu_run (xrt_cu_hls_funcs fast_io False) hls_held
    [Submit 1 (some_cmd 5), Submit 2 (some_cmd 6), Submit 3 (some_cmd 5), Poll, Abort 5] hls_unit"
  have "map_option (\<lambda>x. (rq x, events x, bad_state x, notified x, cq x, c_status (cmds x 1), c_client (cmds x 2),
    c_client (cmds x 3))) ?r = Some ([2, 3], [5], False, [], [1], KDS_COMPLETED, 6, 5)" by code_simp
  then obtain x where x: "?r = Some x" "rq x = [2, 3]" "events x = [5]" "\<not> bad_state x" "notified x = []" "cq x = [1]"
    "c_status (cmds x 1) = KDS_COMPLETED" "c_client (cmds x 2) = 6" "c_client (cmds x 3) = 5"
    by (auto simp: map_option_eq_Some)
  have "rq x \<noteq> []" using x(2) by simp
  from closing_client_aborts [OF hls_run_ok [OF x(1)] this x(3) refl] x show ?thesis by fastforce
qed

text \<open>
  C33: Reporting completed commands replaces the bad state of a compute unit by whether the last
  one crashed. A bad state that a failed abort has just set is therefore lost with the next
  completed command, and a closing client is told that the unit is fine.
\<close>

theorem bad_state_forgotten:
  assumes "queues_ok sub fin x" and "bad_state x" and "cq x \<noteq> []"
    and "c_status (cmds x (last (cq x))) \<noteq> KDS_SKCRASHED"
  shows "\<exists>y. process_cq x = Some y \<and> fst (xrt_cu_abort_done client y) = False"
proof -
  have "num_cq x = word_of_nat (length (cq x))" "length (cq x) < 2 ^ 32"
    using assms(1) by (auto simp: queues_ok_def outstanding_def)
  from process_cq_spec [OF this] show ?thesis using assms(3,4) by (auto simp: noisy_def xrt_cu_abort_done_def)
qed

theorem bad_state_forgotten_witness:
  "\<exists>x y. cu_run (xrt_cu_fa_funcs fifo_io False) fa_held
       [Submit 1 (some_cmd 5), Poll, Poll, Hpq_submit 9 (abort_cmd 5), Poll] fa_unit = Some x \<and> bad_state x \<and>
     process_cq x = Some y \<and> fst (xrt_cu_abort_done 5 y) = False"
proof -
  let ?r = "cu_run (xrt_cu_fa_funcs fifo_io False) fa_held
    [Submit 1 (some_cmd 5), Poll, Poll, Hpq_submit 9 (abort_cmd 5), Poll] fa_unit"
  have "map_option (\<lambda>x. (bad_state x, cq x, c_status (cmds x 1))) ?r = Some (True, [1], KDS_TIMEOUT)" by code_simp
  then obtain x where x: "?r = Some x" "bad_state x" "cq x = [1]" "c_status (cmds x 1) = KDS_TIMEOUT"
    by (auto simp: map_option_eq_Some)
  have "queues_ok fa_submitted fa_completed x" using x(1) by (rule fa_run_ok)
  from bad_state_forgotten [OF this x(2), of 5] x show ?thesis by auto
qed

text \<open>
  However many high priority commands are queued, processing them wakes a single waiter.
  Their submitters each wait for a completion of their own, so when two abort commands are
  processed together one of the submitters is not woken.
\<close>

theorem hpq_wakes_one_waiter:
  assumes "queues_ok hls_submitted hls_completed x" and "hpq x = a # as"
    and "process_hpq (xrt_cu_hls_funcs io echo) x = Some y"
  shows "hpq y = [] \<and> completion y = completion x + 1"
  using hls.process_hpq_wakes_once [OF assms(1) _ assms(3)] assms(2) by simp

theorem hpq_wakes_one_waiter_witness:
  "\<exists>x y. cu_run (xrt_cu_hls_funcs fast_io False) hls_held [Hpq_submit 8 (abort_cmd 5), Hpq_submit 9 (abort_cmd 6)] hls_unit
       = Some x \<and> hpq x = [8, 9] \<and> completion x = 0 \<and>
     process_hpq (xrt_cu_hls_funcs fast_io False) x = Some y \<and> hpq y = [] \<and> completion y = 1"
proof -
  let ?r = "cu_run (xrt_cu_hls_funcs fast_io False) hls_held [Hpq_submit 8 (abort_cmd 5), Hpq_submit 9 (abort_cmd 6)] hls_unit"
  have "map_option (\<lambda>x. (hpq x, completion x, Option.is_none (process_hpq (xrt_cu_hls_funcs fast_io False) x))) ?r
    = Some ([8, 9], 0, False)" by code_simp
  then obtain x y where x: "?r = Some x" "hpq x = [8, 9]" "completion x = 0"
    "process_hpq (xrt_cu_hls_funcs fast_io False) x = Some y" by (auto simp: map_option_eq_Some Option.is_none_def)
  from hpq_wakes_one_waiter [OF hls_run_ok [OF x(1)] x(2,4)] x show ?thesis by auto
qed

lemma reset_wait_time:
  assumes "hls_reset_wait io time c = (t, c')" and "0 < time" and "1000 dvd time"
  shows "0 \<le> t"
  using assms
proof (induction io time c rule: hls_reset_wait.induct)
  case (1 io time c)
  obtain fin d where d: "cu_hls_reset_done io c = (fin, d)" by fastforce
  have "1000 \<le> time" using 1(3,4) by (auto elim!: dvdE)
  moreover have "1000 dvd time - 1000" using 1(4) by simp
  moreover have "t = time - 1000 \<or> 0 < time - 1000 \<and> \<not> fin \<and> hls_reset_wait io (time - 1000) d = (t, c')"
    using 1(2) d unfolding hls_reset_wait.simps [of io time c] by (auto simp: Let_def split: if_splits)
  ultimately show ?case using 1(1) d by auto
qed

text \<open>
  C34: Aborting on an HLS compute unit with software reset always succeeds, also when the reset
  never completes: the polling loop ends with a time of zero, which counts as done. All credits
  are then given back, although a running command that the abort does not match stays submitted;
  the next command can be started while it is still in the list, and the next completion of the
  unit is credited to it.
\<close>

theorem hls_abort_always_succeeds:
  assumes "hls_sw_reset c"
  shows "\<exists>h' c'. cu_hls_abort io match h c = (0, h', c') \<and> hls_credits c' = hls_max_credits c \<and>
    hls_submitted c' = filter (\<lambda>i. \<not> match (h i)) (hls_submitted c) \<and>
    hls_completed c' = hls_completed c @ filter (\<lambda>i. match (h i)) (hls_submitted c)"
proof -
  obtain t c1 where w: "hls_reset_wait io 10000000 (cu_hls_reset io c) = (t, c1)" by fastforce
  then have t: "0 \<le> t" by (rule reset_wait_time) simp_all
  obtain d where c1: "c1 = (cu_hls_reset io c)\<lparr>hls_vaddr := d\<rparr>" using reset_wait_keeps [OF w] by blast
  from w t c1 assms show ?thesis
    by (auto simp: cu_hls_abort_def cu_hls_reset_def hls_write32_def Let_def)
qed

theorem hls_abort_always_succeeds_witness:
  "\<exists>h' c'. cu_hls_abort \<lparr>io_read = (\<lambda>r d. (CU_AP_SW_RESET, d)), io_write = (\<lambda>r v d. d)\<rparr> (\<lambda>k. c_client k = 5)
       ((\<lambda>_. some_cmd 5)(2 := some_cmd 6))
       (hls_core\<lparr>hls_sw_reset := True, hls_max_credits := 1, hls_submitted := [1, 2]\<rparr>) = (0, h', c') \<and>
     hls_credits c' = 1 \<and> hls_submitted c' = [2] \<and> hls_completed c' = [1]"
  using hls_abort_always_succeeds [of "hls_core\<lparr>hls_sw_reset := True, hls_max_credits := 1, hls_submitted := [1, 2]\<rparr>"
      "\<lparr>io_read = (\<lambda>r d. (CU_AP_SW_RESET, d)), io_write = (\<lambda>r v d. d)\<rparr>" "\<lambda>k. c_client k = 5"
      "(\<lambda>_. some_cmd 5)(2 := some_cmd 6)"]
  by (simp add: hls_core_def some_cmd_def)

text \<open>
  C35: A command that the core refuses blocks the compute unit: with credit available and an XGQ
  payload of an unknown opcode at its head, submitting as many commands as possible leaves the
  run queue, the core's commands and the completed queue as they are. The command is neither run
  nor reported, and nothing behind it is.
\<close>

theorem refused_command_blocks:
  assumes "queues_ok hls_submitted hls_completed x" and "rq x = i # is'" and "events x = []"
    and "hls_credits (core x) \<noteq> 0" and "c_payload_type (cmds x i) = XGQ_CMD" and "c_info (cmds x i) = w # ws"
    and "xgq_opcode w \<noteq> XGQ_CMD_OP_START_CUIDX" and "xgq_opcode w \<noteq> XGQ_CMD_OP_START_CUIDX_KV"
  shows "\<exists>y. process_rq_loop (xrt_cu_hls_funcs io False) x = Some y \<and> rq y = rq x \<and> cq y = cq x \<and>
    hls_submitted (core y) = hls_submitted (core x) \<and> hls_completed (core y) = hls_completed (core x)"
proof -
  let ?F = "xrt_cu_hls_funcs io False" and ?c = "(core x)\<lparr>hls_credits := hls_credits (core x) - 1\<rparr>"
  have n: "num_rq x \<noteq> 0" using assms(1,2) counter_Suc [of "length is'"] by (simp add: queues_ok_def outstanding_def)
  have "xrt_cu_get_credit ?F x = (hls_credits (core x), x\<lparr>core := ?c\<rparr>)"
    using assms(4) by (simp add: xrt_cu_get_credit_def xrt_cu_hls_funcs_def cu_hls_alloc_credit_def)
  moreover have "xrt_cu_submit_config ?F i (x\<lparr>core := ?c\<rparr>) = Some (- EINVAL, x\<lparr>core := ?c\<rparr>)"
    using assms(5-8)
    by (simp add: xrt_cu_submit_config_def xrt_cu_hls_funcs_def cu_hls_submit_config_def cu_hls_configure_def
        word_at_def EINVAL_def REGMAP_def KEY_VAL_def XGQ_CMD_def)
  ultimately have r: "process_rq ?F x = Some (False, xrt_cu_put_credit ?F 1 (x\<lparr>core := ?c\<rparr>))"
    using n assms(2-4) by (simp add: process_rq_def first_event_client_or_null_def EINVAL_def)
  have "process_rq_loop ?F x = Some (xrt_cu_put_credit ?F 1 (x\<lparr>core := ?c\<rparr>))"
    by (subst process_rq_loop.simps) (simp add: r)
  then show ?thesis
    by (simp add: xrt_cu_put_credit_def xrt_cu_hls_funcs_def cu_hls_free_credit_def Let_def)
qed

theorem refused_command_blocks_witness:
  "\<exists>x y. cu_run (xrt_cu_hls_funcs fast_io False) hls_held
       [Submit 1 (some_cmd 5), Submit 2 ((some_cmd 6)\<lparr>c_payload_type := XGQ_CMD\<rparr>), Submit 3 (some_cmd 5), Poll, Poll] hls_unit
       = Some x \<and>
     process_rq_loop (xrt_cu_hls_funcs fast_io False) x = Some y \<and> rq y = [2, 3] \<and> cq y = cq x"
proof -
  let ?r = "cu_run (xrt_cu_hls_funcs fast_io False) hls_held
    [Submit 1 (some_cmd 5), Submit 2 ((some_cmd 6)\<lparr>c_payload_type := XGQ_CMD\<rparr>), Submit 3 (some_cmd 5), Poll, Poll] hls_unit"
  have "map_option (\<lambda>x. (rq x, events x, hls_credits (core x), c_payload_type (cmds x 2), c_info (cmds x 2))) ?r
    = Some ([2, 3], [], 1, XGQ_CMD, [7, 8])" by code_simp
  then obtain x where x: "?r = Some x" "rq x = [2, 3]" "events x = []" "hls_credits (core x) = 1"
    "c_payload_type (cmds x 2) = XGQ_CMD" "c_info (cmds x 2) = [7, 8]" by (auto simp: map_option_eq_Some)
  have "hls_credits (core x) \<noteq> 0" using x(4) by simp
  moreover have "xgq_opcode 7 \<noteq> XGQ_CMD_OP_START_CUIDX" "xgq_opcode 7 \<noteq> XGQ_CMD_OP_START_CUIDX_KV" by code_simp+
  ultimately show ?thesis using refused_command_blocks [OF hls_run_ok [OF x(1)] x(2,3) _ x(5,6)] x(1,2) by metis
qed

section \<open>The fast adapter\<close>

text \<open>In echo mode a check of the fast adapter finishes nothing.\<close>

interpretation fa_echo: cu_core "xrt_cu_fa_funcs io True" fa_submitted fa_completed "{}"
  for io :: "'d io"
proof
  fix c c' :: "'d xrt_cu_fa" and st st' h h' force
  show "fn_check (xrt_cu_fa_funcs io True) force st h c = (st', h', c') \<Longrightarrow> \<exists>ks. fa_submitted c = ks @ fa_submitted c' \<and>
      fa_completed c' = fa_completed c @ ks \<and> results_only (set ks) h h' \<and> (\<forall>i \<in> set ks. c_status (h' i) \<in> {})"
    by (auto simp: xrt_cu_fa_funcs_def cu_fa_check_def)
qed (rule fa.alloc_keeps fa.free_keeps fa.start_keeps fa.enable_keeps fa.disable_keeps fa.clear_keeps
      fa.submit_adds fa.complete_pops fa.abort_finishes; assumption)+

text \<open>
  C36: A compute unit with a fast adapter reports nothing in echo mode: whatever is submitted and
  however often the queues are processed, without an abort no command is ever reported, because
  the check counts a command as done but does not move it to the completed list. The commands all
  stay outstanding, in order.
\<close>

theorem fa_echo_reports_nothing:
  assumes "xrt_cu_fa_init io True (Some d) (zero_xcu info clk h c) = (e, x)"
    and "cu_run (xrt_cu_fa_funcs io True) fa_held es x = Some y" and "\<forall>ev \<in> set es. \<not> is_abort ev"
  shows "notified y = [] \<and> fa_submitted (core y) @ rq y @ pq y = submits es"
proof -
  note f = fa_init_fresh [OF assms(1)]
  have q: "flow fa_submitted fa_completed y = submits es" "quiet {} fa_submitted fa_completed y"
    using fa_echo.cu_run_spec [OF f(1) assms(2)] f(2,3) assms(3) by simp_all
  have "\<not> (\<exists>i. i \<in> set (cq y @ fa_completed (core y)))" using q(2) by (auto simp: quiet_def)
  then have "cq y @ fa_completed (core y) = []" unfolding ex_in_conv by simp
  then show ?thesis using q by (simp add: flow_def outstanding_def quiet_def)
qed

theorem fa_echo_reports_nothing_witness:
  "\<exists>y. cu_run (xrt_cu_fa_funcs fifo_io True) fa_held [Submit 1 (some_cmd 5), Poll, Submit 2 (some_cmd 6), Poll, Poll] fa_unit
       = Some y \<and> notified y = [] \<and> fa_submitted (core y) @ rq y @ pq y = [1, 2]"
proof -
  let ?es = "[Submit 1 (some_cmd 5), Poll, Submit 2 (some_cmd 6), Poll, Poll]"
  let ?r = "cu_run (xrt_cu_fa_funcs fifo_io True) fa_held ?es fa_unit"
  have "map_option notified ?r = Some []" by code_simp
  then obtain y where y: "?r = Some y" by (auto simp: map_option_eq_Some)
  from fa_unit_init obtain e where e: "xrt_cu_fa_init fifo_io True (Some 0)
    (zero_xcu (some_info\<lparr>model := XCU_FA, protocol := CTRL_FA\<rparr>) (\<lambda>_. 0) (\<lambda>_. some_cmd 0) fa_core) = (e, fa_unit)" ..
  have "\<forall>ev \<in> set ?es. \<not> is_abort ev" by simp
  from fa_echo_reports_nothing [OF e y this] y show ?thesis by simp
qed

end
