(* ===== verification/Kds_Context.thy ===== *)
theory Kds_Context
  imports Kds_Core Kds_Correct
begin

text \<open>
  Reservation of compute units. Every operation of the scheduler core is an event of a run; the
  invariant relates, for each compute unit, the references of the clients with the word in which
  the scheduler keeps their number and the exclusive flag. It shows that an exclusively reserved
  unit has a single holder and gets commands from that client only.
\<close>

section \<open>Runs\<close>

text \<open>
  What a run depends on besides the scheduler: the driver of the embedded scheduler, what other
  threads do while an operation waits, the thread that serves a unit, and the core
  implementations. The drivers bind a context to the hardware context it counts its commands in
  before they open it.
\<close>

record 'c kds_world =
  w_ert :: "'c kds_sched kds_ert"
  w_env :: "nat \<Rightarrow> 'c kds_sched \<Rightarrow> 'c kds_sched"
  w_race :: "nat \<Rightarrow> 'c kds_sched \<Rightarrow> 'c kds_sched"
  w_serve :: "'c xrt_cu \<Rightarrow> 'c xrt_cu option"
  w_funcs :: "nat \<Rightarrow> 'c xcu_funcs"

datatype kds_event = Client_init nat | Client_fini nat | Hw_alloc nat nat u32 | Hw_free nat nat
  | Ctx_alloc nat nat kds_client_cu_info | Hw_ctx_alloc nat nat kds_client_cu_info | Ctx_free nat nat
  | Ctx_bind nat nat | Ctx_open nat nat | Ctx_close nat nat | Command u64 nat kds_command pkt_words | Poll_round | Read_range u32 u32 u32

fun kds_exec :: "'c kds_world \<Rightarrow> kds_event \<Rightarrow> 'c kds_sched \<Rightarrow> 'c kds_sched option" where
  "kds_exec w (Client_init c) k = Some (snd (kds_init_client True c k))"
| "kds_exec w (Client_fini c) k = kds_fini_client (w_ert w) (w_env w) c k"
| "kds_exec w (Hw_alloc c h slot) k = Some (snd (kds_alloc_hw_ctx (Some h) c slot k))"
| "kds_exec w (Hw_free c h) k = Some (snd (kds_free_hw_ctx c (Some h) k))"
| "kds_exec w (Ctx_alloc c x info) k = Some (snd (kds_alloc_cu_ctx (Some x) c info k))"
| "kds_exec w (Hw_ctx_alloc h x info) k = Some (snd (kds_alloc_cu_hw_ctx (Some x) (Some h) info k))"
| "kds_exec w (Ctx_free c x) k = Some (snd (kds_free_cu_ctx c (Some x) k))"
| "kds_exec w (Ctx_bind x h) k = Some (upd_ctx x (\<lambda>ctx. ctx\<lparr>x_hw_ctx := Some h\<rparr>) k)"
| "kds_exec w (Ctx_open c x) k = Some (snd (kds_add_context c x k))"
| "kds_exec w (Ctx_close c x) k = map_option snd (kds_del_context (w_ert w) (w_env w) c x k)"
| "kds_exec w (Command now i xcmd p) k = map_option snd (kds_add_command (w_ert w) (w_race w) (w_serve w) now p i xcmd k)"
| "kds_exec w Poll_round k = map_option snd (kds_polling_round (w_funcs w) k)"
| "kds_exec w (Read_range cu start sz) k = map_option snd (kds_set_cu_read_range cu start sz k)"

fun kds_run :: "'c kds_world \<Rightarrow> kds_event list \<Rightarrow> 'c kds_sched \<Rightarrow> 'c kds_sched option" where
  "kds_run w [] k = Some k"
| "kds_run w (e # es) k = (case kds_exec w e k of None \<Rightarrow> None | Some k \<Rightarrow> kds_run w es k)"

section \<open>Reservations\<close>

definition resv :: "'c kds_sched \<Rightarrow> (nat \<Rightarrow> kds_client_cu_refcnt option) \<times> (nat \<Rightarrow> u32) \<times> (nat \<Rightarrow> u32) \<times> s32" where
  "resv k = (\<lambda>c. refcnt (client_at k c), cu_refs (cu_mgmt k), cu_refs (scu_mgmt k), num_cdma (cu_mgmt k))"

text \<open>The reference count of a client on a unit; a client without counts has none.\<close>

definition refs_of :: "'c kds_sched \<Rightarrow> u32 \<Rightarrow> nat \<Rightarrow> nat \<Rightarrow> u32" where
  "refs_of k d c i = (case kds_client_domain_refcnt c d k of None \<Rightarrow> 0 | Some r \<Rightarrow> r i)"

text \<open>
  One unit: either the word is the exclusive flag alone and at most one client has a reference,
  a single one, or the word is at least the number of clients with references.
\<close>

definition cell_ok :: "nat \<Rightarrow> (nat \<Rightarrow> u32) \<Rightarrow> u32 \<Rightarrow> bool" where
  "cell_ok n r v \<longleftrightarrow> finite {c. r c \<noteq> 0} \<and>
     (if excl_flag v then v = CU_EXCLU_MASK \<and> (\<forall>c. r c \<le> 1) \<and> card {c. r c \<noteq> 0} \<le> 1
      else card {c. r c \<noteq> 0} \<le> unat v \<and> unat v \<le> n)"

definition ctx_ok :: "nat \<Rightarrow> 'c kds_sched \<Rightarrow> bool" where
  "ctx_ok n k \<longleftrightarrow> num_cdma (cu_mgmt k) = 0 \<and>
     (\<forall>d \<in> {DOMAIN_PL, DOMAIN_PS}. \<forall>i. cell_ok n (\<lambda>c. refs_of k d c i) (cu_refs (mgmt d k) i))"

text \<open>Waiting and racing threads, and the embedded scheduler's driver, make no reservations.\<close>

definition world_ok :: "'c kds_world \<Rightarrow> bool" where
  "world_ok w \<longleftrightarrow> (\<forall>n k. resv (w_env w n k) = resv k \<and> resv (w_race w n k) = resv k) \<and>
     (\<forall>f i xcmd k. ert_submit (w_ert w) = Some f \<longrightarrow> resv (f i xcmd k) = resv k) \<and>
     (\<forall>f c i k. ert_abort (w_ert w) = Some f \<longrightarrow> resv (f c i k) = resv k) \<and>
     (\<forall>f c i k. ert_abort_done (w_ert w) = Some f \<longrightarrow> resv (snd (f c i k)) = resv k) \<and>
     (\<forall>f c i k. ert_abort_sync (w_ert w) = Some f \<longrightarrow> resv (f c i k) = resv k)"

lemma ctx_ok_resv:
  assumes "resv k' = resv k"
  shows "ctx_ok n k' = ctx_ok n k" and "refs_of k' = refs_of k" and "kds_client_domain_refcnt c d k' = kds_client_domain_refcnt c d k"
    and "cu_refs (mgmt d k') = cu_refs (mgmt d k)" and "kds_test_refcnt c d i k' = kds_test_refcnt c d i k"
proof -
  have r: "refcnt (client_at k' c) = refcnt (client_at k c)" for c using assms by (auto simp: resv_def dest: fun_cong)
  then show t: "kds_client_domain_refcnt c d k' = kds_client_domain_refcnt c d k" for c d by (simp add: kds_client_domain_refcnt_def)
  then show f: "refs_of k' = refs_of k" by (intro ext) (simp add: refs_of_def)
  show m: "cu_refs (mgmt d k') = cu_refs (mgmt d k)" for d using assms by (simp add: resv_def mgmt_def)
  show "kds_test_refcnt c d i k' = kds_test_refcnt c d i k" by (simp add: kds_test_refcnt_def t)
  show "ctx_ok n k' = ctx_ok n k" using assms by (simp add: ctx_ok_def f m resv_def)
qed

section \<open>One unit\<close>

lemma excl_flag_simps [simp]: "\<not> excl_flag 0" "excl_flag CU_EXCLU_MASK"
  by (simp_all add: excl_flag_def CU_EXCLU_MASK_def)

lemma excl_flag_bit: "excl_flag v = bit v 31"
proof -
  have m: "CU_EXCLU_MASK = 2 ^ 31" by (simp add: CU_EXCLU_MASK_def)
  show ?thesis unfolding excl_flag_def m by (simp only: and_exp_eq_0_iff_not_bit not_not)
qed

lemma excl_flag_small: "unat v < 2 ^ 31 \<Longrightarrow> \<not> excl_flag v"
proof -
  assume "unat v < 2 ^ 31"
  then have "v < 2 ^ 31" by (simp add: word_less_nat_alt)
  then have m: "take_bit 31 v = v" by (simp add: take_bit_eq_mask less_mask_eq)
  have "\<not> bit v 31" by (subst m [symmetric]) (simp add: bit_take_bit_iff)
  then show ?thesis by (simp add: excl_flag_bit)
qed

lemma cell_mono: "cell_ok n r v \<Longrightarrow> n \<le> m \<Longrightarrow> cell_ok m r v"
  by (auto simp: cell_ok_def)

lemma cell_fewer:
  assumes "cell_ok n r v" and "\<And>c. r' c = r c \<or> r' c = 0"
  shows "cell_ok n r' v"
proof -
  have s: "{c. r' c \<noteq> 0} \<subseteq> {c. r c \<noteq> 0}" using assms(2) by (metis (mono_tags, lifting) Collect_mono)
  have f: "finite {c. r c \<noteq> 0}" using assms(1) by (simp add: cell_ok_def)
  have "r' c \<le> 1" if "\<forall>c. r c \<le> 1" for c using assms(2) [of c] that by auto
  with assms(1) card_mono [OF f s] finite_subset [OF s f] show ?thesis by (auto simp: cell_ok_def)
qed

lemma cell_same_holders:
  assumes "cell_ok n r v" and "\<not> excl_flag v" and "\<And>c. r' c \<noteq> 0 \<Longrightarrow> r c \<noteq> 0"
  shows "cell_ok n r' v"
proof -
  have s: "{c. r' c \<noteq> 0} \<subseteq> {c. r c \<noteq> 0}" and f: "finite {c. r c \<noteq> 0}" using assms by (auto simp: cell_ok_def)
  with assms(1,2) card_mono [OF f s] finite_subset [OF s f] show ?thesis by (auto simp: cell_ok_def)
qed

lemma holders_upd: "{c. (r(c0 := w)) c \<noteq> (0 :: u32)} = (if w = 0 then {c. r c \<noteq> 0} - {c0} else insert c0 {c. r c \<noteq> 0})"
  by auto

lemma cell_open_new:
  assumes "cell_ok n r v" and "\<not> excl_flag v" and "r c = 0" and "Suc n < 2 ^ 31"
  shows "cell_ok (Suc n) (r(c := w)) (v + 1)"
proof -
  have u: "unat v \<le> n" and cd: "card {c. r c \<noteq> 0} \<le> unat v" and f: "finite {c. r c \<noteq> 0}"
    using assms(1,2) by (auto simp: cell_ok_def)
  have v: "unat (v + 1) = unat v + 1" using u assms(4) by (intro trans [OF unat_add_small]) simp_all
  then have "\<not> excl_flag (v + 1)" using u assms(4) by (intro excl_flag_small) simp
  moreover have "card {d. (r(c := w)) d \<noteq> 0} \<le> unat v + 1"
    unfolding holders_upd using cd f card_insert_le_m1 [of "Suc (unat v)" "{c. r c \<noteq> 0}" c] card_Diff1_le [of "{c. r c \<noteq> 0}" c]
    by (auto simp: card_insert_if)
  moreover have "finite {d. (r(c := w)) d \<noteq> 0}" unfolding holders_upd using f by simp
  ultimately show ?thesis using v u by (simp add: cell_ok_def)
qed

lemma cell_open_excl:
  assumes "cell_ok n r 0"
  shows "cell_ok n (r(c := r c + 1)) CU_EXCLU_MASK"
proof -
  have "finite {c. r c \<noteq> 0}" "card {c. r c \<noteq> 0} = 0" using assms by (simp_all only: cell_ok_def excl_flag_simps if_False unat_0 le_zero_eq)
  then have "{c. r c \<noteq> 0} = {}" by (simp only: card_0_eq)
  then have z: "r c = 0" for c by blast
  have "{d. (r(c := r c + 1)) d \<noteq> 0} = {c}" by (auto simp: z)
  then show ?thesis by (simp add: cell_ok_def z)
qed

lemma cell_close_excl:
  assumes "cell_ok n r v" and "excl_flag v" and "r c \<noteq> 0"
  shows "cell_ok n (r(c := r c - 1)) 0"
proof -
  have le: "r c \<le> 1" and cd: "card {c. r c \<noteq> 0} \<le> 1" and f: "finite {c. r c \<noteq> 0}" using assms(1,2) by (auto simp: cell_ok_def)
  have "r c = 1" using le assms(3) by unat_arith
  moreover have "{d. r d \<noteq> 0} = {c}"
    using cd f assms(3) unfolding One_nat_def by (auto simp only: card_le_Suc0_iff_eq)
  ultimately have "{d. (r(c := r c - 1)) d \<noteq> 0} = {}" unfolding holders_upd by simp
  then show ?thesis by (simp add: cell_ok_def)
qed

lemma cell_close_last:
  assumes "cell_ok n r v" and "\<not> excl_flag v" and "r c \<noteq> 0" and "n < 2 ^ 31"
  shows "cell_ok n (r(c := 0)) (v - 1)"
proof -
  have u: "unat v \<le> n" and cd: "card {c. r c \<noteq> 0} \<le> unat v" and f: "finite {c. r c \<noteq> 0}"
    using assms(1,2) by (auto simp: cell_ok_def)
  have c: "card {d. (r(c := 0)) d \<noteq> 0} = card {c. r c \<noteq> 0} - 1" "card {c. r c \<noteq> 0} > 0"
    unfolding holders_upd using f assms(3) by (auto simp: card_gt_0_iff)
  then have v: "unat (v - 1) = unat v - 1" using cd by (simp add: unat_sub word_le_nat_alt)
  have "\<not> excl_flag (v - 1)" using v u assms(4) by (intro excl_flag_small) simp
  moreover have "finite {d. (r(c := 0)) d \<noteq> 0}" unfolding holders_upd using f by simp
  ultimately show ?thesis using v c cd u by (auto simp: cell_ok_def)
qed

section \<open>Frame conditions\<close>

lemma domains_differ [simp]: "DOMAIN_PS \<noteq> DOMAIN_PL" "DOMAIN_PL \<noteq> DOMAIN_PS"
  by (simp_all add: DOMAIN_PL_def DOMAIN_PS_def)

lemma resv_simps [simp]:
  "resv (k\<lparr>xcu_at := X\<rparr>) = resv k" "resv (k\<lparr>hw_ctx_at := H\<rparr>) = resv k" "resv (k\<lparr>cu_ctx_at := C\<rparr>) = resv k"
  "resv (k\<lparr>host := h\<rparr>) = resv k" "resv (k\<lparr>kds_bad_state := b\<rparr>) = resv k" "resv (k\<lparr>polling_start := p\<rparr>) = resv k"
  "resv (k\<lparr>clients := cs\<rparr>) = resv k" "resv (k\<lparr>num_client := j\<rparr>) = resv k" "resv (k\<lparr>read_regs := R\<rparr>) = resv k"
  by (simp_all add: resv_def)

lemma resv_upd_usage [simp]: "resv (upd_mgmt d (\<lambda>m. m\<lparr>usage := u m\<rparr>) k) = resv k"
  by (simp add: resv_def upd_mgmt_def)

lemma resv_scu_usage [simp]: "resv (k\<lparr>scu_mgmt := (scu_mgmt k)\<lparr>usage := u\<rparr>\<rparr>) = resv k"
  by (simp add: resv_def)

lemma resv_wrappers [simp]:
  "resv (client_stat_upd c h f k) = resv k" "resv (upd_ctx x g k) = resv k" "resv (upd_hw_ctx h' f' k) = resv k" "resv (report i s k) = resv k"
  by (simp_all add: client_stat_upd_def upd_ctx_def upd_hw_ctx_def report_def)

lemma resv_upd_client [simp]: "(\<And>c. refcnt (f c) = refcnt c) \<Longrightarrow> resv (upd_client c f k) = resv k"
  by (auto simp: resv_def upd_client_def)

lemma set_refs_simps [simp]:
  "cu_ctx_at (set_refs c d f k) = cu_ctx_at k" "hw_ctx_at (set_refs c d f k) = hw_ctx_at k" "mgmt d' (set_refs c d f k) = mgmt d' k"
  "set_refs c d g (set_refs c d f k) = set_refs c d g k"
  by (cases "d = DOMAIN_PL"; simp add: set_refs_def mgmt_def Let_def option.map_comp o_def)+

lemma refcnt_set_refs:
  assumes "d \<in> {DOMAIN_PL, DOMAIN_PS}" and "kds_client_domain_refcnt c d k = Some refs"
  shows "kds_client_domain_refcnt c' d' (set_refs c d f k) =
    (if c' = c \<and> d' = d then Some f else kds_client_domain_refcnt c' d' k)"
  using assms by (auto simp: kds_client_domain_refcnt_def set_refs_def Let_def split: option.splits if_splits)

lemma resv_set_refs_same:
  "d \<in> {DOMAIN_PL, DOMAIN_PS} \<Longrightarrow> kds_client_domain_refcnt c d k = Some refs \<Longrightarrow> resv (set_refs c d refs k) = resv k"
  by (auto simp: kds_client_domain_refcnt_def set_refs_def resv_def Let_def split: option.splits if_splits)

lemma resv_set_cu_refs_same [simp]: "d \<in> {DOMAIN_PL, DOMAIN_PS} \<Longrightarrow> resv (upd_mgmt d (set_cu_refs i (cu_refs (mgmt d k) i)) k) = resv k"
  by (auto simp: resv_def upd_mgmt_def set_cu_refs_def mgmt_def)

lemma resv_set_cu_refs_cong:
  "resv k = resv k' \<Longrightarrow> resv (upd_mgmt d (set_cu_refs i v) k) = resv (upd_mgmt d (set_cu_refs i v) k')"
  by (auto simp: resv_def upd_mgmt_def set_cu_refs_def)

lemma refs_of_Some: "kds_client_domain_refcnt c d k = Some refs \<Longrightarrow> refs_of k d c = refs"
  by (intro ext) (simp add: refs_of_def)

lemma ctx_okI: "ctx_ok n k \<Longrightarrow> resv k' = resv k \<Longrightarrow> ctx_ok n k'"
  using ctx_ok_resv(1) by blast

lemma upd_ctx_ok [simp]: "ctx_ok n (upd_ctx x f k) = ctx_ok n k"
  by (rule ctx_ok_resv(1)) simp

text \<open>One operation on one unit by one client.\<close>

lemma ctx_step:
  assumes ok: "ctx_ok n k" and "n \<le> m" and d: "d \<in> {DOMAIN_PL, DOMAIN_PS}" and r: "kds_client_domain_refcnt c d k = Some refs"
    and k': "resv k' = resv (upd_mgmt d (set_cu_refs i v) (set_refs c d (refs(i := w)) k))"
    and cell: "cell_ok m ((\<lambda>c. refs_of k d c i)(c := w)) v"
  shows "ctx_ok m k'"
proof -
  let ?k = "upd_mgmt d (set_cu_refs i v) (set_refs c d (refs(i := w)) k)"
  have u: "kds_client_domain_refcnt a b (upd_mgmt d f k0) = kds_client_domain_refcnt a b k0" for a b f and k0 :: "'a kds_sched"
    by (simp add: kds_client_domain_refcnt_def upd_mgmt_def)
  have "refs_of ?k d' c' i' = (if d' = d \<and> i' = i \<and> c' = c then w else refs_of k d' c' i')" for d' c' i'
    using r by (auto simp: refs_of_def u refcnt_set_refs [OF d r])
  moreover have "cu_refs (mgmt d' ?k) i' = (if d' = d \<and> i' = i then v else cu_refs (mgmt d' k) i')" if "d' \<in> {DOMAIN_PL, DOMAIN_PS}" for d' i'
    using d that by (auto simp: upd_mgmt_def mgmt_def set_cu_refs_def set_refs_def Let_def)
  moreover have "num_cdma (cu_mgmt ?k) = num_cdma (cu_mgmt k)" by (simp add: upd_mgmt_def set_cu_refs_def set_refs_def Let_def)
  moreover have "(\<lambda>c'. if c' = c then w else refs_of k d c' i) = (\<lambda>c. refs_of k d c i)(c := w)" by auto
  ultimately have "ctx_ok m ?k" using ok cell cell_mono [OF _ \<open>n \<le> m\<close>] by (auto simp: ctx_ok_def)
  then show ?thesis by (simp add: ctx_ok_resv(1) [OF k'])
qed

lemma cell_again:
  assumes "cell_ok n r v" and "r c \<noteq> 0" and "excl_flag v \<Longrightarrow> 1 < r c"
  shows "cell_ok n (r(c := w)) v"
proof (rule cell_same_holders [OF assms(1)])
  show "\<not> excl_flag v"
  proof
    assume e: "excl_flag v"
    then have "r c \<le> 1" using assms(1) by (simp add: cell_ok_def)
    with assms(3) [OF e] show False by simp
  qed
qed (use assms(2) in \<open>auto split: if_splits\<close>)

lemma ctx_again:
  assumes ok: "ctx_ok n k" and d: "d \<in> {DOMAIN_PL, DOMAIN_PS}" and r: "kds_client_domain_refcnt c d k = Some refs"
    and "refs i \<noteq> 0" and "excl_flag (cu_refs (mgmt d k) i) \<Longrightarrow> 1 < refs i" and k': "resv k' = resv (set_refs c d (refs(i := w)) k)"
  shows "ctx_ok n k'"
proof (rule ctx_step [OF ok le_refl d r])
  show "resv k' = resv (upd_mgmt d (set_cu_refs i (cu_refs (mgmt d k) i)) (set_refs c d (refs(i := w)) k))"
    using k' resv_set_cu_refs_same [OF d, of i "set_refs c d (refs(i := w)) k"] by simp
  have "cell_ok n (\<lambda>c. refs_of k d c i) (cu_refs (mgmt d k) i)" using ok d by (auto simp: ctx_ok_def)
  then show "cell_ok n ((\<lambda>c. refs_of k d c i)(c := w)) (cu_refs (mgmt d k) i)"
    by (rule cell_again) (use assms(4,5) in \<open>simp_all add: refs_of_Some [OF r]\<close>)
qed

lemma ctx_mono: "ctx_ok n k \<Longrightarrow> n \<le> m \<Longrightarrow> ctx_ok m k"
  by (auto simp: ctx_ok_def intro: cell_mono)

lemma sint_not_pos_succ: "0 \<le> sint (a :: u32) \<Longrightarrow> sint (a + 1) \<le> 0 \<Longrightarrow> a \<noteq> 0 \<and> 1 < a"
proof -
  assume a: "0 \<le> sint a" "sint (a + 1) \<le> 0"
  have "a \<noteq> 0" "a \<noteq> 1" using a(2) by auto
  then show ?thesis by unat_arith
qed

lemma sint_neg_big: "sint (a :: u32) < 0 \<Longrightarrow> a \<noteq> 0 \<and> 1 < a"
proof -
  assume a: "sint a < 0"
  then have "a \<noteq> 0" "a \<noteq> 1" by auto
  then show ?thesis by unat_arith
qed

lemma add_cu_context_ok:
  assumes ok: "ctx_ok n k" and n: "Suc n < 2 ^ 31" and dom: "x_cu_domain (cu_ctx_at k x) \<in> {DOMAIN_PL, DOMAIN_PS}"
  shows "ctx_ok (Suc n) (snd (kds_add_cu_context c x k))"
proof -
  define d i where "d = x_cu_domain (cu_ctx_at k x)" and "i = unat (x_cu_idx (cu_ctx_at k x))"
  have d: "d \<in> {DOMAIN_PL, DOMAIN_PS}" using dom by (simp add: d_def)
  note ok' = ctx_mono [OF ok le_SucI [OF le_refl]] and defs = kds_add_cu_context_def Let_def d_def [symmetric] i_def [symmetric]
  show ?thesis
  proof (cases "kds_client_domain_refcnt c d k")
    case None
    have "kds_test_and_refcnt_incr c d i k = (- EINVAL, k)" by (simp add: kds_test_and_refcnt_incr_def None)
    moreover have "sint (- EINVAL :: s32) < 0" by (simp add: EINVAL_def)
    ultimately show ?thesis using ok' by (simp add: defs)
  next
    case (Some refs)
    let ?k = "set_refs c d (refs(i := refs i + 1)) k" and ?v = "cu_refs (mgmt d k) i"
    have incr: "kds_test_and_refcnt_incr c d i k = (refs i, ?k)" by (simp add: kds_test_and_refcnt_incr_def Some)
    have decr: "kds_test_and_refcnt_decr c d i ?k = (refs i + 1, if sint (refs i + 1) > 0 then set_refs c d refs k else ?k)"
      by (simp add: kds_test_and_refcnt_decr_def refcnt_set_refs [OF d Some])
    have cell: "cell_ok n (\<lambda>c. refs_of k d c i) ?v" using ok d by (auto simp: ctx_ok_def)
    have again: "ctx_ok (Suc n) ?k" if "refs i \<noteq> 0 \<and> (1 < refs i \<or> \<not> excl_flag ?v)"
      by (rule ctx_again [OF ok' d Some]) (use that in auto)
    have conflict: "ctx_ok (Suc n) (snd (kds_test_and_refcnt_decr c d i ?k))" if "0 \<le> sint (refs i)"
      using sint_not_pos_succ [OF that] again ok' by (auto simp: decr ctx_ok_resv(1) [OF resv_set_refs_same [OF d Some]])
    have excl: "ctx_ok (Suc n) (upd_mgmt d (set_cu_refs i CU_EXCLU_MASK) ?k)" if "?v = 0"
      by (rule ctx_step [OF ok' le_refl d Some refl]) (use cell_open_excl [OF cell_mono [OF cell [unfolded that] le_SucI [OF le_refl]], of c] in \<open>simp add: refs_of_Some [OF Some]\<close>)
    have shared: "ctx_ok (Suc n) (upd_mgmt d (set_cu_refs i (?v + 1)) ?k)" if "refs i = 0" "\<not> excl_flag ?v"
      by (rule ctx_step [OF ok' le_refl d Some refl]) (use that in \<open>simp add: cell_open_new [OF cell _ _ n] refs_of_Some [OF Some]\<close>)
    show ?thesis
      using again conflict excl shared ok' sint_neg_big [of "refs i"] by (auto simp: defs incr split: prod.splits)
  qed
qed

section \<open>Closing contexts\<close>

lemma mgmt_bad [simp]: "mgmt d (k\<lparr>kds_bad_state := b\<rparr>) = mgmt d k"
  by (simp add: mgmt_def)

lemma abort_wait_resv: "(\<And>n k. resv (env n k) = resv k) \<Longrightarrow> resv (abort_wait env busy n t k) = resv k"
  by (induction env busy n t k rule: abort_wait.induct) (subst abort_wait.simps, simp add: Let_def)

lemma ert_abort_wait_resv:
  assumes "ert_abort_wait env busy n k = Some k'" and "\<And>n k. resv (env n k) = resv k"
  shows "resv k' = resv k"
proof -
  have "(\<forall>n k. resv (env n k) = resv k) \<longrightarrow> resv k' = resv k"
    by (rule ert_abort_wait.raw_induct [OF _ assms(1)]) (auto simp: Let_def split: if_splits)
  with assms(2) show ?thesis by blast
qed

lemma abort_outstanding_resv:
  assumes w: "world_ok w" and r: "abort_outstanding (w_ert w) (w_env w) c d i busy k = Some (b, k')"
  shows "resv k' = resv k"
proof -
  have env: "\<And>n k. resv (w_env w n k) = resv k" using w by (simp add: world_ok_def)
  note wait = abort_wait_resv [of "w_env w", OF env] ert_abort_wait_resv [of "w_env w", OF _ env]
  show ?thesis
  proof (cases "ert_disable k \<or> xgq_enable k")
    case True
    then show ?thesis using r by (auto simp: abort_outstanding_def Let_def wait(1) split: option.splits prod.splits)
  next
    case False
    show ?thesis
    proof (cases "ert_abort_sync (w_ert w)")
      case None
      then obtain abort fin k1 where a: "ert_abort (w_ert w) = Some abort" "ert_abort_done (w_ert w) = Some fin"
          "ert_abort_wait (w_env w) busy 0 (abort c (word_of_nat i) k) = Some k1" "k' = snd (fin c (word_of_nat i) k1)"
        using r False by (auto simp: abort_outstanding_def split: bind_splits)
      then show ?thesis using w wait(2) [OF a(3)] by (simp add: world_ok_def)
    next
      case (Some sync)
      then show ?thesis using r False w by (auto simp: abort_outstanding_def Let_def wait(1) world_ok_def)
    qed
  qed
qed

lemma del_cu_context_effect:
  fixes x :: nat and k :: "'c kds_sched"
  defines "d \<equiv> x_cu_domain (cu_ctx_at k x)" and "i \<equiv> unat (x_cu_idx (cu_ctx_at k x))"
  assumes refs: "kds_client_domain_refcnt c d k = Some refs"
    and w: "world_ok w" and r: "kds_del_cu_context (w_ert w) (w_env w) c x k = Some (e, k')"
  shows "resv k' = resv k \<or> sint (refs i) > 0 \<and>
    resv k' = resv (let k1 = set_refs c d (refs(i := refs i - 1)) k; v = cu_refs (mgmt d k) i in
      if excl_flag v then upd_mgmt d (set_cu_refs i 0) k1 else if refs i = 1 then upd_mgmt d (set_cu_refs i (v - 1)) k1 else k1)"
proof -
  let ?k1 = "set_refs c d (refs(i := refs i - 1)) k" and ?v = "cu_refs (mgmt d k) i"
  define busy where "busy h = (outstanding_cmds c d (hw_ctx_idx (hw_ctx_at k h)) i :: 'c kds_sched \<Rightarrow> bool)" for h
  define out where "out h = (if busy h ?k1 then abort_outstanding (w_ert w) (w_env w) c d i (busy h) ?k1 else Some (False, ?k1))" for h
  have out: "resv k2 = resv ?k1" "cu_refs (mgmt d k2) i = ?v" if "out h = Some (b, k2)" for h b k2
  proof -
    show e: "resv k2 = resv ?k1" using that abort_outstanding_resv [OF w] by (auto simp: out_def split: if_splits)
    show "cu_refs (mgmt d k2) i = ?v" by (simp add: ctx_ok_resv(4) [OF e])
  qed
  have "kds_del_cu_context (w_ert w) (w_env w) c x k =
    (case x_hw_ctx (cu_ctx_at k x) of
       None \<Rightarrow> Some (- EINVAL, k)
     | Some h \<Rightarrow> if MAX_CUS \<le> i \<or> Option.is_none (xcus (mgmt d k) i) then Some (- EINVAL, k)
         else if sint (refs i) \<le> 0 then Some (- EINVAL, k)
         else case out h of None \<Rightarrow> None | Some (bad, k2) \<Rightarrow>
           let k2 = (if bad then k2\<lparr>kds_bad_state := True\<rparr> else k2); v = cu_refs (mgmt d k2) i
           in Some (0, if excl_flag v then upd_mgmt d (set_cu_refs i 0) k2
                       else if refs i = 1 then upd_mgmt d (set_cu_refs i (v - 1)) k2 else k2))"
    by (simp add: kds_del_cu_context_def Let_def d_def [symmetric] i_def [symmetric] kds_test_and_refcnt_decr_def refs
        busy_def [symmetric] out_def split: option.splits)
  with r show ?thesis
    by (auto simp: Let_def mgmt_bad out split: option.splits if_splits intro!: resv_set_cu_refs_cong)
qed

lemma del_cu_context_ok:
  assumes ok: "ctx_ok n k" and n: "n < 2 ^ 31" and dom: "x_cu_domain (cu_ctx_at k x) \<in> {DOMAIN_PL, DOMAIN_PS}"
    and w: "world_ok w" and r: "kds_del_cu_context (w_ert w) (w_env w) c x k = Some (e, k')"
  shows "ctx_ok n k'"
proof -
  define d i where "d = x_cu_domain (cu_ctx_at k x)" and "i = unat (x_cu_idx (cu_ctx_at k x))"
  have d: "d \<in> {DOMAIN_PL, DOMAIN_PS}" using dom by (simp add: d_def)
  note defs = kds_del_cu_context_def Let_def d_def [symmetric] i_def [symmetric]
  show ?thesis
  proof (cases "kds_client_domain_refcnt c d k")
    case None
    have "kds_test_and_refcnt_decr c d i k = (- EINVAL, k)" by (simp add: kds_test_and_refcnt_decr_def None)
    moreover have "sint (- EINVAL :: s32) \<le> 0" by (simp add: EINVAL_def)
    ultimately have "k' = k" using r by (simp add: defs split: if_splits option.splits)
    then show ?thesis using ok by simp
  next
    case (Some refs)
    let ?k = "set_refs c d (refs(i := refs i - 1)) k" and ?v = "cu_refs (mgmt d k) i"
    have cell: "cell_ok n (\<lambda>c. refs_of k d c i) ?v" using ok d by (auto simp: ctx_ok_def)
    have cases: "resv k' = resv k \<or> sint (refs i) > 0 \<and>
        resv k' = resv (if excl_flag ?v then upd_mgmt d (set_cu_refs i 0) ?k else if refs i = 1 then upd_mgmt d (set_cu_refs i (?v - 1)) ?k else ?k)"
      using del_cu_context_effect [OF Some [unfolded d_def] w r] unfolding Let_def d_def i_def .
    have pos: "refs i \<noteq> 0" if "sint (refs i) > 0" using that by auto
    have excl: "ctx_ok n k'" if "sint (refs i) > 0" "excl_flag ?v" "resv k' = resv (upd_mgmt d (set_cu_refs i 0) ?k)"
      by (rule ctx_step [OF ok le_refl d Some that(3)]) (use cell_close_excl [OF cell that(2), of c] pos [OF that(1)] in \<open>simp add: refs_of_Some [OF Some]\<close>)
    have last: "ctx_ok n k'" if "\<not> excl_flag ?v" "refs i = 1" "resv k' = resv (upd_mgmt d (set_cu_refs i (?v - 1)) ?k)"
      by (rule ctx_step [OF ok le_refl d Some that(3)]) (use cell_close_last [OF cell that(1) _ n, of c] that(2) in \<open>simp add: refs_of_Some [OF Some]\<close>)
    have more: "ctx_ok n k'" if "sint (refs i) > 0" "\<not> excl_flag ?v" "resv k' = resv ?k"
      by (rule ctx_again [OF ok d Some pos [OF that(1)] _ that(3)]) (use that(2) in simp)
    from cases show ?thesis
    proof (elim disjE conjE)
      assume "resv k' = resv k"
      then show ?thesis using ok ctx_ok_resv(1) by blast
    next
      assume p: "sint (refs i) > 0"
        and e: "resv k' = resv (if excl_flag ?v then upd_mgmt d (set_cu_refs i 0) ?k else if refs i = 1 then upd_mgmt d (set_cu_refs i (?v - 1)) ?k else ?k)"
      show ?thesis
      proof (cases "excl_flag ?v")
        case True
        with e show ?thesis by (intro excl [OF p]) (simp_all only: if_True)
      next
        case False
        with e show ?thesis by (cases "refs i = 1") (auto simp only: if_True if_False simp_thms intro: last more [OF p])
      qed
    qed
  qed
qed

lemma add_context_ok:
  assumes ok: "ctx_ok n k" and n: "Suc n < 2 ^ 31"
  shows "ctx_ok (Suc n) (snd (kds_add_context c x k))"
proof -
  have m: "ctx_ok (Suc n) k" using ctx_mono [OF ok] by simp
  have z: "num_cdma (cu_mgmt k) = 0" using ok by (simp add: ctx_ok_def)
  show ?thesis
  proof (cases "x_cu_domain (cu_ctx_at k x) \<in> {DOMAIN_PL, DOMAIN_PS}")
    case True
    obtain r k1 where k1: "kds_add_cu_context c x k = (r, k1)" by fastforce
    then have "ctx_ok (Suc n) k1" using add_cu_context_ok [OF ok n True, of c] by simp
    moreover have "x_cu_domain (cu_ctx_at k x) \<noteq> DOMAIN_VIRT" using True by (auto simp: DOMAIN_PL_def DOMAIN_PS_def DOMAIN_VIRT_def)
    ultimately show ?thesis using True k1 by (simp add: kds_add_context_def Let_def)
  qed (use m z in \<open>simp add: kds_add_context_def Let_def\<close>)
qed

lemma del_context_ok:
  assumes ok: "ctx_ok n k" and n: "n < 2 ^ 31" and w: "world_ok w"
    and r: "kds_del_context (w_ert w) (w_env w) c x k = Some (e, k')"
  shows "ctx_ok n k'"
proof -
  let ?k = "upd_ctx x (\<lambda>ctx. ctx\<lparr>x_ref_cnt := x_ref_cnt ctx - 1\<rparr>) k"
  have m: "ctx_ok n ?k" using ok by simp
  then have z: "num_cdma (cu_mgmt ?k) = 0" by (simp add: ctx_ok_def)
  have d: "x_cu_domain (cu_ctx_at ?k x) = x_cu_domain (cu_ctx_at k x)" by (simp add: upd_ctx_def)
  show ?thesis
    using r m z ok del_cu_context_ok [OF m n _ w, of x c] unfolding kds_del_context_def Let_def
    by (simp add: d del: upd_ctx_ok split: if_splits option.splits prod.splits)
qed

lemma drain_ctx_ok:
  assumes "drain_ctx (w_ert w) (w_env w) c x k = Some k'" and "ctx_ok n k" and "n < 2 ^ 31" and "world_ok w"
  shows "ctx_ok n k'"
proof -
  have "E = w_ert w \<longrightarrow> env = w_env w \<longrightarrow> ctx_ok n k \<longrightarrow> ctx_ok n k'" if "drain_ctx E env c x k = Some k'" for E env
    by (rule drain_ctx.raw_induct [where P = "\<lambda>E env c x k k'. E = w_ert w \<longrightarrow> env = w_env w \<longrightarrow> ctx_ok n k \<longrightarrow> ctx_ok n k'"
        and xa = "((((E, env), c), x), k)", unfolded prod.case, OF _ that])
      (auto split: if_splits option.splits dest: del_context_ok [OF _ assms(3,4)])
  with assms(1,2) show ?thesis by blast
qed

lemma resv_unlink [simp]: "resv (unlink_ctx c x k) = resv k"
proof -
  have "resv (fold (\<lambda>h. upd_hw_ctx h f) hs k) = resv k" for f hs k
    by (induction hs arbitrary: k) simp_all
  note f = this
  show ?thesis unfolding unlink_ctx_def Let_def f by (rule resv_upd_client) simp
qed

lemma resv_free_ctx [simp]: "resv (snd (kds_free_cu_ctx c x k)) = resv k"
  by (simp add: kds_free_cu_ctx_def split: option.split)

lemma drain_list_ok:
  "drain_list (w_ert w) (w_env w) c xs k = Some k' \<Longrightarrow> ctx_ok n k \<Longrightarrow> n < 2 ^ 31 \<Longrightarrow> world_ok w \<Longrightarrow> ctx_ok n k'"
proof (induction xs arbitrary: k)
  case (Cons x xs)
  then obtain k1 where k1: "drain_ctx (w_ert w) (w_env w) c x k = Some k1"
      "drain_list (w_ert w) (w_env w) c xs (snd (kds_free_cu_ctx c (Some x) k1)) = Some k'"
    by (auto split: option.splits)
  have "ctx_ok n (snd (kds_free_cu_ctx c (Some x) k1))"
    using drain_ctx_ok [OF k1(1) Cons.prems(2-4)] ctx_okI resv_free_ctx by blast
  with k1(2) Cons.IH Cons.prems(3,4) show ?case by blast
qed simp

lemma fini_hw_ctxs_ok:
  "fini_hw_ctxs (w_ert w) (w_env w) c hs k = Some k' \<Longrightarrow> ctx_ok n k \<Longrightarrow> n < 2 ^ 31 \<Longrightarrow> world_ok w \<Longrightarrow> ctx_ok n k'"
  by (induction hs arbitrary: k) (auto simp: kds_fini_hw_ctx_client_def split: option.splits dest: drain_list_ok)

text \<open>Clearing the counts of a client leaves the other clients alone.\<close>

lemma ctx_clear:
  assumes ok: "ctx_ok n k" and m: "cu_mgmt k' = cu_mgmt k" "scu_mgmt k' = scu_mgmt k"
    and r: "\<And>d c i. refs_of k' d c i = refs_of k d c i \<or> refs_of k' d c i = 0"
  shows "ctx_ok n k'"
proof -
  have "cell_ok n (\<lambda>c. refs_of k' d c i) (cu_refs (mgmt d k) i)" if "d \<in> {DOMAIN_PL, DOMAIN_PS}" for d i
    by (rule cell_fewer [of n "\<lambda>c. refs_of k d c i", OF _ r]) (use ok that in \<open>auto simp: ctx_ok_def\<close>)
  moreover have "mgmt d k' = mgmt d k" for d by (simp add: mgmt_def m)
  ultimately show ?thesis using ok m by (simp add: ctx_ok_def)
qed

lemma fini_client_ok:
  assumes r: "kds_fini_client (w_ert w) (w_env w) c k = Some k'" and ok: "ctx_ok n k" and n: "n < 2 ^ 31" and w: "world_ok w"
  shows "ctx_ok n k'"
proof -
  obtain k1 where k1: "kds_fini_client_ctxs (w_ert w) (w_env w) c k = Some k1"
    using r by (auto simp: kds_fini_client_def split: option.splits)
  have ok1: "ctx_ok n k1"
    using k1 drain_list_ok [OF _ ok n w] fini_hw_ctxs_ok [OF _ _ n w]
    by (auto simp: kds_fini_client_ctxs_def Let_def split: option.splits)
  then show ?thesis
  proof (rule ctx_clear)
    define k2 where "k2 = (if cl_ctx (client_at k1 c) \<noteq> None \<or> cl_ctx_list (client_at k1 c) \<noteq> []
       then snd (kds_free_hw_ctx c (kds_get_hw_ctx_by_id c DEFAULT_HW_CTX_ID k1) k1) else k1)"
    have free: "refcnt (client_at k2 a) = refcnt (client_at k1 a)" "cu_mgmt k2 = cu_mgmt k1" "scu_mgmt k2 = scu_mgmt k1" for a
      by (auto simp: k2_def kds_free_hw_ctx_def upd_client_def split: option.split)
    have k': "k' = (let k = snd (kds_client_set_cu_refs_zero c DOMAIN_PL (snd (kds_client_set_cu_refs_zero c DOMAIN_PS k2)));
        k = upd_client c (\<lambda>c. c\<lparr>refcnt := None\<rparr>) k in k\<lparr>clients := remove1 c (clients k), num_client := num_client k - 1\<rparr>)"
      using r k1 by (simp add: kds_fini_client_def Let_def k2_def)
    note zero = kds_client_set_cu_refs_zero_def set_refs_def upd_client_def Let_def
    show "cu_mgmt k' = cu_mgmt k1" "scu_mgmt k' = scu_mgmt k1"
      by (simp_all add: k' zero free split: option.split)
    show "refs_of k' d a i = refs_of k1 d a i \<or> refs_of k' d a i = 0" for d a i
      by (cases "a = c") (simp_all add: k' zero free refs_of_def kds_client_domain_refcnt_def split: option.split)
  qed
qed

section \<open>Commands and runs\<close>

lemma acquire_cu_idx_resv:
  assumes "acquire_cu_idx race d xcmd k = Some (idx, xcmd', k')" and race: "\<And>k. resv (race k) = resv k"
  shows "resv k' = resv k"
  using assms(1) by (auto simp: acquire_cu_idx_def Let_def race split: option.splits if_splits list.splits)

lemma acquire_loop_resv:
  assumes "acquire_loop race n d xcmd k = Some (idx, xcmd', k')" and race: "\<And>n k. resv (race n k) = resv k"
  shows "resv k' = resv k"
proof -
  have "r = race \<longrightarrow> resv (snd (snd y)) = resv k" if "acquire_loop r n d xcmd k = Some y" for r y
    by (rule acquire_loop.raw_induct [where P = "\<lambda>r n d xcmd k y. r = race \<longrightarrow> resv (snd (snd y)) = resv k", OF _ that])
      (auto split: if_splits option.splits dest: acquire_cu_idx_resv [of "race _", OF _ race])
  then show ?thesis using assms(1) by fastforce
qed

lemma abort_cus_resv: "abort_cus serve d i cs xcmd k = Some k' \<Longrightarrow> resv k' = resv k"
  by (induction cs arbitrary: xcmd k) (auto simp: Let_def split: option.splits if_splits)

lemma clear_usage_resv: "clear_usage is k = Some k' \<Longrightarrow> resv k' = resv k"
  by (induction "is" arbitrary: k) (auto split: if_splits)

lemma kds_scu_config_resv: "kds_scu_config p is k = Some k' \<Longrightarrow> resv k' = resv k"
  by (induction "is" arbitrary: k) (auto split: option.splits dest: clear_usage_resv)

lemma kds_cu_dispatch_resv:
  assumes "kds_cu_dispatch race d i xcmd k = Some (r, xcmd', k')" and race: "\<And>n k. resv (race n k) = resv k"
  shows "resv k' = resv k"
  using assms(1) by (auto simp: kds_cu_dispatch_def Let_def split: option.splits if_splits dest!: acquire_loop_resv [of race, OF _ race])

lemma kds_submit_cu_resv:
  assumes "kds_submit_cu race serve d i xcmd k = Some (r, k')" and race: "\<And>n k. resv (race n k) = resv k"
  shows "resv k' = resv k"
  using assms(1)
  by (cases "c_opcode xcmd") (auto simp: kds_submit_cu_def kds_cu_abort_cmd_def split: if_splits dest!: kds_cu_dispatch_resv [of race, OF _ race] abort_cus_resv)

lemma submit_ert_resv: "submit_ert (w_ert w) now i xcmd k = Some (r, k') \<Longrightarrow> world_ok w \<Longrightarrow> resv k' = resv k"
  by (auto simp: submit_ert_def Let_def world_ok_def split: option.splits)

lemma kds_submit_ert_resv:
  assumes "kds_submit_ert (w_ert w) race now p i xcmd k = Some (r, k')" and race: "\<And>n k. resv (race n k) = resv k" and w: "world_ok w"
  shows "resv k' = resv k"
  using assms(1)
  by (cases "c_opcode xcmd") (auto simp: kds_submit_ert_def split: if_splits option.splits
      dest!: acquire_loop_resv [of race, OF _ race] submit_ert_resv [OF _ w] kds_scu_config_resv)

lemma kds_add_command_resv:
  assumes "kds_add_command (w_ert w) (w_race w) serve now p i xcmd k = Some (r, k')" and w: "world_ok w"
  shows "resv k' = resv k"
proof -
  have race: "\<And>n k. resv (w_race w n k) = resv k" using w by (simp add: world_ok_def)
  show ?thesis
    using assms(1) kds_submit_cu_resv [of "w_race w", OF _ race] kds_submit_ert_resv [of _ "w_race w", OF _ race w]
    by (auto simp: kds_add_command_def split: if_splits)
qed

lemma poll_cus_resv: "poll_cus funcs as busy k = Some (b, k') \<Longrightarrow> resv k' = resv k"
  by (induction "as" arbitrary: busy k) (auto split: option.splits if_splits)

lemma alloc_resv:
  "resv (snd (kds_alloc_hw_ctx h c slot k)) = resv k" "resv (snd (kds_free_hw_ctx c h k)) = resv k"
  "resv (snd (kds_alloc_cu_ctx x c info k)) = resv k" "resv (snd (kds_alloc_cu_hw_ctx x h info k)) = resv k"
  by (auto simp: kds_alloc_hw_ctx_def kds_free_hw_ctx_def kds_alloc_cu_ctx_def kds_alloc_cu_hw_ctx_def split: option.split sum.split)

lemma init_client_ok: "ctx_ok n k \<Longrightarrow> ctx_ok n (snd (kds_init_client mem c k))"
  by (erule ctx_clear) (auto simp: kds_init_client_def upd_client_def refs_of_def kds_client_domain_refcnt_def)

lemma kds_exec_ok:
  assumes r: "kds_exec w e k = Some k'" and ok: "ctx_ok n k" and n: "Suc n < 2 ^ 31" and w: "world_ok w"
  shows "ctx_ok (Suc n) k'"
proof -
  have n': "n < 2 ^ 31" using n by simp
  have m: "ctx_ok n k' \<Longrightarrow> ?thesis" by (erule ctx_mono) simp
  have same: "resv k' = resv k \<Longrightarrow> ?thesis" using m ctx_okI [OF ok] by blast
  show ?thesis
  proof (cases e)
    case (Client_fini c)
    then show ?thesis using r fini_client_ok [OF _ ok n' w] m by simp
  next
    case (Ctx_close c x)
    then show ?thesis using r del_context_ok [OF ok n' w] m by auto
  next
    case (Command now i xcmd p)
    then show ?thesis using r same kds_add_command_resv [OF _ w] by auto
  next
    case Poll_round
    then show ?thesis using r by (intro same) (auto simp: kds_polling_round_def split: if_splits dest!: poll_cus_resv)
  next
    case (Read_range cu start sz)
    then show ?thesis using r by (intro same) (auto simp: kds_set_cu_read_range_def Let_def split: if_splits option.splits)
  qed (use r m same init_client_ok [OF ok] add_context_ok [OF ok n] in \<open>auto simp: alloc_resv\<close>)
qed

lemma kds_run_ok:
  "kds_run w es k = Some k' \<Longrightarrow> ctx_ok n k \<Longrightarrow> n + length es < 2 ^ 31 \<Longrightarrow> world_ok w \<Longrightarrow> ctx_ok (n + length es) k'"
  by (induction es arbitrary: k n) (fastforce split: option.splits dest: kds_exec_ok)+

definition no_reservations :: "'c kds_sched \<Rightarrow> bool" where
  "no_reservations k \<longleftrightarrow> num_cdma (cu_mgmt k) = 0 \<and> (\<forall>c. refcnt (client_at k c) = None) \<and>
     cu_refs (cu_mgmt k) = (\<lambda>_. 0) \<and> cu_refs (scu_mgmt k) = (\<lambda>_. 0)"

lemma no_reservations_ok: "no_reservations k \<Longrightarrow> ctx_ok 0 k"
  by (simp add: no_reservations_def ctx_ok_def cell_ok_def refs_of_def kds_client_domain_refcnt_def mgmt_def)

lemma sole_holder:
  assumes "cell_ok n r v" and "excl_flag v" and "r a \<noteq> 0"
  shows "r b \<noteq> 0 \<longleftrightarrow> b = a"
proof -
  have "card {c. r c \<noteq> 0} \<le> 1" "finite {c. r c \<noteq> 0}" using assms(1,2) by (auto simp: cell_ok_def)
  then show ?thesis using assms(3) unfolding One_nat_def by (auto simp only: card_le_Suc0_iff_eq)
qed

lemma mask_indices_below:
  assumes "cu_mask_to_cu_idx xcmd = Some us" and "length (c_cu_mask xcmd) \<le> 4" and "u \<in> set us"
  shows "u < MAX_CUS"
  using assms by (fastforce simp: cu_mask_to_cu_idx_def mask_list_spec MAX_CUS_def split: if_splits)

text \<open>The selected unit is the first of those with the smallest usage.\<close>

lemma least_used_spec:
  "\<exists>pre post. i # is = pre @ least_used u i is # post \<and> (\<forall>j \<in> set pre. u (least_used u i is) < u j) \<and>
     (\<forall>j \<in> set post. u (least_used u i is) \<le> u j)"
proof (induction "is" rule: rev_induct)
  case (snoc x xs)
  then obtain pre post where l: "i # xs = pre @ least_used u i xs # post" "\<forall>j \<in> set pre. u (least_used u i xs) < u j"
      "\<forall>j \<in> set post. u (least_used u i xs) \<le> u j" by blast
  have s: "least_used u i (xs @ [x]) = (if u x < u (least_used u i xs) then x else least_used u i xs)" by (simp add: least_used_def)
  show ?case
  proof (cases "u x < u (least_used u i xs)")
    case True
    have "\<forall>j \<in> set (i # xs). u x < u j" unfolding l(1) using l(2,3) True by (auto intro: less_trans less_le_trans)
    with True s show ?thesis by (intro exI [of _ "i # xs"] exI [of _ "[]"]) simp
  next
    case False
    then show ?thesis using l s by (intro exI [of _ pre] exI [of _ "post @ [x]"]) auto
  qed
qed (rule exI [of _ "[]"], rule exI [of _ "[]"], simp add: least_used_def)

lemma index_word:
  assumes "i < MAX_CUS"
  shows "unat (word_of_nat i :: s32) = i" and "sint (word_of_nat i :: s32) = int i"
proof -
  have i: "i < 128" using assms by (simp add: MAX_CUS_def)
  then show "unat (word_of_nat i :: s32) = i" by (simp add: unat_of_nat take_bit_nat_eq_self)
  have "signed_take_bit 31 (int i) = int i" using i by (intro signed_take_bit_int_eq_self) simp_all
  then show "sint (word_of_nat i :: s32) = int i"
    using sint_sbintrunc' [where 'a = 32, of "int i"] by simp
qed

lemma least_used_in: "least_used u i is \<in> set (i # is)"
  using least_used_spec [of i "is" u] by (metis in_set_conv_decomp)

lemma acquire_cu_idx_reserved:
  assumes r: "acquire_cu_idx race d xcmd k = Some (idx, xcmd', k')" and len: "length (c_cu_mask xcmd) \<le> 4" and idx: "0 \<le> sint idx"
  shows "\<exists>index < MAX_CUS. idx = word_of_nat index \<and> kds_test_refcnt (c_client xcmd) d index k' \<noteq> 0 \<and>
    0 \<le> sint (kds_test_refcnt (c_client xcmd) d index k')"
proof -
  have neg: "sint (- EINVAL :: s32) < 0" "sint (- EBUSY :: s32) < 0" "sint (- EAGAIN :: s32) < 0"
    by (simp_all add: EINVAL_def EBUSY_def EAGAIN_def)
  obtain us where us: "cu_mask_to_cu_idx xcmd = Some us" using r by (auto simp: acquire_cu_idx_def Let_def split: option.splits)
  obtain v vs where vs: "filter (\<lambda>i. kds_test_refcnt (c_client xcmd) d i k \<noteq> 0) us = v # vs"
    using r idx neg by (auto simp: acquire_cu_idx_def Let_def us split: if_splits list.splits)
  let ?i = "least_used (usage (mgmt d k)) v vs"
  have "?i \<in> set us" using least_used_in [of _ v vs] unfolding vs [symmetric] by auto
  then have "?i < MAX_CUS" by (rule mask_indices_below [OF us len])
  moreover have "idx = word_of_nat ?i \<and> kds_test_refcnt (c_client xcmd) d ?i k' \<noteq> 0 \<and> 0 \<le> sint (kds_test_refcnt (c_client xcmd) d ?i k')"
    using r idx neg by (auto simp: acquire_cu_idx_def Let_def us vs split: if_splits option.splits)
  ultimately show ?thesis by blast
qed

lemma acquire_keeps:
  "acquire_cu_idx race d xcmd k = Some (idx, xcmd', k') \<Longrightarrow> c_client xcmd' = c_client xcmd \<and> c_cu_mask xcmd' = c_cu_mask xcmd"
  by (auto simp: acquire_cu_idx_def Let_def split: option.splits list.splits if_splits)

lemma acquire_loop_reserved:
  assumes "acquire_loop race n d xcmd k = Some (idx, xcmd', k')" and "length (c_cu_mask xcmd) \<le> 4" and "0 \<le> sint idx"
  shows "\<exists>index < MAX_CUS. idx = word_of_nat index \<and> kds_test_refcnt (c_client xcmd) d index k' \<noteq> 0 \<and>
    0 \<le> sint (kds_test_refcnt (c_client xcmd) d index k')"
proof -
  let ?P = "\<lambda>race n d xcmd k y. length (c_cu_mask xcmd) \<le> 4 \<longrightarrow> 0 \<le> sint (fst y) \<longrightarrow>
    (\<exists>index < MAX_CUS. fst y = word_of_nat index \<and> kds_test_refcnt (c_client xcmd) d index (snd (snd y)) \<noteq> 0 \<and>
      0 \<le> sint (kds_test_refcnt (c_client xcmd) d index (snd (snd y))))"
  have "?P race n d xcmd k (idx, xcmd', k')"
  proof (rule acquire_loop.raw_induct [where P = ?P, OF _ assms(1)])
    fix loop and race :: "nat \<Rightarrow> 'a kds_sched \<Rightarrow> 'a kds_sched" and n d xcmd k y
    assume IH: "\<And>race n d xcmd k y. loop race n d xcmd k = Some y \<Longrightarrow> ?P race n d xcmd k y"
      and r: "(case acquire_cu_idx (race n) d xcmd k of None \<Rightarrow> None
        | Some (idx, xcmd, k) \<Rightarrow> if idx = - EAGAIN then loop race (Suc n) d xcmd k else Some (idx, xcmd, k)) = Some y"
    then obtain idx xcmd' k' where a: "acquire_cu_idx (race n) d xcmd k = Some (idx, xcmd', k')"
        "(if idx = - EAGAIN then loop race (Suc n) d xcmd' k' else Some (idx, xcmd', k')) = Some y" by (auto split: option.splits)
    then show "?P race n d xcmd k y"
      using IH [of race "Suc n" d xcmd' k' y] acquire_keeps [OF a(1)] acquire_cu_idx_reserved [OF a(1)] by (cases "idx = - EAGAIN") auto
  qed
  then show ?thesis using assms(2,3) by simp
qed

section \<open>Exclusive reservation\<close>


text \<open>A device with two compute units, and the contexts of two clients on the first of them.\<close>

definition two_units :: kds_cu_mgmt where
  "two_units = \<lparr>xcus = (\<lambda>i. if i < 2 then Some i else None), num_cus = 2, num_cdma = 0, cu_intr = (\<lambda>_. 0), cu_refs = (\<lambda>_. 0),
     usage = (\<lambda>_. 0), rw_shared = 0\<rparr>"

definition sched_of :: "'c xrt_cu \<Rightarrow> 'c kds_sched" where
  "sched_of x = \<lparr>clients = [], num_client = 0, kds_bad_state = False, cu_mgmt = two_units,
     scu_mgmt = two_units\<lparr>xcus := (\<lambda>_. None), num_cus := 0\<rparr>, has_ert = False, xgq_enable = False, cu_intr_cap = 0,
     cmdmem = \<lparr>cm_bo = False, cm_bar_paddr = 0, cm_dev_paddr = 0, cm_vaddr = (\<lambda>_. 0), cm_size = 0\<rparr>, ini_disable = False,
     ert_disable = True, force_polling = False, kds_cu_intr = 0, timestamp_set = False, polling_thread = False, alive_cus = [0, 1],
     polling_start = 0, polling_stop = 0,
     client_at = (\<lambda>_. \<lparr>cl_ctx = Some [], cl_ctx_list = [], cl_hw_ctx_list = [], next_hw_ctx_id = 0, refcnt = None\<rparr>),
     cu_ctx_at = (\<lambda>_. \<lparr>x_cu_idx = 0, x_cu_domain = 0, x_flags = 0, x_ref_cnt = 0, x_hw_ctx = None\<rparr>),
     hw_ctx_at = (\<lambda>_. \<lparr>hw_ctx_idx = 0, hw_slot_idx = 0, hw_cu_ctx_list = [], hw_graph_ctx_list = [], hw_stats = zero_client_stats\<rparr>),
     xcu_at = (\<lambda>_. x), is_ucu = (\<lambda>_. False), read_regs = (\<lambda>_. (0, 0)), host = []\<rparr>"

definition idle_sched :: "bool xrt_cu_hls kds_sched" where
  "idle_sched = sched_of hls_unit"

definition calm :: "bool xrt_cu_hls kds_world" where
  "calm = \<lparr>w_ert = \<lparr>ert_submit = None, ert_abort = None, ert_abort_done = None, ert_abort_sync = None\<rparr>, w_env = (\<lambda>_ k. k),
     w_race = (\<lambda>_ k. k), w_serve = Some, w_funcs = (\<lambda>_. xrt_cu_hls_funcs fast_io False)\<rparr>"

definition pl_info :: "u32 \<Rightarrow> u32 \<Rightarrow> nat \<Rightarrow> kds_client_cu_info" where
  "pl_info i flags h = \<lparr>i_cu_idx = i, i_cu_domain = DOMAIN_PL, i_flags = flags, i_ctx = Some h\<rparr>"

text \<open>The first client reserves the unit exclusively; the second wants to share it and is refused.\<close>

definition contest :: "kds_event list" where
  "contest = [Client_init 5, Hw_alloc 5 10 0, Hw_ctx_alloc 10 20 (pl_info 0 CU_CTX_EXCLUSIVE 10),
     Client_init 6, Hw_alloc 6 11 0, Hw_ctx_alloc 11 21 (pl_info 0 CU_CTX_SHARED 11), Ctx_open 5 20, Ctx_open 6 21]"

lemma calm_ok: "world_ok calm"
  by (simp add: world_ok_def calm_def)

lemma idle_no_reservations: "no_reservations idle_sched"
  by (simp add: no_reservations_def idle_sched_def sched_of_def two_units_def)


section \<open>Dispatch\<close>

lemma acquire_undisturbed:
  assumes us: "cu_mask_to_cu_idx xcmd = Some us" and len: "length (c_cu_mask xcmd) \<le> 4"
    and num: "int (length us) \<le> sint (num_cus (mgmt d k))" and refs: "kds_client_domain_refcnt (c_client xcmd) d k = Some refs"
    and vs: "filter (\<lambda>i. refs i \<noteq> 0) us = v # vs" and i: "i = least_used (usage (mgmt d k)) v vs"
    and a: "xcus (mgmt d k) i = Some a" "protocol (cu_info (xcu_at k a)) \<noteq> CTRL_NONE" "\<not> is_ucu k a"
  shows "acquire_loop (\<lambda>_ k. k) n d xcmd k = Some (word_of_nat i, xcmd\<lparr>c_cu_idx := word_of_nat i\<rparr>,
    client_stat_upd (c_client xcmd) (c_hw_ctx_id xcmd) (add_submitted d i 1)
      (upd_mgmt d (\<lambda>m. m\<lparr>usage := (usage m)(i := usage m i + 1)\<rparr>) k))"
proof -
  have t: "kds_test_refcnt (c_client xcmd) d j k = of_bool (refs j \<noteq> 0)" for j by (simp add: kds_test_refcnt_def refs word_gt_0)
  have in_us: "i \<in> set us" "refs i \<noteq> 0" using least_used_in [of _ v vs] unfolding vs [symmetric] i by auto
  then have "i < MAX_CUS" using mask_indices_below [OF us len] by simp
  note w = index_word [OF this]
  have f: "filter (\<lambda>i. kds_test_refcnt (c_client xcmd) d i k \<noteq> 0) us = v # vs" unfolding vs [symmetric] by (simp add: t)
  have neq: "word_of_nat i \<noteq> - EAGAIN"
  proof
    assume "word_of_nat i = - EAGAIN"
    then have "sint (- EAGAIN) = int i" using w(2) by simp
    then show False by (simp add: EAGAIN_def)
  qed
  let ?k = "client_stat_upd (c_client xcmd) (c_hw_ctx_id xcmd) (add_submitted d i 1)
      (upd_mgmt d (\<lambda>m. m\<lparr>usage := (usage m)(i := usage m i + 1)\<rparr>) k)"
  have t': "kds_test_refcnt (c_client xcmd) d i ?k = 1"
    using ctx_ok_resv(5) [of ?k k "c_client xcmd" d i] t in_us(2) by simp
  have p: "xrt_cu_get_protocol (xcu_at k a) \<noteq> CTRL_NONE" using a(2) by (simp add: xrt_cu_get_protocol_def)
  have "\<not> (\<exists>j \<in> set us. sint (kds_test_refcnt (c_client xcmd) d j k) < 0)" by (auto simp: t)
  then have "acquire_cu_idx (\<lambda>k. k) d xcmd k = Some (word_of_nat i, xcmd\<lparr>c_cu_idx := word_of_nat i\<rparr>, ?k)"
    unfolding acquire_cu_idx_def Let_def us f using num a p t' i by (simp add: f)
  then show ?thesis using neq by (subst acquire_loop.simps) simp
qed

lemma submit_effect:
  "pq (set_xcmd_timestamp i s (xrt_cu_submit i (x\<lparr>cmds := C\<rparr>))) = pq x @ [i]"
  "c_cu_idx (cmds (set_xcmd_timestamp i s (xrt_cu_submit i (x\<lparr>cmds := C\<rparr>))) i) = c_cu_idx (C i)"
  by (auto simp: set_xcmd_timestamp_def xrt_cu_submit_def ktime_get_def Let_def)

text \<open>
  C8: A command that may run on several units goes to the first of the least used ones. When
  its client has reserved units among those its mask names, all of them present, with a control
  protocol and not managed by a user, the command is put last on the pending queue of the
  first unit with the smallest usage count among them, the index of the unit is recorded in
  the command, and nothing else of any unit or usage count changes. Without such a unit the
  command is refused and nothing changes.
\<close>

theorem dispatch_to_least_used:
  assumes us: "cu_mask_to_cu_idx xcmd = Some us" and len: "length (c_cu_mask xcmd) \<le> 4"
    and num: "int (length us) \<le> sint (num_cus (mgmt d k))" and refs: "kds_client_domain_refcnt (c_client xcmd) d k = Some refs"
    and units: "\<forall>i \<in> set us. \<exists>a. xcus (mgmt d k) i = Some a \<and> protocol (cu_info (xcu_at k a)) \<noteq> CTRL_NONE \<and> \<not> is_ucu k a"
  shows "case filter (\<lambda>i. refs i \<noteq> 0) us of
      [] \<Rightarrow> kds_cu_dispatch (\<lambda>_ k. k) d n xcmd k = Some (- EINVAL, xcmd, k)
    | v # vs \<Rightarrow> \<exists>i a k' pre post. v # vs = pre @ i # post \<and> (\<forall>j \<in> set pre. usage (mgmt d k) i < usage (mgmt d k) j) \<and>
        (\<forall>j \<in> set post. usage (mgmt d k) i \<le> usage (mgmt d k) j) \<and> xcus (mgmt d k) i = Some a \<and>
        kds_cu_dispatch (\<lambda>_ k. k) d n xcmd k = Some (0, xcmd\<lparr>c_cu_idx := word_of_nat i\<rparr>, k') \<and>
        pq (xcu_at k' a) = pq (xcu_at k a) @ [n] \<and> c_cu_idx (cmds (xcu_at k' a) n) = word_of_nat i \<and>
        (\<forall>b. b \<noteq> a \<longrightarrow> xcu_at k' b = xcu_at k b) \<and>
        usage (mgmt d k') = (usage (mgmt d k))(i := usage (mgmt d k) i + 1) \<and> host k' = host k"
proof (cases "filter (\<lambda>i. refs i \<noteq> 0) us")
  case Nil
  have t: "kds_test_refcnt (c_client xcmd) d j k = of_bool (refs j \<noteq> 0)" for j by (simp add: kds_test_refcnt_def refs word_gt_0)
  have "acquire_cu_idx (\<lambda>k. k) d xcmd k = Some (- EINVAL, xcmd, k)" unfolding acquire_cu_idx_def Let_def us by (simp add: t Nil)
  then have "acquire_loop (\<lambda>_ k. k) 0 d xcmd k = Some (- EINVAL, xcmd, k)" by (subst acquire_loop.simps) (simp add: EINVAL_def EAGAIN_def)
  then show ?thesis using Nil by (simp add: kds_cu_dispatch_def EINVAL_def)
next
  case (Cons v vs)
  define i where "i = least_used (usage (mgmt d k)) v vs"
  have "i \<in> set us" using least_used_in [of _ v vs] unfolding Cons [symmetric] i_def by auto
  with units obtain a where a: "xcus (mgmt d k) i = Some a" "protocol (cu_info (xcu_at k a)) \<noteq> CTRL_NONE" "\<not> is_ucu k a" by blast
  have "i < MAX_CUS" using mask_indices_below [OF us len \<open>i \<in> set us\<close>] .
  note w = index_word [OF this]
  define k1 where "k1 = client_stat_upd (c_client xcmd) (c_hw_ctx_id xcmd) (add_submitted d i 1)
      (upd_mgmt d (\<lambda>m. m\<lparr>usage := (usage m)(i := usage m i + 1)\<rparr>) k)"
  have k1: "xcu_at k1 = xcu_at k" "host k1 = host k" "mgmt d k1 = (mgmt d k)\<lparr>usage := (usage (mgmt d k))(i := usage (mgmt d k) i + 1)\<rparr>"
    by (simp_all add: k1_def client_stat_upd_def upd_mgmt_def mgmt_def)
  let ?x = "xcu_at k a"
  define x where "x = set_xcmd_timestamp n KDS_QUEUED (xrt_cu_submit n (?x\<lparr>cmds := (cmds ?x)(n := xcmd\<lparr>c_cu_idx := word_of_nat i\<rparr>)\<rparr>))"
  have "kds_cu_dispatch (\<lambda>_ k. k) d n xcmd k = Some (0, xcmd\<lparr>c_cu_idx := word_of_nat i\<rparr>, k1\<lparr>xcu_at := (xcu_at k)(a := x)\<rparr>)"
    unfolding kds_cu_dispatch_def acquire_undisturbed [OF us len num refs Cons i_def a] k1_def [symmetric] x_def
    using w a(1) by (simp add: k1 Let_def)
  moreover have "pq x = pq ?x @ [n]" "c_cu_idx (cmds x n) = word_of_nat i" by (simp_all add: x_def submit_effect)
  moreover have "mgmt d (k1\<lparr>xcu_at := (xcu_at k)(a := x)\<rparr>) = mgmt d k1" by (simp add: mgmt_def)
  ultimately show ?thesis
    using least_used_spec [of v vs "usage (mgmt d k)"] a(1) k1 unfolding Cons list.case i_def [symmetric]
    by (elim exE conjE, intro exI conjI) (assumption | simp)+
qed

definition shared_sched :: "bool xrt_cu_hls kds_sched" where
  "shared_sched = idle_sched\<lparr>client_at := (\<lambda>c. (client_at idle_sched c)\<lparr>refcnt :=
       Some \<lparr>r_cu_refs = (\<lambda>i. if i < 2 then 1 else 0), r_scu_refs = (\<lambda>_. 0)\<rparr>\<rparr>),
     cu_mgmt := two_units\<lparr>cu_refs := (\<lambda>i. if i < 2 then 1 else 0), usage := (\<lambda>i. if i = 0 then 1 else 0)\<rparr>\<rparr>"

theorem dispatch_to_least_used_witness:
  "\<exists>k. kds_cu_dispatch (\<lambda>_ k. k) DOMAIN_PL 7 ((some_cmd 5)\<lparr>c_cu_mask := [3]\<rparr>) shared_sched =
       Some (0, (some_cmd 5)\<lparr>c_cu_mask := [3], c_cu_idx := 1\<rparr>, k) \<and> pq (xcu_at k 1) = [7]"
proof -
  let ?cmd = "(some_cmd 5)\<lparr>c_cu_mask := [3]\<rparr>"
  have us: "cu_mask_to_cu_idx ?cmd = Some [0, 1]" by code_simp
  have m: "mgmt DOMAIN_PL shared_sched = two_units\<lparr>cu_refs := (\<lambda>i. if i < 2 then 1 else 0), usage := (\<lambda>i. if i = 0 then 1 else 0)\<rparr>"
    by (simp add: mgmt_def shared_sched_def)
  have u: "xcu_at shared_sched = (\<lambda>_. hls_unit)" "is_ucu shared_sched = (\<lambda>_. False)" by (simp_all add: shared_sched_def idle_sched_def sched_of_def)
  have p: "protocol (cu_info hls_unit) \<noteq> CTRL_NONE" by code_simp
  have q: "pq hls_unit = []" by code_simp
  have r: "kds_client_domain_refcnt (c_client ?cmd) DOMAIN_PL shared_sched = Some (\<lambda>i. if i < 2 then 1 else 0)"
    by (simp add: kds_client_domain_refcnt_def shared_sched_def)
  have f: "filter (\<lambda>i. (if i < 2 then 1 else 0 :: u32) \<noteq> 0) [0, 1 :: nat] = [0, 1]" by simp
  have "int (length [0, 1 :: nat]) \<le> sint (num_cus (mgmt DOMAIN_PL shared_sched))" by (simp add: m two_units_def)
  moreover have "length (c_cu_mask ?cmd) \<le> 4" by simp
  moreover have "\<forall>i \<in> set [0, 1]. \<exists>a. xcus (mgmt DOMAIN_PL shared_sched) i = Some a \<and> protocol (cu_info (xcu_at shared_sched a)) \<noteq> CTRL_NONE \<and>
      \<not> is_ucu shared_sched a" using p by (simp add: m u two_units_def)
  ultimately obtain i a k pre post where k: "[0, 1] = pre @ i # post"
      "\<forall>j \<in> set post. usage (mgmt DOMAIN_PL shared_sched) i \<le> usage (mgmt DOMAIN_PL shared_sched) j" "xcus (mgmt DOMAIN_PL shared_sched) i = Some a"
      "kds_cu_dispatch (\<lambda>_ k. k) DOMAIN_PL 7 ?cmd shared_sched = Some (0, ?cmd\<lparr>c_cu_idx := word_of_nat i\<rparr>, k)"
      "pq (xcu_at k a) = pq (xcu_at shared_sched a) @ [7]"
    using dispatch_to_least_used [OF us _ _ r, of 7, unfolded f list.case] by blast
  have i: "i = 1" using k(1,2) by (cases pre; cases "tl pre") (auto simp: m)
  then have "a = 1" using k(3) by (simp add: m two_units_def)
  then show ?thesis using k(4,5) i by (simp add: u q)
qed

section \<open>Leaked reservations\<close>

lemma exclusive_refused:
  assumes "x_cu_domain (cu_ctx_at k y) = DOMAIN_PL" and "x_flags (cu_ctx_at k y) AND CU_CTX_PROP_MASK = CU_CTX_EXCLUSIVE"
    and "cu_refs (cu_mgmt k) (unat (x_cu_idx (cu_ctx_at k y))) \<noteq> 0"
  shows "fst (kds_add_context c y k) = - EINVAL"
proof -
  have m: "cu_mgmt (set_refs b d f k) = cu_mgmt k" for b d f by (simp add: set_refs_def Let_def)
  have "fst (kds_add_cu_context c y k) \<noteq> 0"
    using assms by (auto simp: m kds_add_cu_context_def Let_def kds_test_and_refcnt_incr_def mgmt_def EINVAL_def EBUSY_def split: prod.splits option.splits)
  then show ?thesis using assms(1) by (auto simp: kds_add_context_def Let_def DOMAIN_PL_def DOMAIN_VIRT_def split: prod.splits)
qed

lemmas context_defs = kds_add_context_def kds_add_cu_context_def kds_del_context_def kds_del_cu_context_def
  kds_test_and_refcnt_incr_def kds_test_and_refcnt_decr_def kds_client_domain_refcnt_def set_refs_def upd_mgmt_def upd_ctx_def
  set_cu_refs_def mgmt_def outstanding_cmds_def client_stat_read_def Let_def


definition opened_sched :: "u32 \<Rightarrow> bool xrt_cu_hls kds_sched" where
  "opened_sched domain = idle_sched\<lparr>cu_mgmt := two_units\<lparr>num_cdma := 1\<rparr>, client_at := (\<lambda>c. (client_at idle_sched c)\<lparr>refcnt :=
       Some \<lparr>r_cu_refs = (\<lambda>_. 0), r_scu_refs = (\<lambda>_. 0)\<rparr>\<rparr>),
     cu_ctx_at := (\<lambda>_. \<lparr>x_cu_idx = 0, x_cu_domain = domain, x_flags = CU_CTX_SHARED, x_ref_cnt = 0, x_hw_ctx = Some 10\<rparr>)\<rparr>"




end
