(* ===== verification/Kds_Cmdmem.thy ===== *)
theory Kds_Cmdmem
  imports Kds_Context
begin

text \<open>
  The division of the command memory among the fast adapters: every adapter gets slots for
  descriptors of its size, as many as all the others, and no two adapters share memory.
\<close>

section \<open>Rounding up\<close>

lemma word_le_or: "x \<le> x OR (y :: u32)"
  by (simp add: word_le_def uint_or or_greater_eq)

lemma round_up_ge:
  assumes "round_up_to_next_power2 v \<noteq> 0"
  shows "v \<le> round_up_to_next_power2 v"
proof -
  let ?a = "v - 1" let ?b = "?a OR drop_bit 1 ?a" let ?c = "?b OR drop_bit 2 ?b" let ?d = "?c OR drop_bit 4 ?c"
  let ?e = "?d OR drop_bit 8 ?d" let ?f = "?e OR drop_bit 16 ?e"
  have r: "round_up_to_next_power2 v = ?f + 1" by (simp add: round_up_to_next_power2_def Let_def)
  have "?a \<le> ?b" "?b \<le> ?c" "?c \<le> ?d" "?d \<le> ?e" "?e \<le> ?f" by (rule word_le_or)+
  then have "?a \<le> ?f" by (meson order_trans)
  moreover have "?f + 1 \<noteq> 0" using assms unfolding r .
  ultimately show ?thesis unfolding r by unat_arith
qed

section \<open>Assignment\<close>

lemma cfg_update_info [simp]: "cu_info (snd (xrt_fa_cfg_update b d v n x)) = cu_info x"
  by (simp add: xrt_fa_cfg_update_def Let_def)

lemma desc_size_info: "cu_info x = cu_info y \<Longrightarrow> cu_fa_get_desc_size x = cu_fa_get_desc_size y"
  by (simp add: cu_fa_get_desc_size_def)

lemma fa_release_spec:
  "fa_release as t k = (t', k') \<Longrightarrow> (\<forall>a. cu_info (xcu_at k' a) = cu_info (xcu_at k a)) \<and> cmdmem k' = cmdmem k \<and> cu_mgmt k' = cu_mgmt k \<and>
     t' = t + sum_list (map (\<lambda>a. cu_fa_get_desc_size (xcu_at k a)) as)"
proof (induction "as" arbitrary: t k)
  case (Cons a as)
  define k1 where "k1 = k\<lparr>xcu_at := (xcu_at k)(a := snd (xrt_fa_cfg_update 0 0 None 0 (xcu_at k a)))\<rparr>"
  have i: "cu_info (xcu_at k1 b) = cu_info (xcu_at k b)" for b by (simp add: k1_def)
  have d: "cu_fa_get_desc_size (xcu_at k1 b) = cu_fa_get_desc_size (xcu_at k b)" for b by (rule desc_size_info [OF i])
  have "cmdmem k1 = cmdmem k" "cu_mgmt k1 = cu_mgmt k" by (simp_all add: k1_def)
  then show ?case using Cons.IH [of "t + cu_fa_get_desc_size (xcu_at k a)" k1] Cons.prems by (simp add: k1_def [symmetric] d i add.assoc)
qed simp

lemma fa_units_info:
  assumes "\<And>a. cu_info (xcu_at k' a) = cu_info (xcu_at k a)" and "cu_mgmt k' = cu_mgmt k"
  shows "fa_units k' = fa_units k"
  by (simp add: fa_units_def xrt_is_fa_def assms)

text \<open>
  Each adapter's memory starts after that of the adapters before it. The sums do not wrap around
  as long as the memory does not reach the end of the address space.
\<close>

lemma fa_assign_other: "a \<notin> set as \<Longrightarrow> xcu_at (fa_assign as bar dev v n k) a = xcu_at k a"
  by (induction "as" arbitrary: bar dev v k) (auto simp: Let_def)

lemma fa_assign_spec:
  assumes "distinct (pre @ a # post)" and "bar \<noteq> 0"
    and "\<And>b. unat (cu_fa_get_desc_size (xcu_at k b)) = sz b"
    and "unat bar + unat n * sum_list (map sz (pre @ a # post)) < 2 ^ 64" and "unat dev + unat n * sum_list (map sz (pre @ a # post)) < 2 ^ 64"
  shows "let c = core (xcu_at (fa_assign (pre @ a # post) bar dev v n k) a) in
    unat (fa_paddr c) = unat dev + unat n * sum_list (map sz pre) \<and> unat (fa_slot_sz c) = sz a \<and> fa_num_slots c = n"
  using assms
proof (induction pre arbitrary: bar dev v k)
  case Nil
  then show ?case by (simp add: Let_def fa_assign_other xrt_fa_cfg_update_def)
next
  case (Cons b pre)
  define s where "s = (ucast (cu_fa_get_desc_size (xcu_at k b)) * ucast n :: u64)"
  let ?k = "k\<lparr>xcu_at := (xcu_at k)(b := snd (xrt_fa_cfg_update bar dev (Some v) n (xcu_at k b)))\<rparr>"
  have sb: "unat (cu_fa_get_desc_size (xcu_at k b)) = sz b" by (rule Cons.prems(3))
  have lim: "unat bar + (sz b * unat n + unat n * sum_list (map sz (pre @ a # post))) < 2 ^ 64"
    "unat dev + (sz b * unat n + unat n * sum_list (map sz (pre @ a # post))) < 2 ^ 64"
    using Cons.prems(4,5) by (simp_all add: algebra_simps)
  have s: "unat s = sz b * unat n"
    using lim(1) by (simp add: s_def unat_word_ariths unat_ucast_up sb)
  have ad: "unat (bar + s) = unat bar + sz b * unat n" "unat (dev + s) = unat dev + sz b * unat n"
    using lim by (simp_all add: unat_word_ariths s)
  have "bar + s \<noteq> 0" using Cons.prems(2) ad(1) by (metis add_is_0 unat_eq_zero)
  moreover have "unat (cu_fa_get_desc_size (xcu_at ?k c)) = sz c" for c
    using Cons.prems(3) [of c] desc_size_info [of "xcu_at ?k c" "xcu_at k c"] by simp
  moreover have "unat (bar + s) + unat n * sum_list (map sz (pre @ a # post)) < 2 ^ 64"
    "unat (dev + s) + unat n * sum_list (map sz (pre @ a # post)) < 2 ^ 64" using lim unfolding ad by linarith+
  ultimately have "let c = core (xcu_at (fa_assign (pre @ a # post) (bar + s) (dev + s) (\<lambda>b. v (unat s + b)) n ?k) a) in
    unat (fa_paddr c) = unat (dev + s) + unat n * sum_list (map sz pre) \<and> unat (fa_slot_sz c) = sz a \<and> fa_num_slots c = n"
    using Cons.prems(1) by (intro Cons.IH) auto
  moreover have "fa_assign ((b # pre) @ a # post) bar dev v n k = fa_assign (pre @ a # post) (bar + s) (dev + s) (\<lambda>b. v (unat s + b)) n ?k"
    by (simp add: s_def Let_def)
  ultimately show ?case unfolding ad by (simp only: Let_def) (simp add: distrib_left mult.commute)
qed

section \<open>The partition\<close>

lemma sum_list_words: "sum_list (map (\<lambda>a. unat (f a :: u32)) as) < 2 ^ 32 \<Longrightarrow> unat (sum_list (map f as)) = sum_list (map (\<lambda>a. unat (f a)) as)"
  by (induction "as") (simp_all add: unat_word_ariths)

text \<open>
  C14: The command memory is divided without overlap. When the assignment succeeds, every fast
  adapter has at least one slot, of the size of its descriptors, its slots lie inside the command
  memory, and the slots of two adapters do not overlap. The memory lies inside the address space
  and its bus address is not null; the sum of the descriptor sizes fits 32 bits.
\<close>

theorem cmdmem_partitioned:
  assumes r: "kds_fa_assign_cmdmem k = Some (0, k')" and dist: "distinct (fa_units k)"
    and bar: "cm_bar_paddr (cmdmem k) \<noteq> 0" "unat (cm_bar_paddr (cmdmem k)) + unat (cm_size (cmdmem k)) < 2 ^ 64"
    and dev: "unat (cm_dev_paddr (cmdmem k)) + unat (cm_size (cmdmem k)) < 2 ^ 64"
    and total: "sum_list (map (\<lambda>a. unat (cu_fa_get_desc_size (xcu_at k a))) (fa_units k)) < 2 ^ 32"
  defines "lo a \<equiv> unat (fa_paddr (core (xcu_at k' a)))"
    and "hi a \<equiv> unat (fa_paddr (core (xcu_at k' a))) + unat (fa_slot_sz (core (xcu_at k' a))) * unat (fa_num_slots (core (xcu_at k' a)))"
  shows "\<forall>a \<in> set (fa_units k). fa_slot_sz (core (xcu_at k' a)) = cu_fa_get_desc_size (xcu_at k a) \<and> fa_num_slots (core (xcu_at k' a)) > 0 \<and>
      unat (cm_dev_paddr (cmdmem k)) \<le> lo a \<and> hi a \<le> unat (cm_dev_paddr (cmdmem k)) + unat (cm_size (cmdmem k)) \<and>
      (\<forall>b \<in> set (fa_units k). a \<noteq> b \<longrightarrow> hi a \<le> lo b \<or> hi b \<le> lo a)"
proof -
  define us n sz where "us = fa_units k" and "n = cm_size (cmdmem k) div round_up_to_next_power2 (sum_list (map (\<lambda>a. cu_fa_get_desc_size (xcu_at k a)) us))"
    and "sz a = unat (cu_fa_get_desc_size (xcu_at k a))" for a
  obtain t k1 where k1: "fa_release us 0 k = (t, k1)" by fastforce
  note rel = fa_release_spec [OF k1]
  have u1: "fa_units k1 = us" unfolding us_def using rel by (intro fa_units_info) auto
  have sz1: "unat (cu_fa_get_desc_size (xcu_at k1 a)) = sz a" for a using desc_size_info [of "xcu_at k1 a" "xcu_at k a"] rel by (simp add: sz_def)
  have t: "t = sum_list (map (\<lambda>a. cu_fa_get_desc_size (xcu_at k a)) us)" using rel by simp
  have T: "round_up_to_next_power2 t \<noteq> 0" "round_up_to_next_power2 t \<le> cm_size (cmdmem k)"
    and k': "k' = fa_assign us (cm_bar_paddr (cmdmem k)) (cm_dev_paddr (cmdmem k)) (cm_vaddr (cmdmem k)) n k1"
    using r k1 rel by (auto simp: kds_fa_assign_cmdmem_def us_def [symmetric] Let_def u1 n_def t EINVAL_def split: if_splits)
  have n: "unat n = unat (cm_size (cmdmem k)) div unat (round_up_to_next_power2 t)" by (simp add: n_def t unat_div)
  have "unat n > 0" unfolding n using T by (simp add: div_greater_zero_iff word_le_nat_alt unat_gt_0)
  then have pos: "n > 0" by (simp add: unat_gt_0 word_gt_0)
  have "sum_list (map sz us) \<le> unat (round_up_to_next_power2 t)"
    using round_up_ge [OF T(1)] sum_list_words [OF total] by (simp add: t us_def sz_def [abs_def] word_le_nat_alt)
  then have fits: "unat n * sum_list (map sz us) \<le> unat (cm_size (cmdmem k))"
    unfolding n by (meson order_trans mult_le_mono2 div_times_less_eq_dividend)
  have at: "lo a = unat (cm_dev_paddr (cmdmem k)) + unat n * sum_list (map sz pre)" "hi a = lo a + unat n * sz a"
      "fa_slot_sz (core (xcu_at k' a)) = cu_fa_get_desc_size (xcu_at k a)" "fa_num_slots (core (xcu_at k' a)) = n" if "us = pre @ a # post" for a pre post
  proof -
    have "let c = core (xcu_at k' a) in unat (fa_paddr c) = unat (cm_dev_paddr (cmdmem k)) + unat n * sum_list (map sz pre) \<and>
        unat (fa_slot_sz c) = sz a \<and> fa_num_slots c = n"
      unfolding k' that by (rule fa_assign_spec [OF _ bar(1) sz1]) (use dist bar(2) dev fits that in \<open>simp_all add: us_def [symmetric]\<close>)
    then show "lo a = unat (cm_dev_paddr (cmdmem k)) + unat n * sum_list (map sz pre)" "hi a = lo a + unat n * sz a"
      "fa_slot_sz (core (xcu_at k' a)) = cu_fa_get_desc_size (xcu_at k a)" "fa_num_slots (core (xcu_at k' a)) = n"
      by (simp_all add: Let_def lo_def hi_def sz_def word_unat_eq_iff)
  qed
  have before: "hi a \<le> lo b" if "us = pre @ a # mid @ b # post" for a b pre mid post
    using at(1,2) [of pre a "mid @ b # post"] at(1) [of "pre @ a # mid" b post] that by (simp add: distrib_left)
  have two: "\<exists>pre mid post. us = pre @ a # mid @ b # post \<or> us = pre @ b # mid @ a # post" if "a \<in> set us" "b \<in> set us" "a \<noteq> b" for a b
    using that by (metis (no_types, opaque_lifting) split_list append_assoc append_Cons Un_iff set_append set_ConsD)
  show ?thesis unfolding us_def [symmetric]
  proof (intro ballI conjI impI)
    fix a assume "a \<in> set us"
    then obtain pre post where us: "us = pre @ a # post" by (meson split_list)
    show "fa_slot_sz (core (xcu_at k' a)) = cu_fa_get_desc_size (xcu_at k a)" "fa_num_slots (core (xcu_at k' a)) > 0"
      "unat (cm_dev_paddr (cmdmem k)) \<le> lo a" using at [OF us] pos by simp_all
    show "hi a \<le> unat (cm_dev_paddr (cmdmem k)) + unat (cm_size (cmdmem k))" using at(1,2) [OF us] fits unfolding us by (simp add: distrib_left)
    show "hi a \<le> lo b \<or> hi b \<le> lo a" if "b \<in> set us" "a \<noteq> b" for b using two [OF \<open>a \<in> set us\<close> that] before by blast
  qed
qed

definition two_adapters :: "u32 xrt_cu_fa kds_sched" where
  "two_adapters = (sched_of fa_unit)\<lparr>cmdmem := \<lparr>cm_bo = True, cm_bar_paddr = 0x10000, cm_dev_paddr = 0x20000, cm_vaddr = (\<lambda>_. 0), cm_size = 0x1000\<rparr>\<rparr>"

theorem cmdmem_partitioned_witness:
  "\<exists>k. kds_fa_assign_cmdmem two_adapters = Some (0, k) \<and> fa_units two_adapters = [0, 1] \<and> fa_num_slots (core (xcu_at k 0)) = 64 \<and>
     unat (fa_paddr (core (xcu_at k 0))) + unat (fa_slot_sz (core (xcu_at k 0))) * unat (fa_num_slots (core (xcu_at k 0)))
       \<le> unat (fa_paddr (core (xcu_at k 1)))"
proof -
  have "map_option (\<lambda>(r, k). (r, map (\<lambda>a. (fa_paddr (core (xcu_at k a)), fa_num_slots (core (xcu_at k a)))) [0, 1]))
      (kds_fa_assign_cmdmem two_adapters) = Some (0, [(0x20000, 64), (0x20800, 64)])" by code_simp
  then obtain k where k: "kds_fa_assign_cmdmem two_adapters = Some (0, k)" "fa_paddr (core (xcu_at k 0)) = 0x20000"
      "fa_num_slots (core (xcu_at k 0)) = 64" "fa_paddr (core (xcu_at k 1)) = 0x20800" by (auto simp: map_option_eq_Some)
  have u: "fa_units two_adapters = [0, 1]" by code_simp
  have s: "cu_fa_get_desc_size (xcu_at two_adapters a) = 32" for a
  proof -
    have "cu_fa_get_desc_size fa_unit = 32" by code_simp
    then show ?thesis by (simp add: two_adapters_def sched_of_def)
  qed
  have c: "cmdmem two_adapters = \<lparr>cm_bo = True, cm_bar_paddr = 0x10000, cm_dev_paddr = 0x20000, cm_vaddr = (\<lambda>_. 0), cm_size = 0x1000\<rparr>"
    by (simp add: two_adapters_def)
  show ?thesis using cmdmem_partitioned [OF k(1)] k by (auto simp: u s c)
qed

end
