(* ===== verification/Spec2Isabelle.thy ===== *)
theory Spec2Isabelle
  imports Driver_Firmware Emu_Memory Kds_Cmdmem
begin

text \<open>
  XRT, the Xilinx runtime: embedded scheduler and its command packets.

  This header is completed as components are added.
\<close>

end
